(* ===== verification/Prelude.thy ===== *)
theory Prelude
  imports Main "HOL-Library.Word" "HOL-Library.Monad_Syntax"
begin

text \<open>
  Shared vocabulary of the development: the machine integers of the Rust sources, byte strings,
  \<open>Result\<close> values, the checked conversions and additions of the standard library, the
  non-panicking slice accessors (\<open>get\<close> on an index or a range), and little-endian integer
  encodings.  Every component theory builds on these definitions and on the simplification rules
  collected here.

  \<open>usize\<close> is a natural number below \<open>2 ^ 64\<close> (the 64-bit targets the crate is built for); the
  checked operations write that bound out.  A \<open>Result<T, E>\<close> is a value of \<open>'e + 't\<close> with
  \<open>Inl\<close> the error.
\<close>

section \<open>Types\<close>

type_synonym u8 = "8 word"
type_synonym u16 = "16 word"
type_synonym u32 = "32 word"
type_synonym u64 = "64 word"
type_synonym usize = nat
type_synonym bytes = "u8 list"

named_theorems slice_simps \<open>rewrite rules for the non-panicking slice accessors\<close>
named_theorems le_simps \<open>rewrite rules for little-endian encodings\<close>
named_theorems checked_simps \<open>rewrite rules for checked conversions and additions\<close>

section \<open>Results\<close>

definition ok_or :: "'e \<Rightarrow> 'a option \<Rightarrow> 'e + 'a" where
  "ok_or e r = (case r of None \<Rightarrow> Inl e | Some x \<Rightarrow> Inr x)"

definition map_err :: "('e \<Rightarrow> 'f) \<Rightarrow> 'e + 'a \<Rightarrow> 'f + 'a" where
  "map_err f r = (case r of Inl e \<Rightarrow> Inl (f e) | Inr x \<Rightarrow> Inr x)"

definition and_then :: "'e + 'a \<Rightarrow> ('a \<Rightarrow> 'e + 'b) \<Rightarrow> 'e + 'b" where
  "and_then r f = (case r of Inl e \<Rightarrow> Inl e | Inr x \<Rightarrow> f x)"

definition is_ok :: "'e + 'a \<Rightarrow> bool" where
  "is_ok r = (case r of Inl _ \<Rightarrow> False | Inr _ \<Rightarrow> True)"

lemma ok_or_simps [simp]:
  "ok_or e None = Inl e"
  "ok_or e (Some x) = Inr x"
  by (simp_all add: ok_or_def)

lemma ok_or_eq_Inr [simp]: "ok_or e r = Inr x \<longleftrightarrow> r = Some x"
  by (cases r) simp_all

lemma ok_or_eq_Inl [simp]: "ok_or e r = Inl f \<longleftrightarrow> r = None \<and> f = e"
  by (cases r) auto

lemma map_err_simps [simp]:
  "map_err f (Inl e) = Inl (f e)"
  "map_err f (Inr x) = Inr x"
  by (simp_all add: map_err_def)

lemma map_err_eq_Inr [simp]: "map_err f r = Inr x \<longleftrightarrow> r = Inr x"
  by (cases r) simp_all

lemma map_err_eq_Inl: "map_err f r = Inl e \<longleftrightarrow> (\<exists>e'. r = Inl e' \<and> e = f e')"
  by (cases r) auto

lemma and_then_simps [simp]:
  "and_then (Inl e) f = Inl e"
  "and_then (Inr x) f = f x"
  by (simp_all add: and_then_def)

lemma and_then_eq_Inr: "and_then r f = Inr y \<longleftrightarrow> (\<exists>x. r = Inr x \<and> f x = Inr y)"
  by (cases r) simp_all

lemma and_then_eq_Inl:
  "and_then r f = Inl e \<longleftrightarrow> r = Inl e \<or> (\<exists>x. r = Inr x \<and> f x = Inl e)"
  by (cases r) auto

lemma is_ok_simps [simp]:
  "is_ok (Inl e) = False"
  "is_ok (Inr x) = True"
  by (simp_all add: is_ok_def)

section \<open>Checked conversions and additions\<close>

definition checked_add_usize :: "usize \<Rightarrow> usize \<Rightarrow> usize option" where
  "checked_add_usize a b = (if a + b < 2 ^ 64 then Some (a + b) else None)"

definition checked_add_u64 :: "u64 \<Rightarrow> u64 \<Rightarrow> u64 option" where
  "checked_add_u64 a b = (if unat a + unat b < 2 ^ 64 then Some (a + b) else None)"

definition u16_try_from :: "usize \<Rightarrow> u16 option" where
  "u16_try_from n = (if n < 2 ^ 16 then Some (of_nat n) else None)"

definition u32_try_from :: "usize \<Rightarrow> u32 option" where
  "u32_try_from n = (if n < 2 ^ 32 then Some (of_nat n) else None)"

definition u64_try_from :: "usize \<Rightarrow> u64 option" where
  "u64_try_from n = (if n < 2 ^ 64 then Some (of_nat n) else None)"

definition usize_try_from_u64 :: "u64 \<Rightarrow> usize option" where
  "usize_try_from_u64 w = (if unat w < 2 ^ 64 then Some (unat w) else None)"

definition usize_try_from_u32 :: "u32 \<Rightarrow> usize option" where
  "usize_try_from_u32 w = (if unat w < 2 ^ 64 then Some (unat w) else None)"

definition u16_max :: u16 where
  "u16_max = 65535"

lemma unat_u16_less: "unat (w :: u16) < 65536"
  using unsigned_less [of w, where ?'a = nat] by simp

lemma unat_u32_less: "unat (w :: u32) < 4294967296"
  using unsigned_less [of w, where ?'a = nat] by simp

lemma unat_u64_less: "unat (w :: u64) < 18446744073709551616"
  using unsigned_less [of w, where ?'a = nat] by simp

lemma unat_u8_less: "unat (w :: u8) < 256"
  using unsigned_less [of w, where ?'a = nat] by simp

lemma unat_ucast_u64 [simp]:
  "unat (ucast (a :: u32) :: u64) = unat a"
  "unat (ucast (b :: u16) :: u64) = unat b"
  using unat_u32_less [of a] unat_u16_less [of b]
  by (simp_all add: unsigned_ucast_eq take_bit_nat_eq_self_iff)

lemma usize_try_from_simps [simp]:
  "usize_try_from_u64 w = Some (unat w)"
  "usize_try_from_u32 v = Some (unat v)"
  using unat_u32_less [of v] unat_u64_less [of w]
  by (simp_all add: usize_try_from_u64_def usize_try_from_u32_def)

lemma u16_try_from_Some [checked_simps]:
  "u16_try_from n = Some w \<longleftrightarrow> n < 65536 \<and> n = unat w"
  by (auto simp: u16_try_from_def unat_of_nat)

lemma u16_try_from_None [checked_simps]: "u16_try_from n = None \<longleftrightarrow> 65536 \<le> n"
  by (auto simp: u16_try_from_def)

lemma u32_try_from_Some [checked_simps]:
  "u32_try_from n = Some w \<longleftrightarrow> n < 4294967296 \<and> n = unat w"
  by (auto simp: u32_try_from_def unat_of_nat)

lemma u32_try_from_None [checked_simps]: "u32_try_from n = None \<longleftrightarrow> 4294967296 \<le> n"
  by (auto simp: u32_try_from_def)

lemma u64_try_from_Some [checked_simps]:
  "u64_try_from n = Some w \<longleftrightarrow> n < 18446744073709551616 \<and> n = unat w"
  by (auto simp: u64_try_from_def unat_of_nat)

lemma u64_try_from_None [checked_simps]: "u64_try_from n = None \<longleftrightarrow> 18446744073709551616 \<le> n"
  by (auto simp: u64_try_from_def)

lemma checked_add_usize_Some [checked_simps]:
  "checked_add_usize a b = Some c \<longleftrightarrow> a + b < 18446744073709551616 \<and> c = a + b"
  by (auto simp: checked_add_usize_def)

lemma checked_add_usize_None [checked_simps]:
  "checked_add_usize a b = None \<longleftrightarrow> 18446744073709551616 \<le> a + b"
  by (auto simp: checked_add_usize_def)

lemma unat_add_u64: "unat a + unat b < 18446744073709551616 \<Longrightarrow> unat (a + b :: u64) = unat a + unat b"
  by (simp add: unat_word_ariths)

lemma checked_add_u64_Some [checked_simps]:
  "checked_add_u64 a b = Some c \<longleftrightarrow>
     unat a + unat b < 18446744073709551616 \<and> unat c = unat a + unat b"
  by (auto simp: checked_add_u64_def unat_add_u64 simp flip: word_unat_eq_iff)
     (simp add: unat_add_u64 word_unat_eq_iff)

lemma checked_add_u64_None [checked_simps]:
  "checked_add_u64 a b = None \<longleftrightarrow> 18446744073709551616 \<le> unat a + unat b"
  by (auto simp: checked_add_u64_def)

section \<open>Slices\<close>

text \<open>The accessors of a slice that answer \<open>None\<close> instead of panicking when out of range.\<close>

definition get_at :: "'a list \<Rightarrow> usize \<Rightarrow> 'a option" where
  "get_at xs i = (if i < length xs then Some (xs ! i) else None)"

definition get_range :: "'a list \<Rightarrow> usize \<Rightarrow> usize \<Rightarrow> 'a list option" where
  "get_range xs a b = (if a \<le> b \<and> b \<le> length xs then Some (take (b - a) (drop a xs)) else None)"

definition get_from :: "'a list \<Rightarrow> usize \<Rightarrow> 'a list option" where
  "get_from xs a = (if a \<le> length xs then Some (drop a xs) else None)"

definition get_to :: "'a list \<Rightarrow> usize \<Rightarrow> 'a list option" where
  "get_to xs b = (if b \<le> length xs then Some (take b xs) else None)"

lemma get_at_Some [slice_simps]: "get_at xs i = Some x \<longleftrightarrow> i < length xs \<and> x = xs ! i"
  by (auto simp: get_at_def)

lemma get_at_None [slice_simps]: "get_at xs i = None \<longleftrightarrow> length xs \<le> i"
  by (auto simp: get_at_def)

lemma get_range_Some [slice_simps]:
  "get_range xs a b = Some ys \<longleftrightarrow> a \<le> b \<and> b \<le> length xs \<and> ys = take (b - a) (drop a xs)"
  by (auto simp: get_range_def)

lemma get_range_None [slice_simps]: "get_range xs a b = None \<longleftrightarrow> b < a \<or> length xs < b"
  by (auto simp: get_range_def)

lemma get_from_Some [slice_simps]: "get_from xs a = Some ys \<longleftrightarrow> a \<le> length xs \<and> ys = drop a xs"
  by (auto simp: get_from_def)

lemma get_from_None [slice_simps]: "get_from xs a = None \<longleftrightarrow> length xs < a"
  by (auto simp: get_from_def)

lemma get_to_Some [slice_simps]: "get_to xs b = Some ys \<longleftrightarrow> b \<le> length xs \<and> ys = take b xs"
  by (auto simp: get_to_def)

lemma get_to_None [slice_simps]: "get_to xs b = None \<longleftrightarrow> length xs < b"
  by (auto simp: get_to_def)

lemma get_at_append: "i < length xs \<Longrightarrow> get_at (xs @ ys) i = get_at xs i"
  by (simp add: get_at_def nth_append)

lemma get_range_append: "b \<le> length xs \<Longrightarrow> get_range (xs @ ys) a b = get_range xs a b"
  by (auto simp: get_range_def)

section \<open>Decimal numbers in messages\<close>

text \<open>How \<open>Display\<close> prints an unsigned integer.\<close>

definition digit :: "nat \<Rightarrow> char" where
  "digit n = char_of (48 + n)"

fun show_nat :: "nat \<Rightarrow> string" where
  "show_nat n = (if n < 10 then [digit n] else show_nat (n div 10) @ [digit (n mod 10)])"

declare show_nat.simps [simp del]

section \<open>Strings\<close>

text \<open>A \<open>String\<close> whose characters matter is the list of its Unicode scalar values.\<close>

type_synonym scalar_string = "nat list"

definition scalars :: "string \<Rightarrow> scalar_string" where
  "scalars s = map of_char s"

text \<open>The white space of \<open>str::trim\<close>: the Unicode property \<open>White_Space\<close>.\<close>

definition is_whitespace :: "nat \<Rightarrow> bool" where
  "is_whitespace c \<longleftrightarrow>
     9 \<le> c \<and> c \<le> 13 \<or> c = 32 \<or> c = 0x85 \<or> c = 0xA0 \<or> c = 0x1680 \<or> 0x2000 \<le> c \<and> c \<le> 0x200A \<or>
     c = 0x2028 \<or> c = 0x2029 \<or> c = 0x202F \<or> c = 0x205F \<or> c = 0x3000"

definition trim :: "scalar_string \<Rightarrow> scalar_string" where
  "trim s = rev (dropWhile is_whitespace (rev (dropWhile is_whitespace s)))"

lemma trim_eq_Nil: "trim s = [] \<longleftrightarrow> list_all is_whitespace s"
proof
  assume "trim s = []"
  then have "\<forall>x \<in> set (dropWhile is_whitespace s). is_whitespace x"
    by (simp add: trim_def dropWhile_eq_Nil_conv)
  moreover have "\<not> is_whitespace (hd (dropWhile is_whitespace s))" if "dropWhile is_whitespace s \<noteq> []"
    using that by (rule hd_dropWhile)
  ultimately have "dropWhile is_whitespace s = []" by (metis hd_in_set)
  then show "list_all is_whitespace s" by (simp add: list_all_iff dropWhile_eq_Nil_conv)
qed (auto simp: trim_def list_all_iff dropWhile_eq_Nil_conv dest: set_dropWhileD)

section \<open>Little-endian integers\<close>

primrec le_nat :: "bytes \<Rightarrow> nat" where
  "le_nat [] = 0"
| "le_nat (b # bs) = unat b + 256 * le_nat bs"

primrec nat_le :: "nat \<Rightarrow> nat \<Rightarrow> bytes" where
  "nat_le 0 n = []"
| "nat_le (Suc k) n = of_nat (n mod 256) # nat_le k (n div 256)"

definition from_le_bytes :: "bytes \<Rightarrow> 'a::len word" where
  "from_le_bytes bs = of_nat (le_nat bs)"

definition to_le_bytes :: "'a::len word \<Rightarrow> bytes" where
  "to_le_bytes w = nat_le (LENGTH('a) div 8) (unat w)"

lemma nat_le_numeral [simp]:
  "nat_le (numeral k) n = of_nat (n mod 256) # nat_le (pred_numeral k) (n div 256)"
  by (subst numeral_eq_Suc) (rule nat_le.simps(2))

lemma length_nat_le [simp]: "length (nat_le k n) = k"
  by (induction k arbitrary: n) simp_all

lemma le_nat_bound: "le_nat bs < 256 ^ length bs"
proof (induction bs)
  case Nil
  then show ?case by simp
next
  case (Cons b bs)
  have "unat b < 256" by (rule unat_u8_less)
  moreover have "256 * le_nat bs + 256 \<le> 256 * 256 ^ length bs"
    using Cons by simp
  ultimately show ?case
    unfolding le_nat.simps length_Cons power_Suc by linarith
qed

lemma le_nat_nat_le: "n < 256 ^ k \<Longrightarrow> le_nat (nat_le k n) = n"
proof (induction k arbitrary: n)
  case 0
  then show ?case by simp
next
  case (Suc k)
  then have "n div 256 < 256 ^ k" by (simp add: less_mult_imp_div_less mult.commute)
  with Suc.IH show ?case by (simp add: unat_of_nat)
qed

lemma nat_le_le_nat: "length bs = k \<Longrightarrow> nat_le k (le_nat bs) = bs"
  by (induction bs arbitrary: k) (auto simp: unat_u8_less)

lemma length_to_le_bytes [simp, le_simps]:
  "length (to_le_bytes (w :: 'a::len word)) = LENGTH('a) div 8"
  by (simp add: to_le_bytes_def)

lemma to_le_bytes_eq_Nil [simp]:
  "to_le_bytes (w :: 'a::len word) = [] \<longleftrightarrow> LENGTH('a) < 8"
  by (auto simp flip: length_0_conv)

lemma byte_power_width: "8 dvd n \<Longrightarrow> (256::nat) ^ (n div 8) = 2 ^ n"
proof -
  assume "8 dvd n"
  then have "(2 ^ 8) ^ (n div 8) = (2::nat) ^ n"
    by (simp only: power_mult [symmetric] dvd_mult_div_cancel)
  then show ?thesis by simp
qed

lemma from_to_le_bytes:
  fixes w :: "'a::len word"
  assumes "8 dvd LENGTH('a)"
  shows "from_le_bytes (to_le_bytes w) = w"
proof -
  have "(256::nat) ^ (LENGTH('a) div 8) = 2 ^ LENGTH('a)"
    using assms by (rule byte_power_width)
  then have "unat w < 256 ^ (LENGTH('a) div 8)" by simp
  then show ?thesis
    by (simp add: from_le_bytes_def to_le_bytes_def le_nat_nat_le)
qed

lemma to_from_le_bytes:
  assumes "length bs = LENGTH('a::len) div 8" and "8 dvd LENGTH('a)"
  shows "to_le_bytes (from_le_bytes bs :: 'a word) = bs"
proof -
  have "(256::nat) ^ (LENGTH('a) div 8) = 2 ^ LENGTH('a)"
    using assms(2) by (rule byte_power_width)
  with le_nat_bound [of bs] assms have "le_nat bs < 2 ^ LENGTH('a)" by simp
  with assms show ?thesis
    by (simp add: from_le_bytes_def to_le_bytes_def unat_of_nat nat_le_le_nat)
qed

lemma from_to_le_bytes_widths [simp, le_simps]:
  "from_le_bytes (to_le_bytes (a :: u16)) = a"
  "from_le_bytes (to_le_bytes (b :: u32)) = b"
  "from_le_bytes (to_le_bytes (c :: u64)) = c"
  by (simp_all add: from_to_le_bytes)

lemma to_from_le_bytes_widths:
  "length bs = 2 \<Longrightarrow> to_le_bytes (from_le_bytes bs :: u16) = bs"
  "length bs = 4 \<Longrightarrow> to_le_bytes (from_le_bytes bs :: u32) = bs"
  "length bs = 8 \<Longrightarrow> to_le_bytes (from_le_bytes bs :: u64) = bs"
  by (simp_all add: to_from_le_bytes)

end
