(* ===== verification/Wire.thy ===== *)
theory Wire
  imports Prelude
begin

text \<open>
  The wire vocabulary of \<open>src/src/protocol.rs\<close>: the protocol constants, the connection states a
  receiver decodes under, the size bounds, the peer roles, the frame kinds, the header field
  newtypes, result codes, error classes with their failure scope, and classified failures.  The
  lemmas state that every enumeration and its wire value are in one-to-one correspondence and
  that a failure built by the crate always carries the scope of its class.
\<close>

named_theorems wire_simps \<open>wire values against their constructors\<close>

section \<open>Constants\<close>

definition HEADER_LENGTH :: usize where
  "HEADER_LENGTH = 20"

definition MAX_FRAME_SIZE :: u64 where
  "MAX_FRAME_SIZE = 65536"

definition MAX_METADATA_SIZE :: u16 where
  "MAX_METADATA_SIZE = 4096"

definition HANDSHAKE_OPCODE :: u16 where
  "HANDSHAKE_OPCODE = 0x0001"

definition PING_OPCODE :: u16 where
  "PING_OPCODE = 0x0002"

definition GET_OPCODE :: u16 where
  "GET_OPCODE = 0x0003"

definition SET_OPCODE :: u16 where
  "SET_OPCODE = 0x0004"

definition DEL_OPCODE :: u16 where
  "DEL_OPCODE = 0x0005"

definition EXISTS_OPCODE :: u16 where
  "EXISTS_OPCODE = 0x0006"

definition MINIMUM_NEGOTIATED_FRAME_SIZE :: u64 where
  "MINIMUM_NEGOTIATED_FRAME_SIZE = 65536"

definition MINIMUM_NEGOTIATED_METADATA_SIZE :: u16 where
  "MINIMUM_NEGOTIATED_METADATA_SIZE = 4096"

definition HIGHEST_HEADER_VERSION :: u16 where
  "HIGHEST_HEADER_VERSION = 255"

lemmas opcode_defs = HANDSHAKE_OPCODE_def PING_OPCODE_def GET_OPCODE_def SET_OPCODE_def
  DEL_OPCODE_def EXISTS_OPCODE_def

section \<open>Connection context\<close>

datatype protocol_state = PreNegotiation | Negotiated | Terminal

record limits =
  frame_size :: u64
  metadata_size :: u16

definition PRE_NEGOTIATION :: limits where
  "PRE_NEGOTIATION = \<lparr>frame_size = MAX_FRAME_SIZE, metadata_size = MAX_METADATA_SIZE\<rparr>"

datatype role = Client | Server

record admission =
  adm_role :: role
  adm_state :: protocol_state
  adm_limits :: limits
  adm_in_flight :: "u64 list"

definition default_admission :: admission where
  "default_admission =
     \<lparr>adm_role = Server, adm_state = Negotiated, adm_limits = PRE_NEGOTIATION,
      adm_in_flight = []\<rparr>"

section \<open>Header fields\<close>

datatype version = Version (version_value: u8)

definition version_is_valid :: "version \<Rightarrow> bool" where
  "version_is_valid v = (version_value v = 0)"

datatype flags = Flags (flags_value: u16)

definition flags_is_zero :: "flags \<Rightarrow> bool" where
  "flags_is_zero f = (flags_value f = 0)"

datatype request_id = RequestId (request_id_value: u64)

definition request_id_is_reserved :: "request_id \<Rightarrow> bool" where
  "request_id_is_reserved r = (request_id_value r = 0)"

definition opcode_is_assigned :: "u16 \<Rightarrow> bool" where
  "opcode_is_assigned v \<longleftrightarrow>
     v = HANDSHAKE_OPCODE \<or> v = PING_OPCODE \<or> v = GET_OPCODE \<or> v = SET_OPCODE \<or>
     v = DEL_OPCODE \<or> v = EXISTS_OPCODE"

section \<open>Failure scope\<close>

datatype failure_scope = RequestScoped | ConnectionFatal

primrec failure_scope_name :: "failure_scope \<Rightarrow> string" where
  "failure_scope_name RequestScoped = ''request-scoped''"
| "failure_scope_name ConnectionFatal = ''connection-fatal''"

section \<open>Frame kinds\<close>

datatype kind = Kind_Request | Kind_Response | Kind_Error

primrec kind_value :: "kind \<Rightarrow> u8" where
  "kind_value Kind_Request = 1"
| "kind_value Kind_Response = 2"
| "kind_value Kind_Error = 3"

primrec kind_sender :: "kind \<Rightarrow> role" where
  "kind_sender Kind_Request = Client"
| "kind_sender Kind_Response = Server"
| "kind_sender Kind_Error = Server"

definition kind_from_wire :: "u8 \<Rightarrow> kind option" where
  "kind_from_wire v =
     (if v = 1 then Some Kind_Request
      else if v = 2 then Some Kind_Response
      else if v = 3 then Some Kind_Error
      else None)"

primrec names_a_request_for_scope :: "kind \<Rightarrow> failure_scope \<Rightarrow> bool" where
  "names_a_request_for_scope Kind_Request s = True"
| "names_a_request_for_scope Kind_Response s = True"
| "names_a_request_for_scope Kind_Error s = (s = RequestScoped)"

section \<open>Result codes\<close>

datatype result_code = Success | Absent | ValueHeldOutsideMemory

primrec result_code_value :: "result_code \<Rightarrow> u16" where
  "result_code_value Success = 0x0000"
| "result_code_value Absent = 0x0001"
| "result_code_value ValueHeldOutsideMemory = 0x0004"

definition result_code_from_wire :: "u16 \<Rightarrow> result_code option" where
  "result_code_from_wire v =
     (if v = 0x0000 then Some Success
      else if v = 0x0001 then Some Absent
      else if v = 0x0004 then Some ValueHeldOutsideMemory
      else None)"

section \<open>Error classes\<close>

datatype error_class =
    MalformedRequest
  | UnsupportedProtocolVersion
  | UnsupportedOperation
  | InvalidArgument
  | ResourceLimit
  | Overloaded
  | InternalError
  | ProtocolViolation
  | WrongType

primrec error_class_value :: "error_class \<Rightarrow> u16" where
  "error_class_value MalformedRequest = 0x0001"
| "error_class_value UnsupportedProtocolVersion = 0x0002"
| "error_class_value UnsupportedOperation = 0x0003"
| "error_class_value InvalidArgument = 0x0004"
| "error_class_value ResourceLimit = 0x0005"
| "error_class_value Overloaded = 0x0008"
| "error_class_value InternalError = 0x000B"
| "error_class_value ProtocolViolation = 0x000C"
| "error_class_value WrongType = 0x000E"

primrec error_class_scope :: "error_class \<Rightarrow> failure_scope" where
  "error_class_scope MalformedRequest = ConnectionFatal"
| "error_class_scope UnsupportedProtocolVersion = ConnectionFatal"
| "error_class_scope ResourceLimit = ConnectionFatal"
| "error_class_scope ProtocolViolation = ConnectionFatal"
| "error_class_scope UnsupportedOperation = RequestScoped"
| "error_class_scope InvalidArgument = RequestScoped"
| "error_class_scope Overloaded = RequestScoped"
| "error_class_scope InternalError = RequestScoped"
| "error_class_scope WrongType = RequestScoped"

primrec error_class_name :: "error_class \<Rightarrow> string" where
  "error_class_name MalformedRequest = ''malformed request''"
| "error_class_name UnsupportedProtocolVersion = ''unsupported protocol version''"
| "error_class_name UnsupportedOperation = ''unsupported operation''"
| "error_class_name InvalidArgument = ''invalid argument''"
| "error_class_name ResourceLimit = ''resource limit''"
| "error_class_name Overloaded = ''overloaded''"
| "error_class_name InternalError = ''internal error''"
| "error_class_name ProtocolViolation = ''protocol violation''"
| "error_class_name WrongType = ''wrong type''"

definition error_class_from_wire :: "u16 \<Rightarrow> error_class option" where
  "error_class_from_wire v =
     (if v = 0x0001 then Some MalformedRequest
      else if v = 0x0002 then Some UnsupportedProtocolVersion
      else if v = 0x0003 then Some UnsupportedOperation
      else if v = 0x0004 then Some InvalidArgument
      else if v = 0x0005 then Some ResourceLimit
      else if v = 0x0008 then Some Overloaded
      else if v = 0x000B then Some InternalError
      else if v = 0x000C then Some ProtocolViolation
      else if v = 0x000E then Some WrongType
      else None)"

section \<open>Classified failures\<close>

record failure =
  failure_class :: error_class
  failure_scope :: failure_scope

definition failure_new :: "error_class \<Rightarrow> failure_scope \<Rightarrow> failure" where
  "failure_new c s = \<lparr>failure_class = c, failure_scope = s\<rparr>"

definition malformed_request :: failure where
  "malformed_request = failure_new MalformedRequest ConnectionFatal"

definition unsupported_protocol_version :: failure where
  "unsupported_protocol_version = failure_new UnsupportedProtocolVersion ConnectionFatal"

definition unsupported_operation :: failure where
  "unsupported_operation = failure_new UnsupportedOperation RequestScoped"

definition invalid_argument :: failure where
  "invalid_argument = failure_new InvalidArgument RequestScoped"

definition resource_limit :: failure where
  "resource_limit = failure_new ResourceLimit ConnectionFatal"

definition protocol_violation :: failure where
  "protocol_violation = failure_new ProtocolViolation ConnectionFatal"

lemmas failure_defs = failure_new_def malformed_request_def unsupported_protocol_version_def
  unsupported_operation_def invalid_argument_def resource_limit_def protocol_violation_def

section \<open>Wire values identify their constructor\<close>

lemma kind_from_wire_iff [wire_simps]: "kind_from_wire v = Some k \<longleftrightarrow> v = kind_value k"
  by (cases k) (auto simp: kind_from_wire_def)

lemma result_code_from_wire_iff [wire_simps]:
  "result_code_from_wire v = Some r \<longleftrightarrow> v = result_code_value r"
  by (cases r) (auto simp: result_code_from_wire_def)

lemma error_class_from_wire_iff [wire_simps]:
  "error_class_from_wire v = Some c \<longleftrightarrow> v = error_class_value c"
  by (cases c) (auto simp: error_class_from_wire_def)

lemma kind_from_wire_value [simp]: "kind_from_wire (kind_value k) = Some k"
  by (simp add: wire_simps)

lemma result_code_from_wire_value [simp]:
  "result_code_from_wire (result_code_value r) = Some r"
  by (simp add: wire_simps)

lemma error_class_from_wire_value [simp]:
  "error_class_from_wire (error_class_value c) = Some c"
  by (simp add: wire_simps)

lemma kind_sender_cases: "kind_sender k = Client \<longleftrightarrow> k = Kind_Request"
  by (cases k) simp_all

lemma kind_sender_eq_Server: "kind_sender k = Server \<longleftrightarrow> k \<noteq> Kind_Request"
  by (cases k) simp_all

section \<open>Failures carry the scope of their class\<close>

text \<open>A failure is coherent when its scope is the one its class carries.\<close>

definition coherent :: "failure \<Rightarrow> bool" where
  "coherent f \<longleftrightarrow> failure_scope f = error_class_scope (failure_class f)"

lemma coherent_failures [simp]:
  "coherent malformed_request"
  "coherent unsupported_protocol_version"
  "coherent unsupported_operation"
  "coherent invalid_argument"
  "coherent resource_limit"
  "coherent protocol_violation"
  by (simp_all add: coherent_def failure_defs)

lemma failure_scope_simps [simp]:
  "failure_scope malformed_request = ConnectionFatal"
  "failure_scope unsupported_protocol_version = ConnectionFatal"
  "failure_scope unsupported_operation = RequestScoped"
  "failure_scope invalid_argument = RequestScoped"
  "failure_scope resource_limit = ConnectionFatal"
  "failure_scope protocol_violation = ConnectionFatal"
  by (simp_all add: failure_defs)

lemma failure_class_simps [simp]:
  "failure_class malformed_request = MalformedRequest"
  "failure_class unsupported_protocol_version = UnsupportedProtocolVersion"
  "failure_class unsupported_operation = UnsupportedOperation"
  "failure_class invalid_argument = InvalidArgument"
  "failure_class resource_limit = ResourceLimit"
  "failure_class protocol_violation = ProtocolViolation"
  by (simp_all add: failure_defs)

lemma failure_distinct [simp]:
  "malformed_request \<noteq> invalid_argument" "invalid_argument \<noteq> malformed_request"
  "protocol_violation \<noteq> invalid_argument" "invalid_argument \<noteq> protocol_violation"
  "malformed_request \<noteq> protocol_violation" "protocol_violation \<noteq> malformed_request"
  by (simp_all add: failure_defs)

end
