(* ===== verification/Regions.thy ===== *)
theory Regions
  imports Wire
begin

unbundle bit_operations_syntax

text \<open>
  The little-endian field readers and the two regions of length-prefixed entries of
  \<open>src/src/protocol.rs\<close>: the metadata region of a frame and the capability entries of a handshake
  payload.  Both parsers walk the region with the same loop over different entry types, so their
  laws are proved once in the locale \<open>entry_region\<close> and obtained for each parser by
  interpretation: parsing inverts the wire layout in both directions, and the region is accepted
  only when its entries fill it exactly.
\<close>

section \<open>Field readers\<close>

definition read_u16_le :: "bytes \<Rightarrow> usize \<Rightarrow> u16 option" where
  "read_u16_le bs offset =
     do { e \<leftarrow> checked_add_usize offset 2;
          slice \<leftarrow> get_range bs offset e;
          array \<leftarrow> (if length slice = 2 then Some slice else None);
          Some (from_le_bytes array) }"

definition read_u32_le :: "bytes \<Rightarrow> usize \<Rightarrow> u32 option" where
  "read_u32_le bs offset =
     do { e \<leftarrow> checked_add_usize offset 4;
          slice \<leftarrow> get_range bs offset e;
          array \<leftarrow> (if length slice = 4 then Some slice else None);
          Some (from_le_bytes array) }"

definition read_u64_le :: "bytes \<Rightarrow> usize \<Rightarrow> u64 option" where
  "read_u64_le bs offset =
     do { e \<leftarrow> checked_add_usize offset 8;
          slice \<leftarrow> get_range bs offset e;
          array \<leftarrow> (if length slice = 8 then Some slice else None);
          Some (from_le_bytes array) }"

section \<open>Metadata entries\<close>

record metadata_entry =
  md_identifier :: u16
  md_value :: bytes

definition metadata_entry_new :: "u16 \<Rightarrow> bytes \<Rightarrow> metadata_entry" where
  "metadata_entry_new i v = \<lparr>md_identifier = i, md_value = v\<rparr>"

definition is_required :: "metadata_entry \<Rightarrow> bool" where
  "is_required e \<longleftrightarrow> md_identifier e AND 0x8000 \<noteq> 0"

function metadata_parse_loop ::
  "metadata_entry list \<Rightarrow> bytes \<Rightarrow> metadata_entry list option" where
  "metadata_parse_loop entries rest =
     (if rest = [] then Some entries
      else do { identifier \<leftarrow> read_u16_le rest 0;
                value_length \<leftarrow> read_u16_le rest 2;
                entry_length \<leftarrow> checked_add_usize 4 (unat value_length);
                if length rest < entry_length then None
                else do { v \<leftarrow> get_range rest 4 entry_length;
                          rest' \<leftarrow> get_from rest entry_length;
                          metadata_parse_loop (entries @ [metadata_entry_new identifier v]) rest' } })"
  by pat_completeness auto
termination
  by (relation "measure (\<lambda>(entries, rest). length rest)") (auto simp: checked_simps slice_simps)

definition metadata_parse :: "bytes \<Rightarrow> metadata_entry list option" where
  "metadata_parse region = metadata_parse_loop [] region"

section \<open>Capability entries\<close>

record capability_entry =
  cap_identifier :: u16
  cap_value :: bytes

definition capability_entry_new :: "u16 \<Rightarrow> bytes \<Rightarrow> capability_entry" where
  "capability_entry_new i v = \<lparr>cap_identifier = i, cap_value = v\<rparr>"

function capability_parse_loop ::
  "capability_entry list \<Rightarrow> bytes \<Rightarrow> capability_entry list option" where
  "capability_parse_loop entries rest =
     (if rest = [] then Some entries
      else do { identifier \<leftarrow> read_u16_le rest 0;
                value_length \<leftarrow> read_u16_le rest 2;
                entry_length \<leftarrow> checked_add_usize 4 (unat value_length);
                if length rest < entry_length then None
                else do { v \<leftarrow> get_range rest 4 entry_length;
                          rest' \<leftarrow> get_from rest entry_length;
                          capability_parse_loop (entries @ [capability_entry_new identifier v]) rest' } })"
  by pat_completeness auto
termination
  by (relation "measure (\<lambda>(entries, rest). length rest)") (auto simp: checked_simps slice_simps)

definition capability_parse :: "bytes \<Rightarrow> capability_entry list option" where
  "capability_parse region = capability_parse_loop [] region"

definition capability_count :: "capability_entry list \<Rightarrow> usize" where
  "capability_count entries = length entries"

fun check_ascending_loop :: "u16 option \<Rightarrow> capability_entry list \<Rightarrow> failure + unit" where
  "check_ascending_loop previous [] = Inr ()"
| "check_ascending_loop previous (entry # entries) =
     (case previous of
        Some p \<Rightarrow>
          if cap_identifier entry \<le> p then Inl malformed_request
          else check_ascending_loop (Some (cap_identifier entry)) entries
      | None \<Rightarrow> check_ascending_loop (Some (cap_identifier entry)) entries)"

definition check_ascending :: "capability_entry list \<Rightarrow> failure + unit" where
  "check_ascending entries = check_ascending_loop None entries"

fun check_metadata_order_loop :: "u16 option \<Rightarrow> metadata_entry list \<Rightarrow> failure + unit" where
  "check_metadata_order_loop previous [] = Inr ()"
| "check_metadata_order_loop previous (entry # entries) =
     (if (case previous of Some p \<Rightarrow> md_identifier entry \<le> p | None \<Rightarrow> False)
      then Inl invalid_argument
      else if is_required entry then Inl invalid_argument
      else check_metadata_order_loop (Some (md_identifier entry)) entries)"

definition check_metadata_order :: "metadata_entry list \<Rightarrow> failure + unit" where
  "check_metadata_order entries = check_metadata_order_loop None entries"

declare metadata_parse_loop.simps [simp del] capability_parse_loop.simps [simp del]

section \<open>Laws of the readers\<close>

lemma read_u16_le_Some [slice_simps]:
  "read_u16_le bs off = Some w \<longleftrightarrow>
     off + 2 \<le> length bs \<and> off + 2 < 18446744073709551616 \<and>
     w = from_le_bytes (take 2 (drop off bs))"
  by (auto simp: read_u16_le_def bind_eq_Some_conv checked_simps slice_simps)

lemma read_u32_le_Some [slice_simps]:
  "read_u32_le bs off = Some w \<longleftrightarrow>
     off + 4 \<le> length bs \<and> off + 4 < 18446744073709551616 \<and>
     w = from_le_bytes (take 4 (drop off bs))"
  by (auto simp: read_u32_le_def bind_eq_Some_conv checked_simps slice_simps)

lemma read_u64_le_Some [slice_simps]:
  "read_u64_le bs off = Some w \<longleftrightarrow>
     off + 8 \<le> length bs \<and> off + 8 < 18446744073709551616 \<and>
     w = from_le_bytes (take 8 (drop off bs))"
  by (auto simp: read_u64_le_def bind_eq_Some_conv checked_simps slice_simps)

lemma read_le_None [slice_simps]:
  "read_u16_le bs off = None \<longleftrightarrow> length bs < off + 2 \<or> 18446744073709551616 \<le> off + 2"
  "read_u32_le bs off = None \<longleftrightarrow> length bs < off + 4 \<or> 18446744073709551616 \<le> off + 4"
  "read_u64_le bs off = None \<longleftrightarrow> length bs < off + 8 \<or> 18446744073709551616 \<le> off + 8"
  by (auto simp: read_u16_le_def read_u32_le_def read_u64_le_def checked_add_usize_def
      get_range_def)

section \<open>The wire layout of an entry\<close>

text \<open>The layout both regions share: the identifier, the value length, the value bytes.\<close>

definition entry_bytes :: "u16 \<Rightarrow> bytes \<Rightarrow> bytes" where
  "entry_bytes i v = to_le_bytes i @ to_le_bytes (of_nat (length v) :: u16) @ v"

lemma length_entry_bytes [simp]: "length (entry_bytes i v) = 4 + length v"
  by (simp add: entry_bytes_def)

lemma entry_bytes_not_Nil [simp]: "entry_bytes i v \<noteq> []"
  by (metis add_eq_0_iff_both_eq_0 length_entry_bytes list.size(3) zero_neq_numeral)

text \<open>
  The interface of a region parser: an entry is its identifier and value, the empty region has
  no entries, and a non-empty region is one entry followed by a region.
\<close>

locale entry_region =
  fixes mk :: "u16 \<Rightarrow> bytes \<Rightarrow> 'e"
    and ident :: "'e \<Rightarrow> u16"
    and val :: "'e \<Rightarrow> bytes"
    and loop :: "'e list \<Rightarrow> bytes \<Rightarrow> 'e list option"
  assumes ident_mk [simp]: "ident (mk i v) = i"
    and val_mk [simp]: "val (mk i v) = v"
    and mk_eta [simp]: "mk (ident e) (val e) = e"
    and loop_unfold: "loop entries rest =
      (if rest = [] then Some entries
       else do { identifier \<leftarrow> read_u16_le rest 0;
                 value_length \<leftarrow> read_u16_le rest 2;
                 entry_length \<leftarrow> checked_add_usize 4 (unat value_length);
                 if length rest < entry_length then None
                 else do { v \<leftarrow> get_range rest 4 entry_length;
                           rest' \<leftarrow> get_from rest entry_length;
                           loop (entries @ [mk identifier v]) rest' } })"
begin

definition region :: "'e list \<Rightarrow> bytes" where
  "region es = concat (map (\<lambda>e. entry_bytes (ident e) (val e)) es)"

definition fits :: "'e list \<Rightarrow> bool" where
  "fits es \<longleftrightarrow> (\<forall>e \<in> set es. length (val e) < 65536)"

lemma region_simps [simp]:
  "region [] = []"
  "region (e # es) = entry_bytes (ident e) (val e) @ region es"
  by (simp_all add: region_def)

lemma fits_simps [simp]:
  "fits []"
  "fits (e # es) \<longleftrightarrow> length (val e) < 65536 \<and> fits es"
  by (auto simp: fits_def)

lemma loop_entry:
  assumes "length v < 65536"
  shows "loop entries (entry_bytes i v @ rest) = loop (entries @ [mk i v]) rest"
proof -
  have "unat (of_nat (length v) :: u16) = length v"
    using assms by (simp add: unat_of_nat)
  with assms show ?thesis
    by (subst loop_unfold) (simp add: entry_bytes_def read_u16_le_def checked_add_usize_def
        get_range_def get_from_def)
qed

lemma loop_region: "fits es \<Longrightarrow> loop entries (region es) = Some (entries @ es)"
  by (induction es arbitrary: entries) (simp_all add: loop_entry, simp add: loop_unfold)

lemma loop_cases:
  assumes "loop entries rest = Some es" and "rest \<noteq> []"
  obtains i v rest' where "rest = entry_bytes i v @ rest'" and "length v < 65536"
    and "loop (entries @ [mk i v]) rest' = Some es"
proof -
  define n where "n = unat (from_le_bytes (take 2 (drop 2 rest)) :: u16)"
  define v where "v = take n (drop 4 rest)"
  have long: "4 + n \<le> length rest"
    and rec: "loop (entries @ [mk (from_le_bytes (take 2 rest)) v]) (drop (4 + n) rest) = Some es"
    using assms by (subst (asm) loop_unfold,
        auto simp: bind_eq_Some_conv n_def v_def checked_simps slice_simps split: if_splits)+
  have lv: "length v = n" using long by (simp add: v_def)
  have n: "n < 65536" by (simp add: n_def unat_u16_less)
  have "of_nat n = (from_le_bytes (take 2 (drop 2 rest)) :: u16)"
    by (simp add: n_def)
  moreover have "take 2 rest @ take 2 (drop 2 rest) @ v @ drop (4 + n) rest = rest"
    by (simp add: v_def append_take_drop_id flip: take_add drop_drop append_assoc)
       (metis append_take_drop_id drop_drop add.commute numeral_Bit0 one_add_one)
  ultimately have "rest = entry_bytes (from_le_bytes (take 2 rest)) v @ drop (4 + n) rest"
    using long lv by (simp add: entry_bytes_def to_from_le_bytes_widths)
  with lv n rec show ?thesis using that by metis
qed

lemma loop_sound: "loop entries rest = Some es \<Longrightarrow> \<exists>new. es = entries @ new \<and> rest = region new \<and> fits new"
proof (induction "length rest" arbitrary: rest entries rule: less_induct)
  case less
  show ?case
  proof (cases "rest = []")
    case True
    with less.prems show ?thesis by (auto simp: loop_unfold intro: exI [of _ "[]"])
  next
    case False
    with less.prems obtain i v rest' where r: "rest = entry_bytes i v @ rest'"
      and v: "length v < 65536" and l: "loop (entries @ [mk i v]) rest' = Some es"
      by (rule loop_cases)
    from r have "length rest' < length rest" by simp
    from less.hyps [OF this l] obtain new where "es = (entries @ [mk i v]) @ new"
      and "rest' = region new" and "fits new" by blast
    with r v show ?thesis by (intro exI [of _ "mk i v # new"]) simp
  qed
qed

text \<open>A region parses to exactly the entries it lays out.\<close>

lemma parse_iff: "loop [] r = Some es \<longleftrightarrow> fits es \<and> r = region es"
  using loop_sound [of "[]" r es] loop_region [of es "[]"] by auto

end

interpretation metadata: entry_region metadata_entry_new md_identifier md_value metadata_parse_loop
  by unfold_locales (simp_all add: metadata_entry_new_def metadata_parse_loop.simps)

interpretation capability: entry_region capability_entry_new cap_identifier cap_value capability_parse_loop
  by unfold_locales (simp_all add: capability_entry_new_def capability_parse_loop.simps)


section \<open>Laws of the order checks\<close>

lemma check_ascending_loop_ok:
  "check_ascending_loop previous es = Inr () \<longleftrightarrow>
     sorted_wrt (<) (map cap_identifier es) \<and>
     (case previous of None \<Rightarrow> True | Some p \<Rightarrow> \<forall>e \<in> set es. p < cap_identifier e)"
  by (induction previous es rule: check_ascending_loop.induct) (force split: option.splits)+

lemma check_ascending_loop_error:
  "check_ascending_loop previous es = Inl f \<Longrightarrow> f = malformed_request"
  by (induction previous es rule: check_ascending_loop.induct)
     (auto split: option.splits if_splits)

lemma check_ascending_ok [simp]:
  "check_ascending es = Inr u \<longleftrightarrow> sorted_wrt (<) (map cap_identifier es)"
  by (simp add: check_ascending_def check_ascending_loop_ok)

lemma check_ascending_error:
  "check_ascending es = Inl f \<longleftrightarrow>
     \<not> sorted_wrt (<) (map cap_identifier es) \<and> f = malformed_request"
  using check_ascending_ok [of es "()"]
  by (cases "check_ascending es")
     (auto simp: check_ascending_def dest: check_ascending_loop_error)

lemma check_metadata_order_loop_ok:
  "check_metadata_order_loop previous es = Inr () \<longleftrightarrow>
     sorted_wrt (<) (map md_identifier es) \<and> (\<forall>e \<in> set es. \<not> is_required e) \<and>
     (case previous of None \<Rightarrow> True | Some p \<Rightarrow> \<forall>e \<in> set es. p < md_identifier e)"
  by (induction previous es rule: check_metadata_order_loop.induct) (force split: option.splits)+

lemma check_metadata_order_loop_error:
  "check_metadata_order_loop previous es = Inl f \<Longrightarrow> f = invalid_argument"
  by (induction previous es rule: check_metadata_order_loop.induct)
     (auto split: option.splits if_splits)

definition metadata_ordered :: "metadata_entry list \<Rightarrow> bool" where
  "metadata_ordered es \<longleftrightarrow>
     sorted_wrt (<) (map md_identifier es) \<and> list_all (\<lambda>e. \<not> is_required e) es"

lemma check_metadata_order_ok [simp]:
  "check_metadata_order es = Inr u \<longleftrightarrow> metadata_ordered es"
  by (simp add: check_metadata_order_def check_metadata_order_loop_ok metadata_ordered_def
      list_all_iff)

lemma check_metadata_order_error:
  "check_metadata_order es = Inl f \<longleftrightarrow> \<not> metadata_ordered es \<and> f = invalid_argument"
  using check_metadata_order_ok [of es "()"]
  by (cases "check_metadata_order es")
     (auto simp: check_metadata_order_def dest: check_metadata_order_loop_error)

text \<open>The required range is the upper half of the identifiers.\<close>

lemma and_high_bit: "(w AND 0x8000 \<noteq> 0) \<longleftrightarrow> 0x8000 \<le> (w :: u16)"
proof -
  have top: "n = 15" if "n < 16" and "15 \<le> n" for n :: nat using that by simp
  have "w AND 0x8000 = w AND push_bit 15 1" by simp
  also have "\<dots> \<noteq> 0 \<longleftrightarrow> bit w 15"
    by (simp add: bit_eq_iff bit_simps push_bit_of_1 del: push_bit_of_1)
       (auto dest: top intro: exI [of _ 15])
  also have "\<dots> \<longleftrightarrow> bit (unat w) 15"
    by (simp add: bit_unsigned_iff)
  also have "\<dots> \<longleftrightarrow> odd (unat w div 2 ^ 15)"
    by (rule bit_iff_odd)
  also have "unat w div 2 ^ 15 = (if 32768 \<le> unat w then 1 else 0)"
    using unat_u16_less [of w] by (auto simp: le_div_geq div_less)
  also have "odd (if 32768 \<le> unat w then 1 else 0 :: nat) \<longleftrightarrow> 32768 \<le> unat w"
    by simp
  finally show ?thesis by (simp add: word_le_nat_alt)
qed

end
