(* ===== verification/Handshake.thy ===== *)
theory Handshake
  imports Regions
begin

text \<open>
  The handshake payloads of \<open>src/src/protocol.rs\<close>: the offer, the request and the response with
  their constructors, decoders and encoders, the version intersection, and the bounds a response
  puts in force.  Each decoder is characterised exactly: it accepts a payload if and only if the
  payload is the encoding of a well-formed value, and then returns that value.
\<close>

section \<open>Offers\<close>

record handshake_offer =
  minimum_protocol_version :: u16
  maximum_protocol_version :: u16
  capability_ids :: "u16 list"

definition contains_version :: "handshake_offer \<Rightarrow> u16 \<Rightarrow> bool" where
  "contains_version offer v \<longleftrightarrow>
     minimum_protocol_version offer \<le> v \<and> v \<le> maximum_protocol_version offer"

definition offers_capability :: "handshake_offer \<Rightarrow> u16 \<Rightarrow> bool" where
  "offers_capability offer i = List.member (capability_ids offer) i"

section \<open>Entries on the wire\<close>

definition saturating_u16 :: "usize \<Rightarrow> u16" where
  "saturating_u16 n = (case u16_try_from n of Some w \<Rightarrow> w | None \<Rightarrow> u16_max)"

primrec encode_capability_entries :: "capability_entry list \<Rightarrow> bytes" where
  "encode_capability_entries [] = []"
| "encode_capability_entries (e # es) =
     to_le_bytes (cap_identifier e) @ to_le_bytes (saturating_u16 (length (cap_value e))) @
     cap_value e @ encode_capability_entries es"

section \<open>The request\<close>

definition HEAD_LENGTH :: usize where
  "HEAD_LENGTH = 10"

record handshake_request =
  client_maximum_protocol_version :: u16
  client_minimum_protocol_version :: u16
  client_desired_maximum_frame_size :: u32
  request_capability_count :: u16
  request_capability_entries :: "capability_entry list"

definition handshake_request_new ::
  "u16 \<Rightarrow> u16 \<Rightarrow> u32 \<Rightarrow> capability_entry list \<Rightarrow> handshake_request" where
  "handshake_request_new maximum minimum desired entries =
     \<lparr>client_maximum_protocol_version = maximum,
      client_minimum_protocol_version = minimum,
      client_desired_maximum_frame_size = desired,
      request_capability_count = saturating_u16 (capability_count entries),
      request_capability_entries = entries\<rparr>"

definition handshake_request_decode :: "bytes \<Rightarrow> failure + handshake_request" where
  "handshake_request_decode payload =
     (if length payload < HEAD_LENGTH then Inl malformed_request
      else and_then (ok_or malformed_request (read_u16_le payload 0)) (\<lambda>maximum.
           and_then (ok_or malformed_request (read_u16_le payload 2)) (\<lambda>minimum.
           and_then (ok_or malformed_request (read_u32_le payload 4)) (\<lambda>desired.
           and_then (ok_or malformed_request (read_u16_le payload 8)) (\<lambda>count.
           if maximum < minimum then Inl malformed_request
           else and_then (ok_or malformed_request (get_from payload HEAD_LENGTH)) (\<lambda>tail.
           and_then (ok_or malformed_request (capability_parse tail)) (\<lambda>entries.
           and_then (check_ascending entries) (\<lambda>_.
           if unat count \<noteq> capability_count entries then Inl malformed_request
           else Inr \<lparr>client_maximum_protocol_version = maximum,
                     client_minimum_protocol_version = minimum,
                     client_desired_maximum_frame_size = desired,
                     request_capability_count = count,
                     request_capability_entries = entries\<rparr>))))))))"

definition handshake_request_encode :: "handshake_request \<Rightarrow> bytes" where
  "handshake_request_encode r =
     to_le_bytes (client_maximum_protocol_version r) @
     to_le_bytes (client_minimum_protocol_version r) @
     to_le_bytes (client_desired_maximum_frame_size r) @
     to_le_bytes (saturating_u16 (capability_count (request_capability_entries r))) @
     encode_capability_entries (request_capability_entries r)"

definition highest_mutual_version :: "handshake_request \<Rightarrow> u16 list \<Rightarrow> u16 option" where
  "highest_mutual_version r supported =
     (case filter (\<lambda>v. client_minimum_protocol_version r \<le> v \<and>
                        v \<le> client_maximum_protocol_version r) supported of
        [] \<Rightarrow> None
      | v # vs \<Rightarrow> Some (fold max vs v))"

section \<open>The response\<close>

record handshake_response =
  negotiated_protocol_version :: u16
  negotiated_maximum_frame_size :: u32
  negotiated_maximum_metadata_size :: u16
  accepted_capability_count :: u16
  accepted_capability_entries :: "capability_entry list"

fun check_offered :: "handshake_offer \<Rightarrow> capability_entry list \<Rightarrow> failure + unit" where
  "check_offered offer [] = Inr ()"
| "check_offered offer (e # es) =
     (if \<not> offers_capability offer (cap_identifier e) then Inl protocol_violation
      else check_offered offer es)"

definition handshake_response_decode ::
  "bytes \<Rightarrow> handshake_offer \<Rightarrow> failure + handshake_response" where
  "handshake_response_decode payload offer =
     (if length payload < HEAD_LENGTH then Inl malformed_request
      else and_then (ok_or malformed_request (read_u16_le payload 0)) (\<lambda>version.
           and_then (ok_or malformed_request (read_u32_le payload 2)) (\<lambda>frame_size.
           and_then (ok_or malformed_request (read_u16_le payload 6)) (\<lambda>metadata_size.
           and_then (ok_or malformed_request (read_u16_le payload 8)) (\<lambda>count.
           and_then (ok_or malformed_request (get_from payload HEAD_LENGTH)) (\<lambda>tail.
           and_then (ok_or malformed_request (capability_parse tail)) (\<lambda>entries.
           and_then (check_ascending entries) (\<lambda>_.
           if unat count \<noteq> capability_count entries then Inl malformed_request
           else if HIGHEST_HEADER_VERSION < version then Inl malformed_request
           else if \<not> contains_version offer version then Inl malformed_request
           else if (ucast frame_size :: u64) < MINIMUM_NEGOTIATED_FRAME_SIZE then Inl malformed_request
           else if metadata_size < MINIMUM_NEGOTIATED_METADATA_SIZE then Inl malformed_request
           else and_then (check_offered offer entries) (\<lambda>_.
           Inr \<lparr>negotiated_protocol_version = version,
                negotiated_maximum_frame_size = frame_size,
                negotiated_maximum_metadata_size = metadata_size,
                accepted_capability_count = count,
                accepted_capability_entries = entries\<rparr>)))))))))"

definition handshake_response_encode :: "handshake_response \<Rightarrow> bytes" where
  "handshake_response_encode r =
     to_le_bytes (negotiated_protocol_version r) @
     to_le_bytes (negotiated_maximum_frame_size r) @
     to_le_bytes (negotiated_maximum_metadata_size r) @
     to_le_bytes (saturating_u16 (capability_count (accepted_capability_entries r))) @
     encode_capability_entries (accepted_capability_entries r)"

definition handshake_response_limits :: "handshake_response \<Rightarrow> limits" where
  "handshake_response_limits r =
     \<lparr>frame_size = ucast (negotiated_maximum_frame_size r),
      metadata_size = negotiated_maximum_metadata_size r\<rparr>"

section \<open>Well-formed payloads\<close>

definition entries_ok :: "u16 \<Rightarrow> capability_entry list \<Rightarrow> bool" where
  "entries_ok count es \<longleftrightarrow>
     length es = unat count \<and> sorted_wrt (<) (map cap_identifier es) \<and>
     list_all (\<lambda>e. length (cap_value e) < 65536) es"

definition request_ok :: "handshake_request \<Rightarrow> bool" where
  "request_ok r \<longleftrightarrow>
     client_minimum_protocol_version r \<le> client_maximum_protocol_version r \<and>
     entries_ok (request_capability_count r) (request_capability_entries r)"

definition response_ok :: "handshake_offer \<Rightarrow> handshake_response \<Rightarrow> bool" where
  "response_ok offer r \<longleftrightarrow>
     entries_ok (accepted_capability_count r) (accepted_capability_entries r) \<and>
     negotiated_protocol_version r \<le> 255 \<and>
     contains_version offer (negotiated_protocol_version r) \<and>
     65536 \<le> negotiated_maximum_frame_size r \<and>
     4096 \<le> negotiated_maximum_metadata_size r \<and>
     list_all (\<lambda>e. cap_identifier e \<in> set (capability_ids offer)) (accepted_capability_entries r)"

section \<open>Laws\<close>

lemma saturating_u16_fits [simp]: "n < 65536 \<Longrightarrow> saturating_u16 n = of_nat n"
  by (simp add: saturating_u16_def u16_try_from_def)

lemma saturating_u16_unat [simp]: "saturating_u16 (unat w) = w"
  by (simp add: unat_u16_less)

lemma encode_capability_entries_region:
  "list_all (\<lambda>e. length (cap_value e) < 65536) es \<Longrightarrow>
   encode_capability_entries es = capability.region es"
  by (induction es) (simp_all add: entry_bytes_def)

lemma capability_parse_iff:
  "capability_parse r = Some es \<longleftrightarrow>
     list_all (\<lambda>e. length (cap_value e) < 65536) es \<and> r = encode_capability_entries es"
  by (auto simp: capability_parse_def capability.parse_iff capability.fits_def list_all_iff
      encode_capability_entries_region)

lemma check_offered_ok [simp]:
  "check_offered offer es = Inr u \<longleftrightarrow>
     list_all (\<lambda>e. cap_identifier e \<in> set (capability_ids offer)) es"
  by (induction es) (auto simp: offers_capability_def)

lemma check_offered_error:
  "check_offered offer es = Inl f \<Longrightarrow> f = protocol_violation"
  by (induction es) (auto split: if_splits)

lemma ten_byte_head:
  assumes "10 \<le> length p"
  shows "take 2 p @ take 2 (drop 2 p) @ take 4 (drop 4 p) @ take 2 (drop 8 p) @ drop 10 p = p"
    and "take 2 p @ take 4 (drop 2 p) @ take 2 (drop 6 p) @ take 2 (drop 8 p) @ drop 10 p = p"
proof -
  have s: "take n (drop m p) @ drop (m + n) p = drop m p" for m n
    by (metis add.commute append_take_drop_id drop_drop)
  show "take 2 p @ take 2 (drop 2 p) @ take 4 (drop 4 p) @ take 2 (drop 8 p) @ drop 10 p = p"
    using s [of 2 8] s [of 4 4] s [of 2 2] s [of 2 0] by simp
  show "take 2 p @ take 4 (drop 2 p) @ take 2 (drop 6 p) @ take 2 (drop 8 p) @ drop 10 p = p"
    using s [of 2 8] s [of 2 6] s [of 4 2] s [of 2 0] by simp
qed

lemma request_decode_encode:
  assumes "request_ok r"
  shows "handshake_request_decode (handshake_request_encode r) = Inr r"
proof -
  let ?es = "request_capability_entries r"
  have n: "length ?es = unat (request_capability_count r)" and
    s: "sorted_wrt (<) (map cap_identifier ?es)" and
    f: "list_all (\<lambda>e. length (cap_value e) < 65536) ?es" and
    v: "client_minimum_protocol_version r \<le> client_maximum_protocol_version r"
    using assms by (auto simp: request_ok_def entries_ok_def)
  have c: "saturating_u16 (capability_count ?es) = request_capability_count r"
    using n by (simp add: capability_count_def)
  have p: "capability_parse (encode_capability_entries ?es) = Some ?es"
    using f by (simp add: capability_parse_iff)
  have a: "check_ascending ?es = Inr ()" using s by simp
  show ?thesis
    using v n by (simp add: handshake_request_decode_def handshake_request_encode_def HEAD_LENGTH_def
        read_u16_le_def read_u32_le_def checked_add_usize_def get_range_def get_from_def c p a
        capability_count_def not_less)
qed

lemma request_decode_sound:
  assumes "handshake_request_decode p = Inr r"
  shows "request_ok r" and "p = handshake_request_encode r"
proof -
  have long: "10 \<le> length p" and
    r: "r = \<lparr>client_maximum_protocol_version = from_le_bytes (take 2 p),
             client_minimum_protocol_version = from_le_bytes (take 2 (drop 2 p)),
             client_desired_maximum_frame_size = from_le_bytes (take 4 (drop 4 p)),
             request_capability_count = from_le_bytes (take 2 (drop 8 p)),
             request_capability_entries = request_capability_entries r\<rparr>" and
    es: "capability_parse (drop 10 p) = Some (request_capability_entries r)" and
    ok: "client_minimum_protocol_version r \<le> client_maximum_protocol_version r"
    "sorted_wrt (<) (map cap_identifier (request_capability_entries r))"
    "length (request_capability_entries r) = unat (request_capability_count r)"
    using assms by (auto simp: handshake_request_decode_def HEAD_LENGTH_def and_then_eq_Inr slice_simps
        capability_count_def not_less split: if_splits)
  from es have e: "list_all (\<lambda>e. length (cap_value e) < 65536) (request_capability_entries r)"
    "drop 10 p = encode_capability_entries (request_capability_entries r)"
    by (simp_all add: capability_parse_iff)
  show "request_ok r" using ok e by (simp add: request_ok_def entries_ok_def)
  have c: "saturating_u16 (capability_count (request_capability_entries r)) = request_capability_count r"
    using ok(3) by (simp add: capability_count_def)
  have "handshake_request_encode r =
    take 2 p @ take 2 (drop 2 p) @ take 4 (drop 4 p) @ take 2 (drop 8 p) @ drop 10 p"
    using long by (simp add: handshake_request_encode_def c e(2) [symmetric],
        subst (1 2 3 4) r, simp add: to_from_le_bytes_widths)
  with ten_byte_head(1) [OF long] show "p = handshake_request_encode r" by simp
qed

lemma response_decode_encode:
  assumes "response_ok offer r"
  shows "handshake_response_decode (handshake_response_encode r) offer = Inr r"
proof -
  let ?es = "accepted_capability_entries r"
  have n: "length ?es = unat (accepted_capability_count r)" and
    s: "sorted_wrt (<) (map cap_identifier ?es)" and
    f: "list_all (\<lambda>e. length (cap_value e) < 65536) ?es" and
    o: "list_all (\<lambda>e. cap_identifier e \<in> set (capability_ids offer)) ?es" and
    h: "negotiated_protocol_version r \<le> 255"
       "contains_version offer (negotiated_protocol_version r)"
       "65536 \<le> negotiated_maximum_frame_size r" "4096 \<le> negotiated_maximum_metadata_size r"
    using assms by (auto simp: response_ok_def entries_ok_def)
  have c: "saturating_u16 (capability_count ?es) = accepted_capability_count r"
    using n by (simp add: capability_count_def)
  have p: "capability_parse (encode_capability_entries ?es) = Some ?es"
    using f by (simp add: capability_parse_iff)
  have a: "check_ascending ?es = Inr ()" "check_offered offer ?es = Inr ()" using s o by simp_all
  have w: "\<not> (ucast (negotiated_maximum_frame_size r) :: u64) < 65536"
    using h(3) by (simp add: word_less_nat_alt word_le_nat_alt)
  show ?thesis
    using n h w by (simp add: handshake_response_decode_def handshake_response_encode_def HEAD_LENGTH_def
        read_u16_le_def read_u32_le_def checked_add_usize_def get_range_def get_from_def c p a
        capability_count_def not_less HIGHEST_HEADER_VERSION_def MINIMUM_NEGOTIATED_FRAME_SIZE_def
        MINIMUM_NEGOTIATED_METADATA_SIZE_def)
qed

lemma response_decode_fields:
  assumes "handshake_response_decode p offer = Inr r"
  shows "10 \<le> length p"
    and "r = \<lparr>negotiated_protocol_version = from_le_bytes (take 2 p),
             negotiated_maximum_frame_size = from_le_bytes (take 4 (drop 2 p)),
             negotiated_maximum_metadata_size = from_le_bytes (take 2 (drop 6 p)),
             accepted_capability_count = from_le_bytes (take 2 (drop 8 p)),
             accepted_capability_entries = accepted_capability_entries r\<rparr>"
    and "capability_parse (drop 10 p) = Some (accepted_capability_entries r)"
    and "sorted_wrt (<) (map cap_identifier (accepted_capability_entries r))"
    and "length (accepted_capability_entries r) = unat (accepted_capability_count r)"
    and "negotiated_protocol_version r \<le> 255"
    and "contains_version offer (negotiated_protocol_version r)"
    and "65536 \<le> (ucast (negotiated_maximum_frame_size r) :: u64)"
    and "4096 \<le> negotiated_maximum_metadata_size r"
    and "list_all (\<lambda>e. cap_identifier e \<in> set (capability_ids offer)) (accepted_capability_entries r)"
  using assms by (auto simp: handshake_response_decode_def HEAD_LENGTH_def and_then_eq_Inr slice_simps
        capability_count_def not_less HIGHEST_HEADER_VERSION_def MINIMUM_NEGOTIATED_FRAME_SIZE_def
        MINIMUM_NEGOTIATED_METADATA_SIZE_def split: if_splits)

lemma response_decode_sound:
  assumes "handshake_response_decode p offer = Inr r"
  shows "response_ok offer r" and "p = handshake_response_encode r"
proof -
  note fields = response_decode_fields [OF assms]
  from fields(3) have e: "list_all (\<lambda>e. length (cap_value e) < 65536) (accepted_capability_entries r)"
    "drop 10 p = encode_capability_entries (accepted_capability_entries r)"
    by (simp_all add: capability_parse_iff)
  have "65536 \<le> negotiated_maximum_frame_size r"
    using fields(8) by (simp add: word_le_nat_alt)
  with fields(4-7,9,10) e show "response_ok offer r"
    by (simp add: response_ok_def entries_ok_def)
  have c: "saturating_u16 (capability_count (accepted_capability_entries r)) = accepted_capability_count r"
    using fields(5) by (simp add: capability_count_def)
  have "handshake_response_encode r =
    take 2 p @ take 4 (drop 2 p) @ take 2 (drop 6 p) @ take 2 (drop 8 p) @ drop 10 p"
    using fields(1) by (simp add: handshake_response_encode_def c e(2) [symmetric],
        subst (1 2 3 4) fields(2), simp add: to_from_le_bytes_widths)
  with ten_byte_head(2) [OF fields(1)] show "p = handshake_response_encode r" by simp
qed

lemma response_decode_failures:
  "handshake_response_decode p offer = Inl f \<Longrightarrow> f \<in> {malformed_request, protocol_violation}"
  by (auto simp: handshake_response_decode_def and_then_eq_Inl check_ascending_error
      dest: check_offered_error split: if_splits)

section \<open>Properties\<close>

text \<open>
  The handshake request codec is exact.  A payload decodes to a request precisely when the
  request is well formed (its version range is not empty, its declared count is the number of
  entries, the identifiers strictly ascend, every value fits its length field) and the payload is
  that request's encoding, so decoding and encoding are inverse in both directions and every
  other payload is refused.
\<close>

theorem handshake_request_codec:
  "handshake_request_decode p = Inr r \<longleftrightarrow> request_ok r \<and> p = handshake_request_encode r"
  using request_decode_encode request_decode_sound by blast

text \<open>
  C30: the handshake response codec is exact under the offer it answers.  A payload is accepted
  precisely when it encodes a response whose version lies in the offered range and in the header
  width, whose bounds are at or above the protocol floors, whose capability entries are counted,
  strictly ascending and all offered.
\<close>

theorem handshake_response_codec:
  "handshake_response_decode p offer = Inr r \<longleftrightarrow>
     response_ok offer r \<and> p = handshake_response_encode r"
  using response_decode_encode response_decode_sound by blast

text \<open>
  Version negotiation answers the greatest version both sides support: the value returned is
  a supported version inside the proposed range, no supported version in the range exceeds it,
  and nothing is returned exactly when the two sets do not meet.
\<close>

theorem highest_mutual_version_greatest:
  "(highest_mutual_version r supported = Some v \<longleftrightarrow>
      v \<in> set supported \<and> client_minimum_protocol_version r \<le> v \<and>
      v \<le> client_maximum_protocol_version r \<and>
      (\<forall>w \<in> set supported. client_minimum_protocol_version r \<le> w \<longrightarrow>
         w \<le> client_maximum_protocol_version r \<longrightarrow> w \<le> v)) \<and>
   (highest_mutual_version r supported = None \<longleftrightarrow>
      (\<forall>w \<in> set supported. \<not> (client_minimum_protocol_version r \<le> w \<and>
         w \<le> client_maximum_protocol_version r)))"
proof -
  define xs where "xs = filter (\<lambda>v. client_minimum_protocol_version r \<le> v \<and>
    v \<le> client_maximum_protocol_version r) supported"
  have h: "highest_mutual_version r supported = (if xs = [] then None else Some (Max (set xs)))"
    unfolding highest_mutual_version_def xs_def [symmetric]
    by (cases xs) (simp_all only: list.case Max.set_eq_fold list.distinct refl if_True if_False)
  have m: "Max (set xs) = v \<longleftrightarrow> v \<in> set xs \<and> (\<forall>w \<in> set xs. w \<le> v)" if "xs \<noteq> []"
    using that by (auto simp: Max_eq_iff)
  have n: "xs = [] \<longleftrightarrow> (\<forall>w \<in> set supported. \<not> (client_minimum_protocol_version r \<le> w \<and>
      w \<le> client_maximum_protocol_version r))"
    by (auto simp: xs_def filter_empty_conv)
  show ?thesis
    using m unfolding h n [symmetric] by (cases "xs = []") (auto simp: xs_def filter_empty_conv)
qed

theorem highest_mutual_version_greatest_witness:
  "highest_mutual_version (handshake_request_new 3 1 65536 []) [0, 2, 3, 7] = Some 3 \<and>
   highest_mutual_version (handshake_request_new 3 1 65536 []) [0, 7] = None"
proof -
  let ?r = "handshake_request_new 3 1 65536 []"
  have "highest_mutual_version ?r [0, 2, 3, 7] = Some 3"
    using highest_mutual_version_greatest [of ?r "[0, 2, 3, 7]" 3]
    by (simp add: handshake_request_new_def)
  moreover have "highest_mutual_version ?r [0, 7] = None"
    using highest_mutual_version_greatest [of ?r "[0, 7]" 0]
    by (simp add: handshake_request_new_def)
  ultimately show ?thesis by simp
qed

end
