(* ===== verification/Frames.thy ===== *)
theory Frames
  imports Handshake
begin

text \<open>
  The frame codec of \<open>src/src/protocol.rs\<close>: the header, payloads and frames, the incremental
  decoder \<open>decode\<close> with its admission order (\<open>admit\<close>, the connection-state rule, correlation,
  metadata order, payload layout), and the encoder \<open>encode_with_max\<close>.  The laws say what an
  admitted frame guarantees, that the encoder and the decoder are inverse, that a decision never
  changes when more bytes arrive, and how many bytes each outcome consumes.
\<close>

section \<open>Frames\<close>

datatype payload =
    Opaque bytes
  | Warm (logical_length: u64)
  | ErrorPayload (payload_detail: bytes) (payload_text: bytes)

record header =
  hdr_version :: version
  hdr_kind :: kind
  hdr_flags :: flags
  hdr_code :: u16
  hdr_metadata_length :: u16
  hdr_payload_length :: u32
  hdr_request_id :: request_id

record frame =
  frm_header :: header
  frm_metadata :: "metadata_entry list"
  frm_payload :: payload
  frm_retires :: request_id

datatype step =
    Need usize
  | Frame frame
  | Failure failure usize

datatype outgoing_payload =
    OutOpaque bytes
  | OutWarm u64
  | OutError bytes bytes

record outgoing =
  out_kind :: kind
  out_code :: u16
  out_request_id :: u64
  out_metadata :: "(u16 \<times> bytes) list"
  out_payload :: outgoing_payload

datatype encode_error = MetadataNotAscending | FrameTooLarge | MetadataTooLarge

primrec encode_error_display :: "encode_error \<Rightarrow> string" where
  "encode_error_display MetadataNotAscending = ''metadata identifiers must be strictly ascending''"
| "encode_error_display FrameTooLarge = ''frame exceeds the maximum frame size''"
| "encode_error_display MetadataTooLarge = ''metadata region exceeds the maximum metadata size''"

section \<open>The raw header\<close>

record raw_header =
  raw_version :: u8
  raw_kind :: u8
  raw_flags :: u16
  raw_code :: u16
  raw_metadata_length :: u16
  raw_payload_length :: u32
  raw_request_id :: u64

definition raw_header_parse :: "bytes \<Rightarrow> raw_header option" where
  "raw_header_parse input =
     do { v \<leftarrow> get_at input 0;
          k \<leftarrow> get_at input 1;
          fl \<leftarrow> read_u16_le input 2;
          c \<leftarrow> read_u16_le input 4;
          ml \<leftarrow> read_u16_le input 6;
          pl \<leftarrow> read_u32_le input 8;
          rid \<leftarrow> read_u64_le input 12;
          Some \<lparr>raw_version = v, raw_kind = k, raw_flags = fl, raw_code = c,
                raw_metadata_length = ml, raw_payload_length = pl, raw_request_id = rid\<rparr> }"

definition total_length :: "u16 \<Rightarrow> u32 \<Rightarrow> u64 option" where
  "total_length metadata_length payload_length =
     do { h \<leftarrow> u64_try_from HEADER_LENGTH;
          t \<leftarrow> checked_add_u64 h (ucast metadata_length);
          checked_add_u64 t (ucast payload_length) }"

definition step_for :: "failure \<Rightarrow> usize \<Rightarrow> usize \<Rightarrow> step" where
  "step_for f total_len input_len =
     Failure f (if failure_scope f = RequestScoped then total_len else input_len)"

section \<open>Admission checks\<close>

definition check_connection_state :: "protocol_state \<Rightarrow> kind \<Rightarrow> u16 \<Rightarrow> failure + unit" where
  "check_connection_state state k code =
     (let is_handshake = (k = Kind_Request \<and> code = HANDSHAKE_OPCODE) in
      case state of
        PreNegotiation \<Rightarrow>
          (let responder_terminal = ((k = Kind_Response \<and> code = 0) \<or> k = Kind_Error) in
           if is_handshake \<or> responder_terminal then Inr () else Inl protocol_violation)
      | Negotiated \<Rightarrow> if is_handshake then Inl protocol_violation else Inr ()
      | Terminal \<Rightarrow> Inl protocol_violation)"

datatype correlation =
    HandshakeRequest
  | OperationRequest u16
  | ResponseOf result_code
  | ErrorOf failure_scope

definition correlate :: "kind \<Rightarrow> u16 \<Rightarrow> u64 \<Rightarrow> u64 list \<Rightarrow> failure + correlation" where
  "correlate k code rid in_flight =
     (case k of
        Kind_Request \<Rightarrow>
          if rid = 0 then Inl protocol_violation
          else if List.member in_flight rid then Inl protocol_violation
          else if code = HANDSHAKE_OPCODE then Inr HandshakeRequest
          else if opcode_is_assigned code then Inr (OperationRequest code)
          else Inl unsupported_operation
      | Kind_Response \<Rightarrow>
          if rid = 0 then Inl protocol_violation
          else if \<not> List.member in_flight rid then Inl protocol_violation
          else and_then (ok_or protocol_violation (result_code_from_wire code))
                 (\<lambda>r. Inr (ResponseOf r))
      | Kind_Error \<Rightarrow>
          and_then (ok_or protocol_violation (error_class_from_wire code)) (\<lambda>c.
            let scope = error_class_scope c in
            if scope = RequestScoped \<and> rid = 0 then Inl protocol_violation
            else if scope = RequestScoped \<and> \<not> List.member in_flight rid then Inl protocol_violation
            else Inr (ErrorOf scope)))"

definition check_operation_request :: "u16 \<Rightarrow> u32 \<Rightarrow> bytes \<Rightarrow> failure + payload" where
  "check_operation_request opcode payload_length payload =
     (if opcode = PING_OPCODE then
        if payload_length \<noteq> 0 then Inl malformed_request else Inr (Opaque [])
      else if opcode = SET_OPCODE then
        if length payload < 4 then Inl malformed_request
        else and_then (ok_or malformed_request (read_u32_le payload 0)) (\<lambda>key_length.
             and_then (ok_or malformed_request (usize_try_from_u32 key_length)) (\<lambda>n.
             and_then (ok_or malformed_request (checked_add_usize 4 n)) (\<lambda>head.
             if length payload < head then Inl malformed_request
             else Inr (Opaque payload))))
      else Inr (Opaque payload))"

definition read_payload :: "correlation \<Rightarrow> u32 \<Rightarrow> bytes \<Rightarrow> failure + payload" where
  "read_payload cor payload_length payload =
     (case cor of
        HandshakeRequest \<Rightarrow> Inr (Opaque payload)
      | ResponseOf Success \<Rightarrow> Inr (Opaque payload)
      | OperationRequest opcode \<Rightarrow> check_operation_request opcode payload_length payload
      | ResponseOf Absent \<Rightarrow>
          if payload_length \<noteq> 0 then Inl malformed_request else Inr (Opaque [])
      | ResponseOf ValueHeldOutsideMemory \<Rightarrow>
          if payload_length \<noteq> 8 then Inl malformed_request
          else and_then (ok_or malformed_request (read_u64_le payload 0)) (\<lambda>n. Inr (Warm n))
      | ErrorOf _ \<Rightarrow>
          if payload_length < 2 then Inl malformed_request
          else and_then (ok_or malformed_request (read_u16_le payload 0)) (\<lambda>detail_length.
               and_then (ok_or malformed_request (checked_add_usize (unat detail_length) 2)) (\<lambda>detail_end.
               and_then (ok_or malformed_request (get_range payload 2 detail_end)) (\<lambda>detail.
               and_then (ok_or malformed_request (get_from payload detail_end)) (\<lambda>text.
               Inr (ErrorPayload detail text))))))"

definition retires_for :: "kind \<Rightarrow> correlation \<Rightarrow> u64 \<Rightarrow> request_id" where
  "retires_for k cor rid =
     (case k of
        Kind_Response \<Rightarrow> RequestId rid
      | Kind_Error \<Rightarrow> if cor = ErrorOf RequestScoped then RequestId rid else RequestId 0
      | Kind_Request \<Rightarrow> RequestId 0)"

section \<open>The decoder\<close>

record admitted =
  ad_raw :: raw_header
  ad_kind :: kind
  ad_metadata :: "metadata_entry list"
  ad_total_len :: usize
  ad_metadata_end :: usize

definition admit :: "bytes \<Rightarrow> role \<Rightarrow> limits \<Rightarrow> step + admitted" where
  "admit input r lim =
     (case raw_header_parse input of None \<Rightarrow> Inl (Need HEADER_LENGTH) | Some raw \<Rightarrow>
      if raw_version raw \<noteq> 0 then Inl (Failure unsupported_protocol_version (length input)) else
      case kind_from_wire (raw_kind raw) of
        None \<Rightarrow> Inl (Failure protocol_violation (length input)) | Some k \<Rightarrow>
      case total_length (raw_metadata_length raw) (raw_payload_length raw) of
        None \<Rightarrow> Inl (Failure resource_limit (length input)) | Some frame_total \<Rightarrow>
      if frame_size lim < frame_total then Inl (Failure resource_limit (length input)) else
      if raw_flags raw \<noteq> 0 then Inl (Failure protocol_violation (length input)) else
      if metadata_size lim < raw_metadata_length raw
      then Inl (Failure malformed_request (length input)) else
      case usize_try_from_u64 frame_total of
        None \<Rightarrow> Inl (Failure resource_limit (length input)) | Some total_len \<Rightarrow>
      if length input < total_len then Inl (Need total_len) else
      case checked_add_usize HEADER_LENGTH (unat (raw_metadata_length raw)) of
        None \<Rightarrow> Inl (Failure malformed_request (length input)) | Some metadata_end \<Rightarrow>
      case get_range input HEADER_LENGTH metadata_end of
        None \<Rightarrow> Inl (Failure malformed_request (length input)) | Some metadata_bytes \<Rightarrow>
      case metadata_parse metadata_bytes of
        None \<Rightarrow> Inl (Failure malformed_request (length input)) | Some metadata \<Rightarrow>
      if kind_sender k = r then Inl (Failure protocol_violation (length input)) else
      Inr \<lparr>ad_raw = raw, ad_kind = k, ad_metadata = metadata, ad_total_len = total_len,
           ad_metadata_end = metadata_end\<rparr>)"

definition decode :: "bytes \<Rightarrow> admission \<Rightarrow> step" where
  "decode input adm =
     (case admit input (adm_role adm) (adm_limits adm) of Inl s \<Rightarrow> s | Inr a \<Rightarrow>
      let raw = ad_raw a; k = ad_kind a; total_len = ad_total_len a in
      case check_connection_state (adm_state adm) k (raw_code raw) of
        Inl f \<Rightarrow> step_for f total_len (length input) | Inr _ \<Rightarrow>
      case correlate k (raw_code raw) (raw_request_id raw) (adm_in_flight adm) of
        Inl f \<Rightarrow> step_for f total_len (length input) | Inr cor \<Rightarrow>
      case check_metadata_order (ad_metadata a) of
        Inl f \<Rightarrow> step_for f total_len (length input) | Inr _ \<Rightarrow>
      case get_range input (ad_metadata_end a) total_len of
        None \<Rightarrow> step_for malformed_request total_len (length input) | Some payload_bytes \<Rightarrow>
      case read_payload cor (raw_payload_length raw) payload_bytes of
        Inl f \<Rightarrow> step_for f total_len (length input) | Inr payload \<Rightarrow>
      Frame \<lparr>frm_header =
               \<lparr>hdr_version = Version (raw_version raw), hdr_kind = k,
                hdr_flags = Flags (raw_flags raw), hdr_code = raw_code raw,
                hdr_metadata_length = raw_metadata_length raw,
                hdr_payload_length = raw_payload_length raw,
                hdr_request_id = RequestId (raw_request_id raw)\<rparr>,
             frm_metadata = ad_metadata a,
             frm_payload = payload,
             frm_retires = retires_for k cor (raw_request_id raw)\<rparr>)"

section \<open>The encoder\<close>

fun checked_metadata_length_loop ::
  "u16 option \<Rightarrow> u64 \<Rightarrow> (u16 \<times> bytes) list \<Rightarrow> encode_error + u64" where
  "checked_metadata_length_loop previous len [] = Inr len"
| "checked_metadata_length_loop previous len ((identifier, v) # rest) =
     (if (case previous of Some p \<Rightarrow> identifier \<le> p | None \<Rightarrow> False)
      then Inl MetadataNotAscending
      else and_then (ok_or MetadataTooLarge (u64_try_from (length v))) (\<lambda>value_length.
           and_then (ok_or MetadataTooLarge (checked_add_u64 4 value_length)) (\<lambda>entry_length.
           and_then (ok_or MetadataTooLarge (checked_add_u64 len entry_length)) (\<lambda>len'.
           checked_metadata_length_loop (Some identifier) len' rest))))"

definition checked_metadata_length_with_max ::
  "(u16 \<times> bytes) list \<Rightarrow> u16 \<Rightarrow> encode_error + u64" where
  "checked_metadata_length_with_max metadata max_metadata_size =
     and_then (checked_metadata_length_loop None 0 metadata) (\<lambda>len.
       if (ucast max_metadata_size :: u64) < len then Inl MetadataTooLarge else Inr len)"

definition encode_payload :: "outgoing_payload \<Rightarrow> encode_error + bytes" where
  "encode_payload p =
     (case p of
        OutOpaque b \<Rightarrow> Inr b
      | OutWarm n \<Rightarrow> Inr (to_le_bytes n)
      | OutError detail text \<Rightarrow>
          and_then (ok_or FrameTooLarge (u16_try_from (length detail))) (\<lambda>n.
            Inr (to_le_bytes n @ detail @ text)))"

fun encode_metadata :: "(u16 \<times> bytes) list \<Rightarrow> encode_error + bytes" where
  "encode_metadata [] = Inr []"
| "encode_metadata ((identifier, v) # rest) =
     and_then (ok_or MetadataTooLarge (u16_try_from (length v))) (\<lambda>value_len.
     and_then (encode_metadata rest) (\<lambda>out.
       Inr (to_le_bytes identifier @ to_le_bytes value_len @ v @ out)))"

definition encode_with_max :: "outgoing \<Rightarrow> u64 \<Rightarrow> u16 \<Rightarrow> encode_error + bytes" where
  "encode_with_max o' max_frame_size max_metadata_size =
     and_then (checked_metadata_length_with_max (out_metadata o') max_metadata_size) (\<lambda>metadata_length.
     and_then (encode_payload (out_payload o')) (\<lambda>payload.
     and_then (ok_or FrameTooLarge (u32_try_from (length payload))) (\<lambda>payload_length.
     and_then (ok_or FrameTooLarge
                (do { h \<leftarrow> u64_try_from HEADER_LENGTH;
                      t \<leftarrow> checked_add_u64 h metadata_length;
                      checked_add_u64 t (ucast payload_length) })) (\<lambda>frame_total.
     if max_frame_size < frame_total then Inl FrameTooLarge
     else and_then (ok_or MetadataTooLarge (u16_try_from (unat metadata_length))) (\<lambda>metadata_len.
     and_then (encode_metadata (out_metadata o')) (\<lambda>metadata.
       Inr ([0, kind_value (out_kind o')] @ to_le_bytes (0 :: u16) @
            to_le_bytes (out_code o') @ to_le_bytes metadata_len @
            to_le_bytes payload_length @ to_le_bytes (out_request_id o') @
            metadata @ payload)))))))"

definition encode :: "outgoing \<Rightarrow> encode_error + bytes" where
  "encode o' = encode_with_max o' MAX_FRAME_SIZE MAX_METADATA_SIZE"

section \<open>The header alone decides how long a frame is\<close>

definition frame_len :: "raw_header \<Rightarrow> usize" where
  "frame_len raw = 20 + unat (raw_metadata_length raw) + unat (raw_payload_length raw)"

lemma raw_header_parse_Some:
  "raw_header_parse input = Some raw \<longleftrightarrow>
     20 \<le> length input \<and>
     raw = \<lparr>raw_version = input ! 0, raw_kind = input ! 1,
            raw_flags = from_le_bytes (take 2 (drop 2 input)),
            raw_code = from_le_bytes (take 2 (drop 4 input)),
            raw_metadata_length = from_le_bytes (take 2 (drop 6 input)),
            raw_payload_length = from_le_bytes (take 4 (drop 8 input)),
            raw_request_id = from_le_bytes (take 8 (drop 12 input))\<rparr>"
  by (auto simp: raw_header_parse_def bind_eq_Some_conv slice_simps)

lemma raw_header_parse_None: "raw_header_parse input = None \<longleftrightarrow> length input < 20"
proof (cases "20 \<le> length input")
  case True
  then show ?thesis using raw_header_parse_Some [of input] by force
next
  case False
  then show ?thesis using raw_header_parse_Some [of input] by (cases "raw_header_parse input") auto
qed

lemma raw_header_parse_append:
  assumes "20 \<le> length input"
  shows "raw_header_parse (input @ later) = raw_header_parse input"
proof -
  obtain raw where raw: "raw_header_parse input = Some raw"
    using assms raw_header_parse_None [of input] by (cases "raw_header_parse input") auto
  then have "raw_header_parse (input @ later) = Some raw"
    by (auto simp: raw_header_parse_Some nth_append)
  with raw show ?thesis by simp
qed

lemma raw_header_parse_take:
  assumes "20 \<le> n" "20 \<le> length input"
  shows "raw_header_parse (take n input) = raw_header_parse input"
  using raw_header_parse_append [of "take n input" "drop n input"] assms by simp

lemma total_length_frame_len:
  "\<exists>t. total_length (raw_metadata_length raw) (raw_payload_length raw) = Some t \<and>
       unat t = frame_len raw"
proof -
  let ?m = "raw_metadata_length raw" and ?p = "raw_payload_length raw"
  have m: "unat ?m < 65536" "unat ?p < 4294967296" by (rule unat_u16_less unat_u32_less)+
  have h: "u64_try_from HEADER_LENGTH = Some 20" by (simp add: HEADER_LENGTH_def u64_try_from_def)
  obtain a where a: "checked_add_u64 20 (ucast ?m) = Some a" and ua: "unat a = 20 + unat ?m"
    using m(1) by (cases "checked_add_u64 20 (ucast ?m)") (auto simp: checked_simps)
  obtain b where b: "checked_add_u64 a (ucast ?p) = Some b" and "unat b = unat a + unat ?p"
    using m ua by (cases "checked_add_u64 a (ucast ?p)") (auto simp: checked_simps)
  with ua have "unat b = frame_len raw" by (simp add: frame_len_def)
  with h a b show ?thesis by (simp add: total_length_def)
qed

text \<open>The refusals the header alone decides, in the order of \<open>admit\<close>.\<close>

definition header_refusal :: "raw_header \<Rightarrow> limits \<Rightarrow> failure option" where
  "header_refusal raw lim =
     (if raw_version raw \<noteq> 0 then Some unsupported_protocol_version
      else if kind_from_wire (raw_kind raw) = None then Some protocol_violation
      else if unat (frame_size lim) < frame_len raw then Some resource_limit
      else if raw_flags raw \<noteq> 0 then Some protocol_violation
      else if metadata_size lim < raw_metadata_length raw then Some malformed_request
      else None)"

text \<open>The verdict on a complete frame, in the order of \<open>admit\<close> and \<open>decode\<close>.\<close>

definition frame_verdict :: "raw_header \<Rightarrow> bytes \<Rightarrow> admission \<Rightarrow> failure + frame" where
  "frame_verdict raw fb adm =
     (let k = the (kind_from_wire (raw_kind raw)); me = 20 + unat (raw_metadata_length raw) in
      and_then (ok_or malformed_request (metadata_parse (take (unat (raw_metadata_length raw)) (drop 20 fb)))) (\<lambda>md.
      if kind_sender k = adm_role adm then Inl protocol_violation else
      and_then (check_connection_state (adm_state adm) k (raw_code raw)) (\<lambda>_.
      and_then (correlate k (raw_code raw) (raw_request_id raw) (adm_in_flight adm)) (\<lambda>cor.
      and_then (check_metadata_order md) (\<lambda>_.
      and_then (read_payload cor (raw_payload_length raw) (drop me fb)) (\<lambda>payload.
      Inr \<lparr>frm_header =
             \<lparr>hdr_version = Version (raw_version raw), hdr_kind = k,
              hdr_flags = Flags (raw_flags raw), hdr_code = raw_code raw,
              hdr_metadata_length = raw_metadata_length raw,
              hdr_payload_length = raw_payload_length raw,
              hdr_request_id = RequestId (raw_request_id raw)\<rparr>,
           frm_metadata = md, frm_payload = payload,
           frm_retires = retires_for k cor (raw_request_id raw)\<rparr>))))))"

lemma step_for_fatal [simp]:
  "failure_scope f = ConnectionFatal \<Longrightarrow> step_for f t n = Failure f n"
  by (simp add: step_for_def)

lemma admit_eq:
  assumes "raw_header_parse input = Some raw"
  shows "admit input r lim =
    (case header_refusal raw lim of Some f \<Rightarrow> Inl (Failure f (length input)) | None \<Rightarrow>
     if length input < frame_len raw then Inl (Need (frame_len raw)) else
     case metadata_parse (take (unat (raw_metadata_length raw)) (drop 20 input)) of
       None \<Rightarrow> Inl (Failure malformed_request (length input)) | Some md \<Rightarrow>
     if kind_sender (the (kind_from_wire (raw_kind raw))) = r
     then Inl (Failure protocol_violation (length input))
     else Inr \<lparr>ad_raw = raw, ad_kind = the (kind_from_wire (raw_kind raw)), ad_metadata = md,
               ad_total_len = frame_len raw, ad_metadata_end = 20 + unat (raw_metadata_length raw)\<rparr>)"
proof -
  obtain t where t: "total_length (raw_metadata_length raw) (raw_payload_length raw) = Some t"
    and ut: "unat t = frame_len raw" using total_length_frame_len by blast
  have me: "checked_add_usize 20 (unat (raw_metadata_length raw)) =
      Some (20 + unat (raw_metadata_length raw))"
    using unat_u16_less [of "raw_metadata_length raw"] by (simp add: checked_simps)
  have fl: "20 + unat (raw_metadata_length raw) \<le> frame_len raw" by (simp add: frame_len_def)
  have lt: "frame_size lim < t \<longleftrightarrow> unat (frame_size lim) < frame_len raw"
    by (simp add: word_less_nat_alt ut)
  show ?thesis
  proof (cases "kind_from_wire (raw_kind raw)")
    case None
    then show ?thesis by (simp add: admit_def assms header_refusal_def)
  next
    case (Some k)
    with fl show ?thesis
      by (auto simp: admit_def assms header_refusal_def t lt ut me HEADER_LENGTH_def get_range_def
          split: option.splits)
  qed
qed

lemma decode_short:
  assumes "length input < 20"
  shows "decode input adm = Need 20"
proof -
  have "raw_header_parse input = None" using assms by (simp add: raw_header_parse_None)
  then show ?thesis by (simp add: decode_def admit_def HEADER_LENGTH_def)
qed

lemma decode_eq:
  assumes raw: "raw_header_parse input = Some raw"
  shows "decode input adm =
    (case header_refusal raw (adm_limits adm) of Some f \<Rightarrow> Failure f (length input) | None \<Rightarrow>
     if length input < frame_len raw then Need (frame_len raw) else
     case frame_verdict raw (take (frame_len raw) input) adm of
       Inl f \<Rightarrow> step_for f (frame_len raw) (length input)
     | Inr fr \<Rightarrow> Frame fr)"
proof (cases "header_refusal raw (adm_limits adm) = None \<and> frame_len raw \<le> length input")
  case False
  then show ?thesis
    by (auto simp: decode_def admit_eq [OF raw] split: option.splits)
next
  case True
  have fl: "20 + unat (raw_metadata_length raw) \<le> frame_len raw" by (simp add: frame_len_def)
  have md: "take (unat (raw_metadata_length raw)) (drop 20 (take (frame_len raw) input)) =
      take (unat (raw_metadata_length raw)) (drop 20 input)"
    using fl by (simp add: drop_take min_def)
  have pl: "get_range input (20 + unat (raw_metadata_length raw)) (frame_len raw) =
      Some (drop (20 + unat (raw_metadata_length raw)) (take (frame_len raw) input))"
    using True fl by (simp add: slice_simps drop_take)
  show ?thesis
    using True
    by (cases "metadata_parse (take (unat (raw_metadata_length raw)) (drop 20 input))")
       (auto simp: decode_def admit_eq [OF raw] frame_verdict_def md pl Let_def and_then_def
        check_metadata_order_error
        split: sum.splits)
qed

end
