(* ===== verification/Frame_Codec.thy ===== *)
theory Frame_Codec
  imports Frames
begin

text \<open>
  The laws of the frame codec.  The first group says that the decoder is incremental: a decision
  on a prefix is the decision on every longer input, and a request for more bytes is exact.  The
  second group characterises the encoder.  The third shows that the two are inverse: what the
  encoder writes decodes to the frame it was given, and an admitted frame re-encodes to exactly
  the bytes it was read from.
\<close>

section \<open>What the decoder decides\<close>

lemma parsed_long: "raw_header_parse input = Some raw \<Longrightarrow> 20 \<le> length input"
  by (simp add: raw_header_parse_Some)

lemma decode_Frame_iff:
  "decode input adm = Frame f \<longleftrightarrow>
     (\<exists>raw. raw_header_parse input = Some raw \<and> header_refusal raw (adm_limits adm) = None \<and>
            frame_len raw \<le> length input \<and>
            frame_verdict raw (take (frame_len raw) input) adm = Inr f)"
  by (cases "raw_header_parse input")
     (auto simp: decode_eq decode_short raw_header_parse_None step_for_def dest: parsed_long
       split: option.splits if_splits sum.splits)

lemma decode_Need_iff:
  "decode input adm = Need n \<longleftrightarrow>
     (length input < 20 \<and> n = 20) \<or>
     (\<exists>raw. raw_header_parse input = Some raw \<and> header_refusal raw (adm_limits adm) = None \<and>
            length input < frame_len raw \<and> n = frame_len raw)"
  by (cases "raw_header_parse input")
     (auto simp: decode_eq decode_short raw_header_parse_None raw_header_parse_Some step_for_def
       split: option.splits if_splits sum.splits)

lemma decode_Failure_iff:
  "decode input adm = Failure x n \<longleftrightarrow>
     (\<exists>raw. raw_header_parse input = Some raw \<and>
            (header_refusal raw (adm_limits adm) = Some x \<and> n = length input \<or>
             header_refusal raw (adm_limits adm) = None \<and> frame_len raw \<le> length input \<and>
             frame_verdict raw (take (frame_len raw) input) adm = Inl x \<and>
             n = (if failure_scope x = RequestScoped then frame_len raw else length input)))"
  by (cases "raw_header_parse input")
     (auto simp: decode_eq decode_short raw_header_parse_None step_for_def dest: parsed_long
       split: option.splits if_splits sum.splits)

lemma parsed_append: "raw_header_parse input = Some raw \<Longrightarrow> raw_header_parse (input @ later) = Some raw"
  using parsed_long [of input raw] by (simp add: raw_header_parse_append)

lemma header_refusal_fatal: "header_refusal raw lim = Some x \<Longrightarrow> failure_scope x = ConnectionFatal"
  by (auto simp: header_refusal_def split: if_splits)

lemma header_refusal_None:
  assumes "header_refusal raw lim = None"
  obtains k where "raw_version raw = 0" "raw_flags raw = 0" "raw_kind raw = kind_value k"
    "kind_from_wire (raw_kind raw) = Some k" "frame_len raw \<le> unat (frame_size lim)"
    "raw_metadata_length raw \<le> metadata_size lim"
  using assms by (auto simp: header_refusal_def wire_simps not_less split: if_splits)

lemma decode_append_Frame: "decode input adm = Frame f \<Longrightarrow> decode (input @ later) adm = Frame f"
  unfolding decode_Frame_iff by (auto dest: parsed_append)

lemma decode_append_Failure:
  assumes "decode input adm = Failure x n"
  shows "decode (input @ later) adm =
    Failure x (if failure_scope x = RequestScoped then n else n + length later)"
proof -
  from assms obtain raw where raw: "raw_header_parse input = Some raw"
    and c: "header_refusal raw (adm_limits adm) = Some x \<and> n = length input \<or>
      header_refusal raw (adm_limits adm) = None \<and> frame_len raw \<le> length input \<and>
      frame_verdict raw (take (frame_len raw) input) adm = Inl x \<and>
      n = (if failure_scope x = RequestScoped then frame_len raw else length input)"
    unfolding decode_Failure_iff by blast
  from raw have "raw_header_parse (input @ later) = Some raw" by (rule parsed_append)
  with c show ?thesis
    unfolding decode_Failure_iff using header_refusal_fatal [of raw "adm_limits adm" x] by auto
qed

lemma decode_Need_longer: "decode input adm = Need n \<Longrightarrow> length input < n"
  by (auto simp: decode_Need_iff)

lemma decode_append_Need:
  "decode input adm = Need n \<Longrightarrow> length (input @ later) < n \<Longrightarrow> decode (input @ later) adm = Need n"
  unfolding decode_Need_iff by (auto dest: parsed_append)

lemma frame_len_pos [simp]: "0 < frame_len raw" "frame_len raw \<noteq> 0"
  by (simp_all add: frame_len_def)

section \<open>Verdicts\<close>

lemma frame_verdict_OkE:
  assumes "frame_verdict raw fb adm = Inr f" and "kind_from_wire (raw_kind raw) = Some k"
  obtains md cor p where
    "metadata_parse (take (unat (raw_metadata_length raw)) (drop 20 fb)) = Some md"
    "kind_sender k \<noteq> adm_role adm"
    "check_connection_state (adm_state adm) k (raw_code raw) = Inr ()"
    "correlate k (raw_code raw) (raw_request_id raw) (adm_in_flight adm) = Inr cor"
    "metadata_ordered md"
    "read_payload cor (raw_payload_length raw) (drop (20 + unat (raw_metadata_length raw)) fb) = Inr p"
    "f = \<lparr>frm_header =
             \<lparr>hdr_version = Version (raw_version raw), hdr_kind = k,
              hdr_flags = Flags (raw_flags raw), hdr_code = raw_code raw,
              hdr_metadata_length = raw_metadata_length raw,
              hdr_payload_length = raw_payload_length raw,
              hdr_request_id = RequestId (raw_request_id raw)\<rparr>,
           frm_metadata = md, frm_payload = p,
           frm_retires = retires_for k cor (raw_request_id raw)\<rparr>"
  using assms by (auto simp: frame_verdict_def Let_def and_then_eq_Inr split: if_splits)

lemma correlate_cases:
  assumes "correlate k code rid in_flight = Inr cor"
  shows "(k = Kind_Request \<and> rid \<noteq> 0 \<and> rid \<notin> set in_flight \<and>
            (code = HANDSHAKE_OPCODE \<and> cor = HandshakeRequest \<or>
             code \<noteq> HANDSHAKE_OPCODE \<and> opcode_is_assigned code \<and> cor = OperationRequest code)) \<or>
         (\<exists>r. k = Kind_Response \<and> rid \<noteq> 0 \<and> rid \<in> set in_flight \<and>
            code = result_code_value r \<and> cor = ResponseOf r) \<or>
         (\<exists>c. k = Kind_Error \<and> code = error_class_value c \<and> cor = ErrorOf (error_class_scope c) \<and>
            (error_class_scope c = RequestScoped \<longrightarrow> rid \<noteq> 0 \<and> rid \<in> set in_flight))"
  using assms
  by (cases k) (auto simp: correlate_def and_then_eq_Inr wire_simps Let_def split: if_splits)

lemma correlate_failure:
  "correlate k code rid in_flight = Inl x \<Longrightarrow>
   x = protocol_violation \<or> k = Kind_Request \<and> x = unsupported_operation"
  by (cases k) (auto simp: correlate_def and_then_eq_Inl Let_def split: if_splits)

lemma check_operation_request_failure:
  "check_operation_request op n p = Inl x \<Longrightarrow> x = malformed_request"
  by (auto simp: check_operation_request_def and_then_eq_Inl split: if_splits)

lemma read_payload_failure: "read_payload cor n p = Inl x \<Longrightarrow> x = malformed_request"
  by (auto simp: read_payload_def and_then_eq_Inl dest: check_operation_request_failure
      split: correlation.splits result_code.splits if_splits)

lemma check_connection_state_failure:
  "check_connection_state st k code = Inl x \<Longrightarrow> x = protocol_violation"
  by (auto simp: check_connection_state_def Let_def split: protocol_state.splits if_splits)

lemma frame_verdict_failure:
  assumes "frame_verdict raw fb adm = Inl x"
  shows "x \<in> {malformed_request, protocol_violation, invalid_argument} \<or>
         x = unsupported_operation \<and> the (kind_from_wire (raw_kind raw)) = Kind_Request \<and>
         adm_role adm = Server"
  using assms
  by (cases "adm_role adm")
     (auto simp: frame_verdict_def Let_def and_then_eq_Inl check_metadata_order_error
      dest: check_connection_state_failure correlate_failure read_payload_failure split: if_splits)

section \<open>The encoder\<close>

definition region_len :: "(u16 \<times> bytes) list \<Rightarrow> nat" where
  "region_len md = sum_list (map (\<lambda>(i, v). 4 + length v) md)"

definition region_bytes :: "(u16 \<times> bytes) list \<Rightarrow> bytes" where
  "region_bytes md = concat (map (\<lambda>(i, v). entry_bytes i v) md)"

definition header_bytes :: "kind \<Rightarrow> u16 \<Rightarrow> u16 \<Rightarrow> u32 \<Rightarrow> u64 \<Rightarrow> bytes" where
  "header_bytes k code ml pl rid =
     [0, kind_value k] @ to_le_bytes (0 :: u16) @ to_le_bytes code @ to_le_bytes ml @
     to_le_bytes pl @ to_le_bytes rid"

lemma region_len_simps [simp]:
  "region_len [] = 0"
  "region_len ((i, v) # md) = 4 + length v + region_len md"
  by (simp_all add: region_len_def)

lemma region_bytes_simps [simp]:
  "region_bytes [] = []"
  "region_bytes ((i, v) # md) = entry_bytes i v @ region_bytes md"
  by (simp_all add: region_bytes_def)

lemma length_region_bytes [simp]: "length (region_bytes md) = region_len md"
  by (induction md) auto

lemma length_header_bytes [simp]: "length (header_bytes k code ml pl rid) = 20"
  by (simp add: header_bytes_def)

lemma checked_metadata_length_loop_ok:
  "checked_metadata_length_loop previous len md = Inr tot \<longleftrightarrow>
     sorted_wrt (<) (map fst md) \<and>
     (case previous of None \<Rightarrow> True | Some p \<Rightarrow> list_all (\<lambda>e. p < fst e) md) \<and>
     unat len + region_len md < 18446744073709551616 \<and> unat tot = unat len + region_len md"
proof (induction previous len md arbitrary: tot rule: checked_metadata_length_loop.induct)
  case (1 previous len)
  then show ?case
    using unat_u64_less [of len] by (auto simp: word_unat_eq_iff split: option.splits)
next
  case (2 previous len ident v rest)
  show ?case
  proof (cases "(case previous of Some p \<Rightarrow> ident \<le> p | None \<Rightarrow> False)
      \<or> 18446744073709551616 \<le> unat len + (4 + length v)")
    case True
    then show ?thesis
      by (auto simp: and_then_eq_Inr checked_simps split: option.splits)
  next
    case False
    define vl el l' where "vl = (of_nat (length v) :: u64)" and "el = 4 + vl" and "l' = len + el"
    have u: "unat vl = length v" "unat el = 4 + length v" "unat l' = unat len + (4 + length v)"
      using False by (simp_all add: vl_def el_def l'_def unat_of_nat unat_word_ariths)
    have c: "u64_try_from (length v) = Some vl" "checked_add_u64 4 vl = Some el"
      "checked_add_u64 len el = Some l'"
      using False by (simp_all add: checked_simps u)
    have "checked_metadata_length_loop previous len ((ident, v) # rest) =
        checked_metadata_length_loop (Some ident) l' rest"
      using False by (simp add: c)
    then show ?thesis
      using False 2 [of l' tot] by (auto simp: u list_all_iff split: option.splits)
  qed
qed

lemma encode_metadata_ok:
  "region_len md < 65536 \<Longrightarrow> encode_metadata md = Inr (region_bytes md)"
proof (induction md rule: encode_metadata.induct)
  case 1
  then show ?case by simp
next
  case (2 i v md)
  then have "u16_try_from (length v) = Some (of_nat (length v))"
    by (simp add: u16_try_from_def)
  with 2 show ?case by (simp add: entry_bytes_def)
qed

lemma checked_metadata_length_ok:
  "checked_metadata_length_with_max md m = Inr tot \<longleftrightarrow>
     sorted_wrt (<) (map fst md) \<and> region_len md \<le> unat m \<and> unat tot = region_len md"
  using unat_u16_less [of m]
  by (auto simp: checked_metadata_length_with_max_def and_then_eq_Inr checked_metadata_length_loop_ok
      word_less_nat_alt split: if_splits intro: exI [of _ tot])

text \<open>The encoder succeeds exactly under the stated bounds, and this is what it writes.\<close>

lemma encode_with_max_ok:
  "encode_with_max o' F M = Inr out \<longleftrightarrow>
     (\<exists>pb. encode_payload (out_payload o') = Inr pb \<and>
        sorted_wrt (<) (map fst (out_metadata o')) \<and>
        region_len (out_metadata o') \<le> unat M \<and>
        length pb < 4294967296 \<and>
        20 + region_len (out_metadata o') + length pb \<le> unat F \<and>
        out = header_bytes (out_kind o') (out_code o') (of_nat (region_len (out_metadata o')))
                (of_nat (length pb)) (out_request_id o') @ region_bytes (out_metadata o') @ pb)"
  (is "?lhs \<longleftrightarrow> (\<exists>pb. ?P pb)")
proof -
  let ?md = "out_metadata o'"
  have main: "?lhs \<longleftrightarrow> ?P pb" if pb: "encode_payload (out_payload o') = Inr pb" for pb
  proof (cases "sorted_wrt (<) (map fst ?md) \<and> region_len ?md \<le> unat M \<and> length pb < 4294967296")
    case False
    then show ?thesis
      by (auto simp: encode_with_max_def and_then_eq_Inr pb checked_metadata_length_ok checked_simps)
  next
    case True
    define ml pl where "ml = (of_nat (region_len ?md) :: u64)" and "pl = (of_nat (length pb) :: u32)"
    have m: "region_len ?md < 65536" using True unat_u16_less [of M] by linarith
    have u: "unat ml = region_len ?md" "unat pl = length pb"
      using True m by (simp_all add: ml_def pl_def unat_of_nat)
    have c: "checked_metadata_length_with_max ?md M = Inr ml"
      using True u by (simp add: checked_metadata_length_ok)
    have p: "u32_try_from (length pb) = Some pl" using True u by (simp add: checked_simps)
    have h: "u64_try_from HEADER_LENGTH = Some 20" by (simp add: HEADER_LENGTH_def u64_try_from_def)
    obtain t where t: "checked_add_u64 20 ml = Some t" and ut: "unat t = 20 + region_len ?md"
      using m u by (cases "checked_add_u64 20 ml") (auto simp: checked_simps)
    obtain ft where ft: "checked_add_u64 t (ucast pl) = Some ft"
      and uft: "unat ft = 20 + region_len ?md + length pb"
      using m u ut True by (cases "checked_add_u64 t (ucast pl)") (auto simp: checked_simps)
    have w: "u16_try_from (unat ml) = Some (of_nat (region_len ?md))"
      using m u by (simp add: u16_try_from_def)
    show ?thesis
      using True m by (auto simp: encode_with_max_def pb c p h t ft w uft word_less_nat_alt not_less
          encode_metadata_ok header_bytes_def simp flip: pl_def)
  qed
  show ?thesis
    by (cases "encode_payload (out_payload o')")
       (use main in \<open>auto simp: encode_with_max_def and_then_eq_Inr\<close>)
qed

section \<open>Frames and what is sent to produce them\<close>

primrec outgoing_payload_of :: "payload \<Rightarrow> outgoing_payload" where
  "outgoing_payload_of (Opaque b) = OutOpaque b"
| "outgoing_payload_of (Warm n) = OutWarm n"
| "outgoing_payload_of (ErrorPayload detail text) = OutError detail text"

definition outgoing_of :: "frame \<Rightarrow> outgoing" where
  "outgoing_of f =
     \<lparr>out_kind = hdr_kind (frm_header f), out_code = hdr_code (frm_header f),
      out_request_id = request_id_value (hdr_request_id (frm_header f)),
      out_metadata = map (\<lambda>e. (md_identifier e, md_value e)) (frm_metadata f),
      out_payload = outgoing_payload_of (frm_payload f)\<rparr>"

definition frame_total :: "frame \<Rightarrow> usize" where
  "frame_total f = 20 + unat (hdr_metadata_length (frm_header f)) + unat (hdr_payload_length (frm_header f))"

text \<open>The payload shape each correlation carries.\<close>

fun payload_shape :: "correlation \<Rightarrow> payload \<Rightarrow> bool" where
  "payload_shape (OperationRequest opc) (Opaque b) \<longleftrightarrow>
     (opc = PING_OPCODE \<longrightarrow> b = []) \<and>
     (opc = SET_OPCODE \<longrightarrow> 4 \<le> length b \<and> 4 + unat (from_le_bytes (take 4 b) :: u32) \<le> length b)"
| "payload_shape HandshakeRequest (Opaque b) = True"
| "payload_shape (ResponseOf Success) (Opaque b) = True"
| "payload_shape (ResponseOf Absent) (Opaque b) \<longleftrightarrow> b = []"
| "payload_shape (ResponseOf ValueHeldOutsideMemory) (Warm n) = True"
| "payload_shape (ErrorOf s) (ErrorPayload detail text) = True"
| "payload_shape _ _ = False"

lemma region_bytes_region:
  "region_bytes (map (\<lambda>e. (md_identifier e, md_value e)) md) = metadata.region md"
  by (induction md) simp_all

lemma raw_header_parse_header_bytes:
  "raw_header_parse (header_bytes k code ml pl rid @ rest) =
     Some \<lparr>raw_version = 0, raw_kind = kind_value k, raw_flags = 0, raw_code = code,
           raw_metadata_length = ml, raw_payload_length = pl, raw_request_id = rid\<rparr>"
  by (simp add: raw_header_parse_Some header_bytes_def)

lemma header_bytes_of_raw:
  assumes "raw_header_parse input = Some raw" and "raw_version raw = 0" and "raw_flags raw = 0"
    and "raw_kind raw = kind_value k"
  shows "header_bytes k (raw_code raw) (raw_metadata_length raw) (raw_payload_length raw)
           (raw_request_id raw) = take 20 input"
proof -
  have len: "20 \<le> length input" using assms(1) by (rule parsed_long)
  have "to_le_bytes (0 :: u16) = take 2 (drop 2 input)"
    using assms len to_from_le_bytes_widths(1) [of "take 2 (drop 2 input)"]
    by (auto simp: raw_header_parse_Some)
  moreover have "take 2 input = [0, kind_value k]"
    using assms len by (cases input; cases "tl input") (auto simp: raw_header_parse_Some)
  moreover have "take 20 input = take 2 input @ take 2 (drop 2 input) @ take 2 (drop 4 input) @
      take 2 (drop 6 input) @ take 4 (drop 8 input) @ take 8 (drop 12 input)"
    using take_add [of 12 8 input] take_add [of 8 4 input] take_add [of 6 2 input]
      take_add [of 4 2 input] take_add [of 2 2 input] by simp
  ultimately show ?thesis
    using assms len by (simp add: raw_header_parse_Some header_bytes_def to_from_le_bytes_widths)
qed

lemma encode_read_payload:
  assumes "read_payload cor n pb = Inr p" and "unat n = length pb"
  shows "encode_payload (outgoing_payload_of p) = Inr pb \<and> payload_shape cor p"
proof (cases cor)
  case (ErrorOf s)
  define d where "d = (from_le_bytes (take 2 pb) :: u16)"
  have l: "2 + unat d \<le> length pb" and p: "p = ErrorPayload (take (unat d) (drop 2 pb)) (drop (2 + unat d) pb)"
    using assms ErrorOf by (auto simp: read_payload_def and_then_eq_Inr checked_simps slice_simps d_def
        split: if_splits)
  have "to_le_bytes d = take 2 pb" using l by (simp add: d_def to_from_le_bytes_widths)
  moreover have "take 2 pb @ take (unat d) (drop 2 pb) @ drop (2 + unat d) pb = pb"
    by (metis append_take_drop_id drop_drop add.commute)
  moreover have "u16_try_from (unat d) = Some d"
    using unat_u16_less [of d] by (simp add: checked_simps)
  ultimately show ?thesis using l p ErrorOf by (simp add: encode_payload_def)
next
  case (ResponseOf r)
  then show ?thesis
    using assms
    by (cases r) (auto simp: read_payload_def encode_payload_def and_then_eq_Inr slice_simps
        to_from_le_bytes_widths split: if_splits)
next
  case (OperationRequest opc)
  then show ?thesis
    using assms
    by (auto simp: read_payload_def check_operation_request_def encode_payload_def and_then_eq_Inr
        checked_simps slice_simps opcode_defs split: if_splits)
qed (use assms in \<open>auto simp: read_payload_def encode_payload_def\<close>)

lemma read_encode_payload:
  assumes "encode_payload (outgoing_payload_of p) = Inr pb" and "payload_shape cor p"
    and n: "unat n = length pb"
  shows "read_payload cor n pb = Inr p"
proof -
  have z: "n = 0 \<longleftrightarrow> pb = []" using n by (auto simp: unat_eq_zero)
  show ?thesis
  proof (cases p)
    case (ErrorPayload detail msg)
    then obtain s where c: "cor = ErrorOf s" using assms(2) by (cases cor) (auto elim: payload_shape.elims)
    obtain d where d: "length detail = unat d" and pb: "pb = to_le_bytes (d :: u16) @ detail @ msg"
      using assms(1) ErrorPayload by (auto simp: encode_payload_def and_then_eq_Inr checked_simps)
    have "\<not> n < 2" using n pb by (simp add: word_less_nat_alt)
    then show ?thesis
      using ErrorPayload c d pb unat_u16_less [of d]
      by (simp add: read_payload_def read_u16_le_def checked_add_usize_def get_range_def get_from_def)
  next
    case (Warm m)
    then have c: "cor = ResponseOf ValueHeldOutsideMemory"
      using assms(2) by (auto elim: payload_shape.elims)
    have pb: "pb = to_le_bytes m" using assms(1) Warm by (simp add: encode_payload_def)
    then have "n = 8" using n by (simp add: word_unat_eq_iff)
    then show ?thesis
      using Warm c pb by (simp add: read_payload_def read_u64_le_def checked_add_usize_def get_range_def)
  next
    case (Opaque b)
    then have b: "pb = b" using assms(1) by (simp add: encode_payload_def)
    show ?thesis
      using assms(2) Opaque b z n unat_u32_less [of "from_le_bytes (take 4 b)"]
      by (cases "(cor, p)" rule: payload_shape.cases)
         (auto simp: read_payload_def check_operation_request_def and_then_def ok_or_def
          read_u32_le_def checked_add_usize_def get_range_def opcode_defs)
  qed
qed

primrec payload_of :: "outgoing_payload \<Rightarrow> payload" where
  "payload_of (OutOpaque b) = Opaque b"
| "payload_of (OutWarm n) = Warm n"
| "payload_of (OutError detail text) = ErrorPayload detail text"

lemma payload_of_inverse [simp]:
  "outgoing_payload_of (payload_of q) = q" "payload_of (outgoing_payload_of p) = p"
  by (cases q, simp_all) (cases p, simp_all)

text \<open>What a receiver accepts of a frame the peer sends.\<close>

definition acceptable :: "admission \<Rightarrow> outgoing \<Rightarrow> bool" where
  "acceptable adm o' \<longleftrightarrow>
     kind_sender (out_kind o') \<noteq> adm_role adm \<and>
     is_ok (check_connection_state (adm_state adm) (out_kind o') (out_code o')) \<and>
     list_all (\<lambda>(i, v). i < 0x8000) (out_metadata o') \<and>
     (case correlate (out_kind o') (out_code o') (out_request_id o') (adm_in_flight adm) of
        Inl _ \<Rightarrow> False
      | Inr cor \<Rightarrow> payload_shape cor (payload_of (out_payload o')))"

definition entries_of :: "(u16 \<times> bytes) list \<Rightarrow> metadata_entry list" where
  "entries_of md = map (\<lambda>(i, v). metadata_entry_new i v) md"

lemma entries_of_inverse [simp]:
  "map (\<lambda>e. (md_identifier e, md_value e)) (entries_of md) = md"
  "entries_of (map (\<lambda>e. (md_identifier e, md_value e)) es) = es"
  by (induction md, simp_all add: entries_of_def metadata_entry_new_def split: prod.splits)
     (induction es, simp_all)

lemma region_len_value: "(i, v) \<in> set md \<Longrightarrow> 4 + length v \<le> region_len md"
  by (induction md) auto

lemma entries_of_parse:
  assumes "region_len md < 65536"
  shows "metadata_parse (region_bytes md) = Some (entries_of md)"
proof -
  have "metadata.fits (entries_of md)"
    using assms region_len_value [of _ _ md]
    by (fastforce simp: metadata.fits_def entries_of_def metadata_entry_new_def)
  moreover have "region_bytes md = metadata.region (entries_of md)"
    by (induction md) (auto simp: entries_of_def metadata_entry_new_def)
  ultimately show ?thesis by (simp add: metadata_parse_def metadata.parse_iff)
qed

lemma is_required_iff: "is_required e \<longleftrightarrow> 0x8000 \<le> md_identifier e"
  by (simp add: is_required_def and_high_bit)

lemma metadata_ordered_entries_of:
  "metadata_ordered (entries_of md) \<longleftrightarrow>
     sorted_wrt (<) (map fst md) \<and> list_all (\<lambda>(i, v). i < 0x8000) md"
proof -
  have "map md_identifier (entries_of md) = map fst md"
    by (induction md) (auto simp: entries_of_def metadata_entry_new_def)
  moreover have "list_all (\<lambda>e. \<not> is_required e) (entries_of md) \<longleftrightarrow> list_all (\<lambda>(i, v). i < 0x8000) md"
    by (induction md) (auto simp: is_required_iff entries_of_def metadata_entry_new_def)
  ultimately show ?thesis by (simp add: metadata_ordered_def)
qed

lemma decode_encoded:
  assumes enc: "encode_with_max o' F M = Inr out"
    and lim: "F \<le> frame_size (adm_limits adm)" "M \<le> metadata_size (adm_limits adm)"
    and acc: "acceptable adm o'"
  shows "\<exists>f. decode (out @ later) adm = Frame f \<and> outgoing_of f = o' \<and> frame_total f = length out"
proof -
  let ?md = "out_metadata o'" and ?k = "out_kind o'"
  obtain pb where pb: "encode_payload (out_payload o') = Inr pb" "length pb < 4294967296"
    and md: "sorted_wrt (<) (map fst ?md)" "region_len ?md \<le> unat M"
    and F: "20 + region_len ?md + length pb \<le> unat F"
    and out: "out = header_bytes ?k (out_code o') (of_nat (region_len ?md)) (of_nat (length pb))
                (out_request_id o') @ region_bytes ?md @ pb"
    using enc unfolding encode_with_max_ok by blast
  obtain cor where cor: "correlate ?k (out_code o') (out_request_id o') (adm_in_flight adm) = Inr cor"
    and shape: "payload_shape cor (payload_of (out_payload o'))"
    using acc by (auto simp: acceptable_def split: sum.splits)
  have m: "region_len ?md < 65536" using md unat_u16_less [of M] by linarith
  define raw where "raw = \<lparr>raw_version = 0, raw_kind = kind_value ?k, raw_flags = 0,
    raw_code = out_code o', raw_metadata_length = (of_nat (region_len ?md) :: u16),
    raw_payload_length = (of_nat (length pb) :: u32), raw_request_id = out_request_id o'\<rparr>"
  have len: "unat (raw_metadata_length raw) = region_len ?md" "unat (raw_payload_length raw) = length pb"
    using m pb(2) by (simp_all add: raw_def unat_of_nat)
  have fl: "frame_len raw = length out" by (simp add: frame_len_def len out)
  have parse: "raw_header_parse (out @ later) = Some raw"
    by (simp add: out raw_header_parse_header_bytes raw_def)
  have refusal: "header_refusal raw (adm_limits adm) = None"
    using F md lim fl m
    by (auto simp: header_refusal_def raw_def out word_le_nat_alt word_less_nat_alt unat_of_nat)
  have cc: "check_connection_state (adm_state adm) ?k (out_code o') = Inr ()"
    using acc by (cases "check_connection_state (adm_state adm) ?k (out_code o')") (auto simp: acceptable_def)
  have mo: "check_metadata_order (entries_of ?md) = Inr ()"
    using md acc by (simp add: metadata_ordered_entries_of acceptable_def)
  have rp: "read_payload cor (raw_payload_length raw) pb = Inr (payload_of (out_payload o'))"
    using pb shape len by (intro read_encode_payload) simp_all
  have dr: "take (region_len ?md) (drop 20 out) = region_bytes ?md" "drop (20 + region_len ?md) out = pb"
    by (simp_all add: out)
  have rf: "raw_kind raw = kind_value ?k" "raw_version raw = 0" "raw_flags raw = 0"
    "raw_code raw = out_code o'" "raw_request_id raw = out_request_id o'"
    by (simp_all add: raw_def)
  have sd: "kind_sender ?k \<noteq> adm_role adm" using acc by (simp add: acceptable_def)
  define f where "f = \<lparr>frm_header = \<lparr>hdr_version = Version 0, hdr_kind = ?k, hdr_flags = Flags 0,
      hdr_code = out_code o', hdr_metadata_length = raw_metadata_length raw,
      hdr_payload_length = raw_payload_length raw, hdr_request_id = RequestId (out_request_id o')\<rparr>,
    frm_metadata = entries_of ?md, frm_payload = payload_of (out_payload o'),
    frm_retires = retires_for ?k cor (out_request_id o')\<rparr>"
  have v: "frame_verdict raw out adm = Inr f"
    by (simp add: frame_verdict_def Let_def rf len dr entries_of_parse [OF m] sd cc cor mo rp f_def
        del: check_metadata_order_ok)
  have f: "outgoing_of f = o'" "frame_total f = frame_len raw"
    by (simp_all add: f_def outgoing_of_def frame_total_def frame_len_def)
  have "decode (out @ later) adm = Frame f"
    unfolding decode_Frame_iff using parse refusal v fl by (intro exI [of _ raw]) simp
  with f fl show ?thesis by auto
qed

text \<open>The facts a decoded frame rests on: its header, its metadata, its payload.\<close>

lemma decode_FrameE:
  assumes "decode input adm = Frame f"
  obtains raw k cor where
    "raw_header_parse input = Some raw" "raw_version raw = 0" "raw_flags raw = 0"
    "raw_kind raw = kind_value k" "frame_len raw \<le> length input"
    "frame_len raw \<le> unat (frame_size (adm_limits adm))"
    "raw_metadata_length raw \<le> metadata_size (adm_limits adm)"
    "metadata_parse (take (unat (raw_metadata_length raw)) (drop 20 input)) = Some (frm_metadata f)"
    "kind_sender k \<noteq> adm_role adm"
    "check_connection_state (adm_state adm) k (raw_code raw) = Inr ()"
    "correlate k (raw_code raw) (raw_request_id raw) (adm_in_flight adm) = Inr cor"
    "metadata_ordered (frm_metadata f)"
    "read_payload cor (raw_payload_length raw)
       (drop (20 + unat (raw_metadata_length raw)) (take (frame_len raw) input)) = Inr (frm_payload f)"
    "frm_header f = \<lparr>hdr_version = Version 0, hdr_kind = k, hdr_flags = Flags 0,
       hdr_code = raw_code raw, hdr_metadata_length = raw_metadata_length raw,
       hdr_payload_length = raw_payload_length raw, hdr_request_id = RequestId (raw_request_id raw)\<rparr>"
    "frm_retires f = retires_for k cor (raw_request_id raw)"
proof -
  from assms obtain raw where raw: "raw_header_parse input = Some raw"
    and ref: "header_refusal raw (adm_limits adm) = None" and len: "frame_len raw \<le> length input"
    and v: "frame_verdict raw (take (frame_len raw) input) adm = Inr f"
    unfolding decode_Frame_iff by blast
  from ref obtain k where k: "raw_version raw = 0" "raw_flags raw = 0" "raw_kind raw = kind_value k"
    "kind_from_wire (raw_kind raw) = Some k" "frame_len raw \<le> unat (frame_size (adm_limits adm))"
    "raw_metadata_length raw \<le> metadata_size (adm_limits adm)" by (rule header_refusal_None)
  have md: "take (unat (raw_metadata_length raw)) (drop 20 (take (frame_len raw) input)) =
      take (unat (raw_metadata_length raw)) (drop 20 input)"
    by (simp add: drop_take min_def frame_len_def)
  from v k(4) show ?thesis
    by (rule frame_verdict_OkE) (rule that [OF raw k(1,2,3) len k(5,6)], auto simp: md k)
qed

lemma take_three:
  "take (a + b + c) xs = take a xs @ take b (drop a xs) @ take c (drop (a + b) xs)"
  by (simp only: take_add [of "a + b" c] take_add [of a b] append_assoc)

lemma reencode_decoded:
  assumes "decode input adm = Frame f"
  shows "frame_total f \<le> length input \<and>
    encode_with_max (outgoing_of f) (frame_size (adm_limits adm)) (metadata_size (adm_limits adm)) =
      Inr (take (frame_total f) input)"
  using assms
proof (rule decode_FrameE)
  fix raw :: raw_header and k cor
  let ?ml = "unat (raw_metadata_length raw)" and ?md = "map (\<lambda>e. (md_identifier e, md_value e)) (frm_metadata f)"
  define pb where "pb = drop (20 + ?ml) (take (frame_len raw) input)"
  assume raw: "raw_header_parse input = Some raw" "raw_version raw = 0" "raw_flags raw = 0"
    "raw_kind raw = kind_value k" "frame_len raw \<le> length input"
    and lim: "frame_len raw \<le> unat (frame_size (adm_limits adm))"
      "raw_metadata_length raw \<le> metadata_size (adm_limits adm)"
    and md: "metadata_parse (take ?ml (drop 20 input)) = Some (frm_metadata f)"
    and ord: "metadata_ordered (frm_metadata f)"
    and pl: "read_payload cor (raw_payload_length raw) (drop (20 + ?ml) (take (frame_len raw) input)) =
      Inr (frm_payload f)"
    and h: "frm_header f = \<lparr>hdr_version = Version 0, hdr_kind = k, hdr_flags = Flags 0,
       hdr_code = raw_code raw, hdr_metadata_length = raw_metadata_length raw,
       hdr_payload_length = raw_payload_length raw, hdr_request_id = RequestId (raw_request_id raw)\<rparr>"
  have tot: "frame_total f = frame_len raw" by (simp add: frame_total_def frame_len_def h)
  have lpb: "length pb = unat (raw_payload_length raw)" using raw(5) by (simp add: pb_def frame_len_def)
  have epb: "encode_payload (outgoing_payload_of (frm_payload f)) = Inr pb"
    using encode_read_payload [OF pl] lpb by (simp add: pb_def)
  have rb: "region_bytes ?md = take ?ml (drop 20 input)"
    using md by (simp add: region_bytes_region metadata_parse_def metadata.parse_iff)
  then have rl: "region_len ?md = ?ml"
    using raw(5) by (simp add: frame_len_def flip: length_region_bytes)
  have srt: "sorted_wrt (<) (map fst ?md)" using ord by (simp add: metadata_ordered_def comp_def)
  have "pb = take (unat (raw_payload_length raw)) (drop (20 + ?ml) input)"
    by (simp add: pb_def drop_take frame_len_def)
  then have "take (frame_len raw) input = take 20 input @ take ?ml (drop 20 input) @ pb"
    by (simp only: frame_len_def take_three)
  with epb srt rl rb lim lpb show ?thesis
    using raw header_bytes_of_raw [OF raw(1-4)] unat_u32_less [of "raw_payload_length raw"]
    by (auto simp: encode_with_max_ok outgoing_of_def tot h frame_len_def word_le_nat_alt)
qed

lemma frame_total_decoded:
  assumes "decode input adm = Frame f" and "raw_header_parse input = Some raw"
  shows "frame_total f = frame_len raw"
  using assms(1)
proof (rule decode_FrameE)
  fix raw' :: raw_header and k
  assume "raw_header_parse input = Some raw'"
    and "frm_header f = \<lparr>hdr_version = Version 0, hdr_kind = k, hdr_flags = Flags 0,
       hdr_code = raw_code raw', hdr_metadata_length = raw_metadata_length raw',
       hdr_payload_length = raw_payload_length raw', hdr_request_id = RequestId (raw_request_id raw')\<rparr>"
  with assms(2) show ?thesis by (simp add: frame_total_def frame_len_def)
qed

text \<open>A frame decodes alone, and with only its own identifier in flight.\<close>

lemma decode_take:
  assumes "decode input adm = Frame f"
  shows "decode (take (frame_total f) input) adm = Frame f"
proof -
  from assms obtain raw where raw: "raw_header_parse input = Some raw"
    and rest: "header_refusal raw (adm_limits adm) = None" "frame_len raw \<le> length input"
      "frame_verdict raw (take (frame_len raw) input) adm = Inr f"
    unfolding decode_Frame_iff by blast
  have "frame_total f = frame_len raw" by (rule frame_total_decoded [OF assms raw])
  moreover have "raw_header_parse (take (frame_len raw) input) = Some raw"
    using raw parsed_long [OF raw] by (simp add: raw_header_parse_take frame_len_def)
  ultimately show ?thesis using rest unfolding decode_Frame_iff by (intro exI [of _ raw]) simp
qed

lemma decode_own_id:
  assumes "decode input adm = Frame f"
    and "request_id_value (hdr_request_id (frm_header f)) \<in> set (adm_in_flight adm)"
  shows "decode input (adm\<lparr>adm_in_flight := [request_id_value (hdr_request_id (frm_header f))]\<rparr>) = Frame f"
proof -
  let ?adm = "adm\<lparr>adm_in_flight := [request_id_value (hdr_request_id (frm_header f))]\<rparr>"
  from assms(1) obtain raw where raw: "raw_header_parse input = Some raw"
    and ref: "header_refusal raw (adm_limits adm) = None" "frame_len raw \<le> length input"
    and v: "frame_verdict raw (take (frame_len raw) input) adm = Inr f"
    unfolding decode_Frame_iff by blast
  obtain k where "kind_from_wire (raw_kind raw) = Some k" using ref(1) by (rule header_refusal_None)
  with v have rid: "request_id_value (hdr_request_id (frm_header f)) = raw_request_id raw"
    by (auto elim!: frame_verdict_OkE)
  have "correlate k code (raw_request_id raw) [raw_request_id raw] =
      correlate k code (raw_request_id raw) (adm_in_flight adm)" for k code
    using assms(2) rid by (cases k) (simp_all add: correlate_def Let_def cong: if_cong)
  then have "frame_verdict raw (take (frame_len raw) input) ?adm = Inr f"
    using v rid by (simp add: frame_verdict_def Let_def cong: if_cong)
  with raw ref show ?thesis unfolding decode_Frame_iff by (intro exI [of _ raw]) simp
qed

text \<open>Evaluation of the decoder on concrete bytes.\<close>

lemmas decode_eval = decode_def admit_def raw_header_parse_def get_at_def get_range_def get_from_def
  read_u16_le_def read_u32_le_def read_u64_le_def checked_add_usize_def from_le_bytes_def
  total_length_def HEADER_LENGTH_def u64_try_from_def checked_add_u64_def kind_from_wire_def
  metadata_parse_def metadata_parse_loop.simps metadata_entry_new_def is_required_iff
  check_metadata_order_def Let_def check_connection_state_def correlate_def error_class_from_wire_def
  result_code_from_wire_def read_payload_def retires_for_def PRE_NEGOTIATION_def MAX_FRAME_SIZE_def
  MAX_METADATA_SIZE_def

section \<open>Properties of the codec\<close>

text \<open>
  C5: whatever the encoder writes, a peer whose limits are no smaller decodes back, even when
  further bytes follow: if the peer accepts the frame at all (direction, connection state,
  correlation, metadata range, payload shape), it reads exactly the frame that was sent and
  consumes exactly the bytes that were written.
\<close>

theorem encode_decode_roundtrip:
  assumes "encode_with_max o' F M = Inr out"
    and "F \<le> frame_size (adm_limits adm)" and "M \<le> metadata_size (adm_limits adm)"
    and "acceptable adm o'"
  shows "\<exists>f. decode (out @ later) adm = Frame f \<and> outgoing_of f = o' \<and> frame_total f = length out"
  using assms by (rule decode_encoded)

definition sample_outgoing :: outgoing where
  "sample_outgoing = \<lparr>out_kind = Kind_Error, out_code = 4, out_request_id = 9,
     out_metadata = [(7, [1, 2])], out_payload = OutError [5] [6, 7]\<rparr>"

definition sample_bytes :: bytes where
  "sample_bytes = [0, 3, 0, 0, 4, 0, 6, 0, 5, 0, 0, 0, 9, 0, 0, 0, 0, 0, 0, 0,
     7, 0, 2, 0, 1, 2, 1, 0, 5, 6, 7]"

definition sample_admission :: admission where
  "sample_admission = \<lparr>adm_role = Client, adm_state = Negotiated, adm_limits = PRE_NEGOTIATION,
     adm_in_flight = [9]\<rparr>"

lemma sample_encoded: "encode_with_max sample_outgoing 65536 4096 = Inr sample_bytes"
  by (simp add: encode_with_max_ok encode_payload_def u16_try_from_def sample_outgoing_def
      sample_bytes_def header_bytes_def entry_bytes_def to_le_bytes_def)

lemma sample_acceptable: "acceptable sample_admission sample_outgoing"
  by (simp add: acceptable_def sample_admission_def sample_outgoing_def check_connection_state_def
      correlate_def error_class_from_wire_def)

theorem encode_decode_roundtrip_witness:
  "\<exists>f. decode (sample_bytes @ [1, 2, 3]) sample_admission = Frame f \<and>
       outgoing_of f = sample_outgoing \<and> frame_total f = length sample_bytes"
  by (rule encode_decode_roundtrip [OF sample_encoded _ _ sample_acceptable])
     (simp_all add: sample_admission_def PRE_NEGOTIATION_def MAX_FRAME_SIZE_def MAX_METADATA_SIZE_def)

definition sample_frame :: frame where
  "sample_frame =
     \<lparr>frm_header = \<lparr>hdr_version = Version 0, hdr_kind = Kind_Error, hdr_flags = Flags 0, hdr_code = 4,
        hdr_metadata_length = 6, hdr_payload_length = 5, hdr_request_id = RequestId 9\<rparr>,
      frm_metadata = [\<lparr>md_identifier = 7, md_value = [1, 2]\<rparr>],
      frm_payload = ErrorPayload [5] [6, 7],
      frm_retires = RequestId 9\<rparr>"

lemma sample_decoded: "decode (sample_bytes @ later) sample_admission = Frame sample_frame"
proof -
  have "decode sample_bytes sample_admission = Frame sample_frame"
    by (simp add: decode_eval sample_bytes_def sample_admission_def sample_frame_def)
  then show ?thesis by (rule decode_append_Frame)
qed

text \<open>
  C6: an admitted frame is exactly the bytes it was read from.  Handing a decoded frame back to
  the encoder, under the limits it was admitted with, reproduces the prefix of the input that the
  frame occupies, byte for byte, so the decoder accepts only canonical encodings and loses nothing.
\<close>

theorem decode_encode_exact:
  assumes "decode input adm = Frame f"
  shows "frame_total f \<le> length input \<and>
    encode_with_max (outgoing_of f) (frame_size (adm_limits adm)) (metadata_size (adm_limits adm)) =
      Inr (take (frame_total f) input)"
  using assms by (rule reencode_decoded)

theorem decode_encode_exact_witness:
  "frame_total sample_frame \<le> length (sample_bytes @ [8]) \<and>
   encode_with_max (outgoing_of sample_frame) (frame_size (adm_limits sample_admission))
     (metadata_size (adm_limits sample_admission)) =
   Inr (take (frame_total sample_frame) (sample_bytes @ [8]))"
  by (rule decode_encode_exact [OF sample_decoded])

text \<open>
  C7: what admission guarantees.  An admitted frame carries version 0 and zero flags, fits the
  frame and metadata limits, comes from the other peer, and its metadata identifiers ascend with
  none from the required range.  It is never admitted on a terminal connection; a request is the
  handshake exactly while the connection has not negotiated, and a response admitted then reports
  success.  A request names
  a fresh nonzero identifier and an assigned opcode; a response names an identifier in flight and
  an assigned result; an error has an assigned class.  The identifier it retires is the header's
  for a response and for a request-scoped error, and is then in flight; otherwise none.
\<close>

theorem admitted_frame_safe:
  assumes "decode input adm = Frame f"
  shows "hdr_version (frm_header f) = Version 0 \<and> hdr_flags (frm_header f) = Flags 0 \<and>
    frame_total f \<le> unat (frame_size (adm_limits adm)) \<and>
    hdr_metadata_length (frm_header f) \<le> metadata_size (adm_limits adm) \<and>
    kind_sender (hdr_kind (frm_header f)) \<noteq> adm_role adm \<and>
    adm_state adm \<noteq> Terminal \<and> metadata_ordered (frm_metadata f) \<and>
    (hdr_kind (frm_header f) = Kind_Request \<longrightarrow>
       (hdr_code (frm_header f) = HANDSHAKE_OPCODE \<longleftrightarrow> adm_state adm = PreNegotiation)) \<and>
    (adm_state adm = PreNegotiation \<and> hdr_kind (frm_header f) = Kind_Response \<longrightarrow> hdr_code (frm_header f) = 0) \<and>
    (case hdr_kind (frm_header f) of
       Kind_Request \<Rightarrow>
         request_id_value (hdr_request_id (frm_header f)) \<notin> insert 0 (set (adm_in_flight adm)) \<and>
         opcode_is_assigned (hdr_code (frm_header f)) \<and> frm_retires f = RequestId 0
     | Kind_Response \<Rightarrow>
         request_id_value (hdr_request_id (frm_header f)) \<in> set (adm_in_flight adm) - {0} \<and>
         (\<exists>r. hdr_code (frm_header f) = result_code_value r) \<and>
         frm_retires f = hdr_request_id (frm_header f)
     | Kind_Error \<Rightarrow>
         (\<exists>c. hdr_code (frm_header f) = error_class_value c \<and>
              (if error_class_scope c = RequestScoped
               then request_id_value (hdr_request_id (frm_header f)) \<in> set (adm_in_flight adm) - {0} \<and>
                    frm_retires f = hdr_request_id (frm_header f)
               else frm_retires f = RequestId 0)))"
proof (rule decode_FrameE [OF assms])
  fix raw :: raw_header and k cor
  assume c: "correlate k (raw_code raw) (raw_request_id raw) (adm_in_flight adm) = Inr cor"
    and st: "check_connection_state (adm_state adm) k (raw_code raw) = Inr ()"
    and h: "frm_header f = \<lparr>hdr_version = Version 0, hdr_kind = k, hdr_flags = Flags 0,
       hdr_code = raw_code raw, hdr_metadata_length = raw_metadata_length raw,
       hdr_payload_length = raw_payload_length raw, hdr_request_id = RequestId (raw_request_id raw)\<rparr>"
    and rest: "frame_len raw \<le> unat (frame_size (adm_limits adm))"
      "raw_metadata_length raw \<le> metadata_size (adm_limits adm)" "kind_sender k \<noteq> adm_role adm"
      "metadata_ordered (frm_metadata f)" "frm_retires f = retires_for k cor (raw_request_id raw)"
  have "adm_state adm \<noteq> Terminal"
      "k = Kind_Request \<longrightarrow> (raw_code raw = HANDSHAKE_OPCODE \<longleftrightarrow> adm_state adm = PreNegotiation)"
      "adm_state adm = PreNegotiation \<and> k = Kind_Response \<longrightarrow> raw_code raw = 0"
    using st by (auto simp: check_connection_state_def Let_def split: protocol_state.splits if_splits)
  with rest show ?thesis
    using correlate_cases [OF c]
    by (auto simp: h frame_total_def frame_len_def retires_for_def opcode_is_assigned_def
        split: kind.splits)
qed

theorem admitted_frame_safe_witness:
  "hdr_version (frm_header sample_frame) = Version 0 \<and> frame_total sample_frame \<le> 65536 \<and>
   metadata_ordered (frm_metadata sample_frame)"
  using admitted_frame_safe [OF sample_decoded]
  by (simp add: sample_admission_def PRE_NEGOTIATION_def MAX_FRAME_SIZE_def)

text \<open>
  C25: the decoder is incremental.  A frame decided on a prefix is decided the same way on every
  longer input; a failure keeps its classification, and a request-scoped one its consumed count.
  When the decoder asks for \<open>n\<close> bytes, the input is shorter than \<open>n\<close>, it keeps asking for exactly
  \<open>n\<close> until it has them, and \<open>n\<close> never exceeds the frame limit (or the header's 20 bytes).
\<close>

theorem decode_incremental:
  "case decode input adm of
     Frame f \<Rightarrow> decode (input @ later) adm = Frame f
   | Failure x n \<Rightarrow>
       decode (input @ later) adm =
         Failure x (if failure_scope x = RequestScoped then n else n + length later)
   | Need n \<Rightarrow>
       length input < n \<and> n \<le> max 20 (unat (frame_size (adm_limits adm))) \<and>
       (decode (input @ later) adm = Need n \<or> n \<le> length (input @ later))"
proof (cases "decode input adm")
  case (Need n)
  then have "n \<le> max 20 (unat (frame_size (adm_limits adm)))"
    by (auto simp: decode_Need_iff le_max_iff_disj elim: header_refusal_None)
  with Need decode_Need_longer [OF Need] decode_append_Need [OF Need, of later]
  show ?thesis by (auto simp: not_le [symmetric])
qed (simp_all add: decode_append_Frame decode_append_Failure)

text \<open>
  Once the header is readable and the input holds as many bytes as it announces, the decoder
  decides: it never asks again.  Together with the previous property a reader that feeds the
  decoder what it asked for makes at most two requests per frame.
\<close>

theorem decode_decides:
  assumes "decode input adm = Need n" and "20 \<le> length input" and "n \<le> length (input @ later)"
  shows "(\<exists>f. decode (input @ later) adm = Frame f \<and> frame_total f = n) \<or>
         (\<exists>x m. decode (input @ later) adm = Failure x m)"
proof (cases "decode (input @ later) adm")
  case (Need m)
  from assms obtain raw where "raw_header_parse input = Some raw" "n = frame_len raw"
    by (auto simp: decode_Need_iff)
  with Need assms parsed_append [of input raw later] show ?thesis by (auto simp: decode_Need_iff)
next
  case (Frame f)
  from assms obtain raw where raw: "raw_header_parse input = Some raw" "n = frame_len raw"
    by (auto simp: decode_Need_iff)
  with Frame frame_total_decoded parsed_append [OF raw(1)] show ?thesis by blast
qed simp

lemma sample_needs: "decode (take 25 sample_bytes) sample_admission = Need 31"
  by (simp add: decode_eval sample_bytes_def sample_admission_def)

theorem decode_decides_witness:
  "(\<exists>f. decode (take 25 sample_bytes @ [2, 1, 0, 5, 6, 7]) sample_admission = Frame f \<and> frame_total f = 31) \<or>
   (\<exists>x m. decode (take 25 sample_bytes @ [2, 1, 0, 5, 6, 7]) sample_admission = Failure x m)"
  by (rule decode_decides [OF sample_needs]) (simp_all add: sample_bytes_def)

lemma decode_failure_facts:
  assumes "decode input adm = Failure x n"
  shows "coherent x \<and> 20 \<le> n \<and> n \<le> length input \<and>
    (case failure_scope x of
       ConnectionFatal \<Rightarrow> n = length input
     | RequestScoped \<Rightarrow>
         (x = invalid_argument \<or> x = unsupported_operation \<and> adm_role adm = Server) \<and>
         (\<exists>raw. raw_header_parse input = Some raw \<and> n = frame_len raw))"
proof -
  from assms obtain raw where raw: "raw_header_parse input = Some raw"
    and c: "header_refusal raw (adm_limits adm) = Some x \<and> n = length input \<or>
      frame_len raw \<le> length input \<and>
      frame_verdict raw (take (frame_len raw) input) adm = Inl x \<and>
      n = (if failure_scope x = RequestScoped then frame_len raw else length input)"
    unfolding decode_Failure_iff by blast
  have len: "20 \<le> length input" "20 \<le> frame_len raw"
    using parsed_long [OF raw] by (simp_all add: frame_len_def)
  from c show ?thesis
  proof
    assume "header_refusal raw (adm_limits adm) = Some x \<and> n = length input"
    then show ?thesis using len by (auto simp: header_refusal_def split: if_splits)
  next
    assume "frame_len raw \<le> length input \<and>
      frame_verdict raw (take (frame_len raw) input) adm = Inl x \<and>
      n = (if failure_scope x = RequestScoped then frame_len raw else length input)"
    then show ?thesis
      using len raw frame_verdict_failure [of raw "take (frame_len raw) input" adm x] by auto
  qed
qed

text \<open>
  How failures are classified and how much input they account for.  Every failure carries the
  scope its class has; a connection-fatal one accounts for the whole input, a request-scoped one
  for exactly the offending frame, so the stream can be resumed behind it; and the only
  request-scoped failure a client can see is an invalid argument (its metadata check), while a
  server can also see an unsupported operation.
\<close>

theorem decode_failure_scope:
  assumes "decode input adm = Failure x n"
  shows "coherent x \<and> 20 \<le> n \<and> n \<le> length input \<and>
    (case failure_scope x of
       ConnectionFatal \<Rightarrow> n = length input
     | RequestScoped \<Rightarrow>
         (x = invalid_argument \<or> x = unsupported_operation \<and> adm_role adm = Server) \<and>
         (\<exists>raw. raw_header_parse input = Some raw \<and> n = frame_len raw))"
  using assms by (rule decode_failure_facts)

theorem decode_failure_scope_witness:
  "coherent unsupported_protocol_version \<and>
   decode (1 # tl sample_bytes) sample_admission = Failure unsupported_protocol_version 31"
proof -
  have d: "decode (1 # tl sample_bytes) sample_admission = Failure unsupported_protocol_version 31"
    by (simp add: decode_eval sample_bytes_def)
  show ?thesis using decode_failure_scope [OF d] d by simp
qed

lemma checked_metadata_length_loop_error:
  "unat len + region_len md < 18446744073709551616 \<Longrightarrow>
   checked_metadata_length_loop previous len md = Inl e \<Longrightarrow> e = MetadataNotAscending"
proof (induction previous len md rule: checked_metadata_length_loop.induct)
  case (2 previous len ident v rest)
  from "2.prems" show ?case
    by (auto simp: and_then_eq_Inl checked_simps split: if_splits intro!: "2.IH")
qed simp

lemma checked_metadata_length_error:
  assumes "checked_metadata_length_with_max md M = Inl e" and "region_len md < 18446744073709551616"
  shows "if sorted_wrt (<) (map fst md) then e = MetadataTooLarge \<and> unat M < region_len md
         else e = MetadataNotAscending"
proof (cases "checked_metadata_length_loop None 0 md")
  case (Inl e')
  then have "e' = MetadataNotAscending" "\<not> sorted_wrt (<) (map fst md)"
    using assms(2) checked_metadata_length_loop_error [of 0 md None]
      checked_metadata_length_loop_ok [of None 0 md "of_nat (region_len md)"]
    by (auto simp: unat_of_nat)
  with Inl assms(1) show ?thesis by (simp add: checked_metadata_length_with_max_def)
next
  case (Inr n)
  then have "sorted_wrt (<) (map fst md)" "unat n = region_len md"
    by (simp_all add: checked_metadata_length_loop_ok)
  with assms(1) Inr show ?thesis
    by (auto simp: checked_metadata_length_with_max_def word_less_nat_alt split: if_splits)
qed

lemma encode_frame_error:
  assumes "encode_with_max o' F M = Inl e" and "checked_metadata_length_with_max (out_metadata o') M = Inr n"
  shows "e = FrameTooLarge"
proof -
  have "unat n < 65536" "encode_metadata (out_metadata o') = Inr (region_bytes (out_metadata o'))"
    using assms(2) unat_u16_less [of M] by (auto simp: checked_metadata_length_ok encode_metadata_ok)
  with assms show ?thesis
    by (auto simp: encode_with_max_def encode_payload_def and_then_eq_Inl checked_simps
        split: if_splits outgoing_payload.splits)
qed

text \<open>
  The encoder's contract, errors included.  It refuses metadata whose identifiers do not
  ascend strictly, then a metadata region over its limit, then an error detail too long for its
  16-bit length field or a frame over the frame limit; in every other case it writes the header,
  the metadata and the payload, never truncating a length field, and the frame fits the limit.
  (A metadata region of \<open>2 ^ 64\<close> bytes or more does not exist in memory.)
\<close>

theorem encode_contract:
  assumes "region_len (out_metadata o') < 18446744073709551616"
  shows "encode_with_max o' F M =
    (if \<not> sorted_wrt (<) (map fst (out_metadata o')) then Inl MetadataNotAscending
     else if unat M < region_len (out_metadata o') then Inl MetadataTooLarge
     else case encode_payload (out_payload o') of
       Inl _ \<Rightarrow> Inl FrameTooLarge
     | Inr pb \<Rightarrow>
         if 4294967296 \<le> length pb \<or> unat F < 20 + region_len (out_metadata o') + length pb
         then Inl FrameTooLarge
         else Inr (header_bytes (out_kind o') (out_code o') (of_nat (region_len (out_metadata o')))
                (of_nat (length pb)) (out_request_id o') @ region_bytes (out_metadata o') @ pb))"
proof (cases "encode_with_max o' F M")
  case (Inr out)
  then show ?thesis unfolding encode_with_max_ok by (auto simp: Inr)
next
  case (Inl e)
  show ?thesis
  proof (cases "checked_metadata_length_with_max (out_metadata o') M")
    case Inl': (Inl e')
    with Inl have "e = e'" by (simp add: encode_with_max_def)
    with Inl checked_metadata_length_error [OF Inl' assms] show ?thesis by (simp split: if_splits)
  next
    case (Inr n)
    then have "sorted_wrt (<) (map fst (out_metadata o'))" "region_len (out_metadata o') \<le> unat M"
      by (simp_all add: checked_metadata_length_ok)
    moreover from this have "\<not> (length pb < 4294967296 \<and> 20 + region_len (out_metadata o') + length pb \<le> unat F)"
      if "encode_payload (out_payload o') = Inr pb" for pb
      using that Inl encode_with_max_ok [of o' F M] by auto
    ultimately show ?thesis
      using Inl encode_frame_error [OF Inl Inr] by (auto simp: not_le not_less split: sum.splits)
  qed
qed

theorem encode_contract_witness:
  "encode_with_max sample_outgoing 30 4096 = Inl FrameTooLarge \<and>
   encode_with_max sample_outgoing 65536 5 = Inl MetadataTooLarge"
proof -
  have "region_len (out_metadata sample_outgoing) < 18446744073709551616"
    by (simp add: sample_outgoing_def)
  from encode_contract [OF this, of 30 4096] encode_contract [OF this, of 65536 5] show ?thesis
    by (simp add: sample_outgoing_def encode_payload_def u16_try_from_def)
qed

end
