(* ===== verification/Commands.thy ===== *)
theory Commands
  imports Frame_Codec
begin

text \<open>
  The command codecs of \<open>src/src/command.rs\<close>: the payloads of the five operations and the
  interpretation of an admitted terminal frame as the caller's outcome.  The lemmas show that a
  \<open>SET\<close> payload determines its key and value and passes the receiver's structural check, and
  that interpreting an admitted frame is exact: the payload shape always matches the result code,
  so the defensive branches are never taken.
\<close>

section \<open>Outcomes and failures\<close>

datatype set_encode_error = KeyTooLong (key_length: usize) | PayloadTooLarge

primrec set_encode_error_display :: "set_encode_error \<Rightarrow> string" where
  "set_encode_error_display (KeyTooLong n) =
     ''the SET key length '' @ show_nat n @ '' exceeds the u32 range''"
| "set_encode_error_display PayloadTooLarge = ''the SET payload exceeds the u32 range''"

datatype get_outcome =
    Get_Present bytes
  | Get_Absent
  | Get_HeldOutsideMemory (held_logical_length: u64)

record command_failure =
  cmd_class :: error_class

definition command_failure_new :: "error_class \<Rightarrow> command_failure" where
  "command_failure_new c = \<lparr>cmd_class = c\<rparr>"

definition command_protocol_violation :: command_failure where
  "command_protocol_violation = command_failure_new ProtocolViolation"

definition command_failure_display :: "command_failure \<Rightarrow> string" where
  "command_failure_display f = error_class_name (cmd_class f)"

section \<open>Request payloads\<close>

definition encode_ping :: bytes where
  "encode_ping = []"

definition encode_key :: "bytes \<Rightarrow> bytes" where
  "encode_key key = key"

definition encode_set :: "bytes \<Rightarrow> bytes \<Rightarrow> set_encode_error + bytes" where
  "encode_set key v =
     and_then (ok_or (KeyTooLong (length key)) (u32_try_from (length key))) (\<lambda>key_length.
     and_then (ok_or PayloadTooLarge
                (do { total' \<leftarrow> checked_add_usize 4 (length key);
                      checked_add_usize total' (length v) })) (\<lambda>total'.
     if (4294967295 :: u64) < (case u64_try_from total' of Some t \<Rightarrow> t | None \<Rightarrow> 18446744073709551615)
     then Inl PayloadTooLarge
     else Inr (to_le_bytes key_length @ key @ v)))"

section \<open>Interpretation of terminal frames\<close>

definition result_code_of :: "frame \<Rightarrow> command_failure + result_code" where
  "result_code_of f = ok_or command_protocol_violation (result_code_from_wire (hdr_code (frm_header f)))"

definition error_of :: "frame \<Rightarrow> command_failure" where
  "error_of f =
     (case error_class_from_wire (hdr_code (frm_header f)) of
        None \<Rightarrow> command_protocol_violation
      | Some c \<Rightarrow> command_failure_new c)"

definition interpret_ping :: "frame \<Rightarrow> command_failure + unit" where
  "interpret_ping f =
     (case hdr_kind (frm_header f) of
        Kind_Response \<Rightarrow>
          and_then (result_code_of f) (\<lambda>code.
            if code \<noteq> Success then Inl command_protocol_violation else Inr ())
      | Kind_Error \<Rightarrow> Inl (error_of f)
      | Kind_Request \<Rightarrow> Inl command_protocol_violation)"

definition interpret_get :: "frame \<Rightarrow> command_failure + get_outcome" where
  "interpret_get f =
     (case hdr_kind (frm_header f) of
        Kind_Response \<Rightarrow>
          and_then (result_code_of f) (\<lambda>code.
            case code of
              Success \<Rightarrow>
                (case frm_payload f of
                   Opaque payload \<Rightarrow> Inr (Get_Present payload)
                 | _ \<Rightarrow> Inl command_protocol_violation)
            | Absent \<Rightarrow> Inr Get_Absent
            | ValueHeldOutsideMemory \<Rightarrow>
                (case frm_payload f of
                   Warm n \<Rightarrow> Inr (Get_HeldOutsideMemory n)
                 | _ \<Rightarrow> Inl command_protocol_violation))
      | Kind_Error \<Rightarrow> Inl (error_of f)
      | Kind_Request \<Rightarrow> Inl command_protocol_violation)"

definition interpret_set :: "frame \<Rightarrow> command_failure + unit" where
  "interpret_set f =
     (case hdr_kind (frm_header f) of
        Kind_Response \<Rightarrow>
          and_then (result_code_of f) (\<lambda>code.
            if code \<noteq> Success then Inl command_protocol_violation else Inr ())
      | Kind_Error \<Rightarrow> Inl (error_of f)
      | Kind_Request \<Rightarrow> Inl command_protocol_violation)"

definition interpret_del :: "frame \<Rightarrow> command_failure + bool" where
  "interpret_del f =
     (case hdr_kind (frm_header f) of
        Kind_Response \<Rightarrow>
          and_then (result_code_of f) (\<lambda>code.
            case code of
              Success \<Rightarrow> Inr True
            | Absent \<Rightarrow> Inr False
            | ValueHeldOutsideMemory \<Rightarrow> Inl command_protocol_violation)
      | Kind_Error \<Rightarrow> Inl (error_of f)
      | Kind_Request \<Rightarrow> Inl command_protocol_violation)"

definition interpret_exists :: "frame \<Rightarrow> command_failure + bool" where
  "interpret_exists f = interpret_del f"

section \<open>Laws\<close>

lemma encode_set_eq:
  "encode_set key v =
     (if 4294967296 \<le> length key then Inl (KeyTooLong (length key))
      else if 4294967296 \<le> 4 + length key + length v then Inl PayloadTooLarge
      else Inr (to_le_bytes (of_nat (length key) :: u32) @ key @ v))"
proof -
  have "(4294967295 :: u64) < of_nat n \<longleftrightarrow> 4294967296 \<le> n" if "n < 18446744073709551616" for n
    using that by (simp add: word_less_nat_alt unat_of_nat) linarith
  then show ?thesis
    by (auto simp: encode_set_def u32_try_from_def u64_try_from_def checked_add_usize_def
        simp del: of_nat_add)
qed

lemma decoded_shape:
  assumes "decode input adm = Frame f"
  shows "\<exists>cor. correlate (hdr_kind (frm_header f)) (hdr_code (frm_header f))
            (request_id_value (hdr_request_id (frm_header f))) (adm_in_flight adm) = Inr cor \<and>
          payload_shape cor (frm_payload f)"
  using assms
proof (rule decode_FrameE)
  fix raw :: raw_header and k cor
  assume len: "frame_len raw \<le> length input"
    and c: "correlate k (raw_code raw) (raw_request_id raw) (adm_in_flight adm) = Inr cor"
    and p: "read_payload cor (raw_payload_length raw)
       (drop (20 + unat (raw_metadata_length raw)) (take (frame_len raw) input)) = Inr (frm_payload f)"
    and h: "frm_header f = \<lparr>hdr_version = Version 0, hdr_kind = k, hdr_flags = Flags 0,
       hdr_code = raw_code raw, hdr_metadata_length = raw_metadata_length raw,
       hdr_payload_length = raw_payload_length raw, hdr_request_id = RequestId (raw_request_id raw)\<rparr>"
  have "payload_shape cor (frm_payload f)"
    using encode_read_payload [OF p] len by (simp add: frame_len_def)
  with c h show ?thesis by auto
qed

text \<open>
  A \<open>SET\<close> payload is faithful.  The encoder refuses exactly the keys longer than \<open>u32::MAX\<close> and the
  payloads longer than \<open>u32::MAX\<close>; whatever it writes passes the structural check a receiver makes
  and yields back the key and the value it was given.
\<close>

theorem encode_set_faithful:
  "case encode_set key v of
     Inl (KeyTooLong n) \<Rightarrow> n = length key \<and> 4294967295 < length key
   | Inl PayloadTooLarge \<Rightarrow> length key \<le> 4294967295 \<and> 4294967295 < 4 + length key + length v
   | Inr p \<Rightarrow>
       let n = unat (from_le_bytes (take 4 p) :: u32) in
       length p \<le> 4294967295 \<and> take n (drop 4 p) = key \<and> drop (4 + n) p = v \<and>
       check_operation_request SET_OPCODE (of_nat (length p)) p = Inr (Opaque p)"
proof -
  consider "4294967296 \<le> length key" | "length key < 4294967296" "4294967296 \<le> 4 + length key + length v"
    | "4 + length key + length v < 4294967296" by linarith
  then show ?thesis
    by cases (auto simp: encode_set_eq Let_def unat_of_nat check_operation_request_def opcode_defs
        read_u32_le_def checked_add_usize_def get_range_def)
qed

text \<open>
  Interpreting the answer to a \<open>GET\<close> is exact on every frame a client admits.  A response
  yields the value bytes, absence or the logical length according to its result code; an error
  frame yields the class on the wire; the defensive protocol-violation branches are unreachable.
\<close>

theorem interpret_get_exact:
  assumes "decode input adm = Frame f" and "adm_role adm = Client"
  shows "case hdr_kind (frm_header f) of
     Kind_Request \<Rightarrow> False
   | Kind_Error \<Rightarrow>
       (\<exists>c. hdr_code (frm_header f) = error_class_value c \<and> interpret_get f = Inl \<lparr>cmd_class = c\<rparr>)
   | Kind_Response \<Rightarrow>
       (\<exists>b. hdr_code (frm_header f) = 0 \<and> frm_payload f = Opaque b \<and> interpret_get f = Inr (Get_Present b)) \<or>
       (hdr_code (frm_header f) = 1 \<and> frm_payload f = Opaque [] \<and> interpret_get f = Inr Get_Absent) \<or>
       (\<exists>n. hdr_code (frm_header f) = 4 \<and> frm_payload f = Warm n \<and>
            interpret_get f = Inr (Get_HeldOutsideMemory n))"
proof -
  obtain cor where c: "correlate (hdr_kind (frm_header f)) (hdr_code (frm_header f))
      (request_id_value (hdr_request_id (frm_header f))) (adm_in_flight adm) = Inr cor"
    and p: "payload_shape cor (frm_payload f)" using decoded_shape [OF assms(1)] by blast
  have k: "hdr_kind (frm_header f) \<noteq> Kind_Request"
    using assms by (auto elim!: decode_FrameE simp: kind_sender_cases)
  from correlate_cases [OF c] k consider
      (resp) r where "hdr_kind (frm_header f) = Kind_Response" "hdr_code (frm_header f) = result_code_value r"
        "cor = ResponseOf r"
    | (err) e where "hdr_kind (frm_header f) = Kind_Error" "hdr_code (frm_header f) = error_class_value e"
    by auto
  then show ?thesis
  proof cases
    case resp
    then show ?thesis using p
      by (cases r; cases "frm_payload f") (auto simp: interpret_get_def result_code_of_def result_code_from_wire_def)
  next
    case err
    then show ?thesis by (simp add: interpret_get_def error_of_def command_failure_new_def)
  qed
qed

theorem interpret_get_exact_witness:
  "interpret_get sample_frame = Inl \<lparr>cmd_class = InvalidArgument\<rparr>"
proof -
  have "\<exists>c. 4 = error_class_value c \<and> interpret_get sample_frame = Inl \<lparr>cmd_class = c\<rparr>"
    using interpret_get_exact [OF sample_decoded] by (simp add: sample_admission_def sample_frame_def)
  then show ?thesis by (metis error_class_from_wire_value error_class_value.simps(4) option.inject)
qed

text \<open>
  The three boolean and unit interpreters agree with the result code on every frame a client
  admits: \<open>DEL\<close> and \<open>EXISTS\<close> answer true on success and false on absence, \<open>PING\<close> and \<open>SET\<close> succeed
  on success only, any other result is a protocol violation, and an error frame yields its class.
\<close>

theorem interpret_outcomes_exact:
  assumes "decode input adm = Frame f" and "adm_role adm = Client"
  shows "(\<exists>c. hdr_kind (frm_header f) = Kind_Error \<and> hdr_code (frm_header f) = error_class_value c \<and>
            interpret_del f = Inl \<lparr>cmd_class = c\<rparr> \<and> interpret_exists f = Inl \<lparr>cmd_class = c\<rparr> \<and>
            interpret_ping f = Inl \<lparr>cmd_class = c\<rparr> \<and> interpret_set f = Inl \<lparr>cmd_class = c\<rparr>) \<or>
         (\<exists>r. hdr_kind (frm_header f) = Kind_Response \<and> hdr_code (frm_header f) = result_code_value r \<and>
            interpret_del f = (case r of Success \<Rightarrow> Inr True | Absent \<Rightarrow> Inr False
              | ValueHeldOutsideMemory \<Rightarrow> Inl \<lparr>cmd_class = ProtocolViolation\<rparr>) \<and>
            interpret_exists f = interpret_del f \<and>
            interpret_ping f = (if r = Success then Inr () else Inl \<lparr>cmd_class = ProtocolViolation\<rparr>) \<and>
            interpret_set f = interpret_ping f)"
proof -
  obtain cor where c: "correlate (hdr_kind (frm_header f)) (hdr_code (frm_header f))
      (request_id_value (hdr_request_id (frm_header f))) (adm_in_flight adm) = Inr cor"
    using decoded_shape [OF assms(1)] by blast
  have k: "hdr_kind (frm_header f) \<noteq> Kind_Request"
    using assms by (auto elim!: decode_FrameE simp: kind_sender_cases)
  note defs = interpret_del_def interpret_exists_def interpret_ping_def interpret_set_def
    result_code_of_def error_of_def command_failure_new_def command_protocol_violation_def
  from correlate_cases [OF c] k consider
      (resp) r where "hdr_kind (frm_header f) = Kind_Response" "hdr_code (frm_header f) = result_code_value r"
    | (err) e where "hdr_kind (frm_header f) = Kind_Error" "hdr_code (frm_header f) = error_class_value e"
    by auto
  then show ?thesis
  proof cases
    case resp
    then show ?thesis by (intro disjI2 exI [of _ r]) (simp add: defs)
  next
    case err
    then show ?thesis by (intro disjI1 exI [of _ e]) (simp add: defs)
  qed
qed

theorem interpret_outcomes_exact_witness:
  "interpret_del sample_frame = Inl \<lparr>cmd_class = InvalidArgument\<rparr>"
proof -
  have "\<exists>c. error_class_value InvalidArgument = error_class_value c \<and> interpret_del sample_frame = Inl \<lparr>cmd_class = c\<rparr>"
    using interpret_outcomes_exact [OF sample_decoded] by (auto simp: sample_admission_def sample_frame_def)
  then show ?thesis by (metis error_class_from_wire_value option.inject)
qed

end
