(* ===== verification/Dispatch.thy ===== *)
theory Dispatch
  imports Frame_Codec
begin

text \<open>
  Request identity (\<open>src/src/connection/dispatch.rs\<close>): the allocator of initiator identifiers
  and the registry of identifiers in flight.  The registry's contract is the locale
  \<open>id_registry\<close>: it behaves as a finite set of nonzero identifiers, each admitted once and retired
  once.  The hash set of the source is modelled by a list without repetitions; its iteration order
  is immaterial, because the decoder reads the snapshot of live identifiers as a set.
\<close>

section \<open>The allocator\<close>

record request_id_allocator =
  alloc_next :: u64

definition allocator_new :: request_id_allocator where
  "allocator_new = \<lparr>alloc_next = 1\<rparr>"

definition allocator_with_start :: "u64 \<Rightarrow> request_id_allocator" where
  "allocator_with_start n = \<lparr>alloc_next = n\<rparr>"

definition allocate :: "request_id_allocator \<Rightarrow> u64 \<times> request_id_allocator" where
  "allocate a =
     (let a = (if alloc_next a = 0 then a\<lparr>alloc_next := 1\<rparr> else a);
          ident = alloc_next a;
          advanced = alloc_next a + 1
      in (ident, a\<lparr>alloc_next := if advanced = 0 then 1 else advanced\<rparr>))"

primrec allocations :: "nat \<Rightarrow> request_id_allocator \<Rightarrow> u64 list" where
  "allocations 0 a = []"
| "allocations (Suc n) a = (case allocate a of (i, a') \<Rightarrow> i # allocations n a')"

section \<open>The registry\<close>

datatype registry_error = Reserved | LiveReuse

record in_flight_registry =
  live :: "u64 list"

definition registry_new :: in_flight_registry where
  "registry_new = \<lparr>live = []\<rparr>"

definition registry_insert :: "in_flight_registry \<Rightarrow> u64 \<Rightarrow> registry_error + in_flight_registry" where
  "registry_insert r i =
     (if i = 0 then Inl Reserved
      else if List.member (live r) i then Inl LiveReuse
      else Inr (r\<lparr>live := i # live r\<rparr>))"

definition registry_retire :: "in_flight_registry \<Rightarrow> u64 \<Rightarrow> bool \<times> in_flight_registry" where
  "registry_retire r i = (List.member (live r) i, r\<lparr>live := remove1 i (live r)\<rparr>)"

definition registry_contains :: "in_flight_registry \<Rightarrow> u64 \<Rightarrow> bool" where
  "registry_contains r i = List.member (live r) i"

definition registry_len :: "in_flight_registry \<Rightarrow> usize" where
  "registry_len r = length (live r)"

definition registry_is_empty :: "in_flight_registry \<Rightarrow> bool" where
  "registry_is_empty r \<longleftrightarrow> live r = []"

definition live_ids :: "in_flight_registry \<Rightarrow> u64 list" where
  "live_ids r = live r"

section \<open>Laws of the allocator\<close>

lemma allocate_alt:
  "allocate a =
     (let i = (if alloc_next a = 0 then 1 else alloc_next a)
      in (i, a\<lparr>alloc_next := if i + 1 = 0 then 1 else i + 1\<rparr>))"
  by (simp add: allocate_def Let_def)

lemma allocate_position:
  assumes "m < 18446744073709551615"
  shows "allocate \<lparr>alloc_next = of_nat (m + 1)\<rparr> =
    (of_nat (m + 1), \<lparr>alloc_next = of_nat (Suc m mod 18446744073709551615 + 1)\<rparr>)"
proof -
  have ne: "(of_nat (m + 1) :: u64) \<noteq> 0"
    using assms by (simp add: word_unat_eq_iff unat_of_nat del: of_nat_add of_nat_Suc)
  show ?thesis
  proof (cases "Suc m = 18446744073709551615")
    case True
    then have "(of_nat (m + 1) :: u64) + 1 = 0"
      by (simp add: word_unat_eq_iff unat_of_nat unat_word_ariths del: of_nat_add of_nat_Suc)
    moreover have "(of_nat (Suc 0) :: u64) = 1" by simp
    ultimately show ?thesis
      using True ne by (simp add: allocate_alt Let_def del: of_nat_add of_nat_Suc)
  next
    case False
    then have "(of_nat (m + 1) :: u64) + 1 \<noteq> 0"
      using assms
      by (simp add: word_unat_eq_iff unat_of_nat unat_word_ariths del: of_nat_add of_nat_Suc)
    moreover have "(of_nat (m + 1) :: u64) + 1 = of_nat (Suc m + 1)" by simp
    ultimately show ?thesis
      using False assms ne by (simp add: allocate_alt Let_def del: of_nat_add of_nat_Suc)
  qed
qed

lemma allocations_from:
  "allocations n \<lparr>alloc_next = of_nat (m mod 18446744073709551615 + 1)\<rparr> =
     map (\<lambda>i. of_nat (i mod 18446744073709551615 + 1)) [m..<m + n]"
proof (induction n arbitrary: m)
  case 0
  then show ?case by simp
next
  case (Suc n)
  have "allocate \<lparr>alloc_next = of_nat (m mod 18446744073709551615 + 1)\<rparr> =
      (of_nat (m mod 18446744073709551615 + 1), \<lparr>alloc_next = of_nat (Suc m mod 18446744073709551615 + 1)\<rparr>)"
    by (subst allocate_position) (simp_all add: mod_Suc_eq del: of_nat_add of_nat_Suc)
  moreover have "[m..<m + Suc n] = m # [Suc m..<Suc m + n]" by (simp add: upt_conv_Cons)
  ultimately show ?case using Suc [of "Suc m"] by (simp del: of_nat_add of_nat_Suc)
qed

lemma mod_window_inj: "inj_on (\<lambda>i. i mod p) {m..<m + n}" if "n \<le> p" for m n p :: nat
proof (rule inj_onI)
  fix i j
  assume i: "i \<in> {m..<m + n}" and j: "j \<in> {m..<m + n}" and e: "i mod p = j mod p"
  show "i = j"
  proof (rule ccontr)
    assume "i \<noteq> j"
    then have "0 < max i j - min i j" "max i j - min i j < p" using i j that by auto
    moreover have "p dvd max i j - min i j"
    proof (cases "i \<le> j")
      case True
      with mod_eq_dvd_iff_nat [OF True, of p] e [symmetric] show ?thesis by (simp add: max_def min_def)
    next
      case False
      then have "j \<le> i" by simp
      with mod_eq_dvd_iff_nat [OF this, of p] e False show ?thesis by (simp add: max_def min_def)
    qed
    ultimately show False by (meson nat_dvd_not_less)
  qed
qed

section \<open>The registry's contract\<close>

locale id_registry =
  fixes emp :: 'r
    and ins :: "'r \<Rightarrow> u64 \<Rightarrow> registry_error + 'r"
    and ret :: "'r \<Rightarrow> u64 \<Rightarrow> bool \<times> 'r"
    and has :: "'r \<Rightarrow> u64 \<Rightarrow> bool"
    and ids :: "'r \<Rightarrow> u64 list"
    and inv :: "'r \<Rightarrow> bool"
  assumes emp_law: "inv emp \<and> ids emp = []"
    and ids_law: "inv r \<Longrightarrow> distinct (ids r) \<and> 0 \<notin> set (ids r)"
    and has_law: "inv r \<Longrightarrow> has r i \<longleftrightarrow> i \<in> set (ids r)"
    and ins_reserved: "inv r \<Longrightarrow> ins r 0 = Inl Reserved"
    and ins_live: "inv r \<Longrightarrow> i \<noteq> 0 \<Longrightarrow> has r i \<Longrightarrow> ins r i = Inl LiveReuse"
    and ins_fresh: "inv r \<Longrightarrow> i \<noteq> 0 \<Longrightarrow> \<not> has r i \<Longrightarrow>
      \<exists>r'. ins r i = Inr r' \<and> inv r' \<and> set (ids r') = insert i (set (ids r))"
    and ret_law: "inv r \<Longrightarrow> ret r i = (b, r') \<Longrightarrow>
      b = has r i \<and> inv r' \<and> set (ids r') = set (ids r) - {i}"
begin

lemma ins_ok: "inv r \<Longrightarrow> ins r i = Inr r' \<Longrightarrow>
    i \<noteq> 0 \<and> i \<notin> set (ids r) \<and> inv r' \<and> set (ids r') = insert i (set (ids r))"
  using ins_reserved [of r] ins_live [of r i] ins_fresh [of r i] has_law [of r i]
  by (cases "i = 0"; cases "has r i") auto

lemma ins_error: "inv r \<Longrightarrow> ins r i = Inl e \<Longrightarrow>
    i = 0 \<and> e = Reserved \<or> i \<in> set (ids r) \<and> e = LiveReuse"
  using ins_reserved [of r] ins_live [of r i] ins_fresh [of r i] has_law [of r i]
  by (cases "i = 0"; cases "has r i") auto

text \<open>An identifier is released once: a second retirement reports that it was not live.\<close>

lemma retire_once:
  assumes "inv r" and "ret r i = (b, r1)" and "ret r1 i = (c, r2)"
  shows "\<not> c \<and> set (ids r2) = set (ids r1)"
proof -
  have r1: "inv r1" "set (ids r1) = set (ids r) - {i}" using ret_law [OF assms(1,2)] by auto
  then show ?thesis using ret_law [OF r1(1) assms(3)] has_law [OF r1(1), of i] by auto
qed

text \<open>A retired identifier may be admitted again, a live one may not.\<close>

lemma reuse_after_retire:
  assumes "inv r" and "i \<noteq> 0" and "ret r i = (b, r1)"
  shows "\<exists>r2. ins r1 i = Inr r2 \<and> set (ids r2) = insert i (set (ids r))"
proof -
  have r1: "inv r1" "set (ids r1) = set (ids r) - {i}" using ret_law [OF assms(1,3)] by auto
  then have "\<not> has r1 i" using has_law by auto
  from ins_fresh [OF r1(1) assms(2) this] r1(2) show ?thesis by auto
qed

lemma live_count: "inv r \<Longrightarrow> length (ids r) = card (set (ids r))"
  using ids_law by (simp add: distinct_card)

end

definition registry_inv :: "in_flight_registry \<Rightarrow> bool" where
  "registry_inv r \<longleftrightarrow> distinct (live r) \<and> 0 \<notin> set (live r)"

interpretation reg: id_registry registry_new registry_insert registry_retire registry_contains
  live_ids registry_inv
  by unfold_locales
     (auto simp: registry_new_def registry_insert_def registry_retire_def registry_contains_def
      live_ids_def registry_inv_def)

text \<open>
  The allocator's sequence.  Starting from a new allocator, the \<open>i\<close>-th identifier handed out
  (counting from 0) is \<open>i mod (2 ^ 64 - 1) + 1\<close>: it starts at 1, increases by one, and wraps past
  the reserved 0, which is never allocated; any window of at most \<open>2 ^ 64 - 1\<close> consecutive
  allocations is free of repetitions.
\<close>

theorem allocator_sequence:
  assumes "n \<le> 18446744073709551615"
  shows "allocations (m + n) allocator_new =
      map (\<lambda>i. of_nat (i mod 18446744073709551615 + 1)) [0..<m + n] \<and>
    0 \<notin> set (allocations (m + n) allocator_new) \<and>
    distinct (drop m (allocations (m + n) allocator_new))"
proof -
  let ?f = "\<lambda>i :: nat. of_nat (i mod 18446744073709551615 + 1) :: u64"
  have seq: "allocations (m + n) allocator_new = map ?f [0..<m + n]"
    using allocations_from [of "m + n" 0] by (simp add: allocator_new_def)
  have u: "unat (?f i) = i mod 18446744073709551615 + 1" for i
    by (simp add: unat_of_nat del: of_nat_add of_nat_Suc)
  have nz: "0 \<noteq> ?f i" for i using u [of i] unat_0 [where ?'a = 64] by (metis add_is_0 one_neq_zero)
  have "0 \<notin> set (map ?f [0..<m + n])" unfolding set_map image_iff using nz by blast
  moreover have "inj_on ?f {m..<m + n}"
  proof (rule inj_onI)
    fix i j
    assume i: "i \<in> {m..<m + n}" "j \<in> {m..<m + n}" and e: "?f i = ?f j"
    from arg_cong [OF e, of unat] have "i mod 18446744073709551615 = j mod 18446744073709551615"
      unfolding u by (rule add_right_imp_eq)
    with i mod_window_inj [OF assms, of m] show "i = j" by (auto dest: inj_onD)
  qed
  ultimately show ?thesis by (simp add: seq drop_map distinct_map del: of_nat_add of_nat_Suc)
qed

theorem allocator_sequence_witness:
  "allocations (1 + 2) allocator_new = [1, 2, 3] \<and> distinct (drop 1 (allocations (1 + 2) allocator_new))"
proof -
  have le: "(2::nat) \<le> 18446744073709551615" by simp
  have "[0..<1 + 2] = [0, 1, 2::nat]" by (simp add: upt_rec)
  then show ?thesis using allocator_sequence [OF le, of 1] by simp
qed

text \<open>
  The registry is a set of live identifiers.  From any well-formed registry, admitting an
  identifier succeeds exactly when it is nonzero and not live and adds just that identifier, with
  the two refusals told apart; retiring reports whether it was live and removes just that one; both
  keep the registry well-formed, and the reported size is the number of live identifiers.
\<close>

theorem registry_refines_set:
  assumes "registry_inv r"
  shows "(case registry_insert r i of
            Inl Reserved \<Rightarrow> i = 0
          | Inl LiveReuse \<Rightarrow> i \<noteq> 0 \<and> i \<in> set (live_ids r)
          | Inr r' \<Rightarrow> i \<noteq> 0 \<and> i \<notin> set (live_ids r) \<and> registry_inv r' \<and>
                     set (live_ids r') = insert i (set (live_ids r))) \<and>
    (case registry_retire r i of
       (b, r') \<Rightarrow> (b \<longleftrightarrow> i \<in> set (live_ids r)) \<and> registry_inv r' \<and>
                  set (live_ids r') = set (live_ids r) - {i} \<and> fst (registry_retire r' i) = False) \<and>
    registry_len r = card (set (live_ids r)) \<and>
    (registry_is_empty r \<longleftrightarrow> set (live_ids r) = {})"
proof -
  obtain b r1 where r1: "registry_retire r i = (b, r1)" by (cases "registry_retire r i")
  obtain c r2 where r2: "registry_retire r1 i = (c, r2)" by (cases "registry_retire r1 i")
  have z: "i \<in> set (live_ids r) \<Longrightarrow> i \<noteq> 0" using reg.ids_law [OF assms] by auto
  have "registry_len r = card (set (live_ids r))"
    using reg.live_count [OF assms] by (simp add: registry_len_def live_ids_def)
  moreover have "registry_is_empty r \<longleftrightarrow> set (live_ids r) = {}"
    by (simp add: registry_is_empty_def live_ids_def)
  ultimately show ?thesis
    using reg.ret_law [OF assms r1] reg.retire_once [OF assms r1 r2] reg.has_law [OF assms, of i]
      reg.ins_ok [OF assms, of i] reg.ins_error [OF assms, of i] r1 r2 z
    by (auto split: sum.splits registry_error.splits)
qed

theorem registry_refines_set_witness:
  "registry_insert \<lparr>live = [3, 8]\<rparr> 8 = Inl LiveReuse \<and>
   fst (registry_retire (snd (registry_retire \<lparr>live = [3, 8]\<rparr> 3)) 3) = False"
proof -
  have "registry_inv \<lparr>live = [3, 8]\<rparr>" by (simp add: registry_inv_def)
  from registry_refines_set [OF this, of 3] registry_refines_set [OF this, of 8] show ?thesis
    by (auto simp: registry_insert_def split: prod.splits)
qed

text \<open>The order in which the hash set lists the live identifiers does not matter to the decoder.\<close>

lemma decode_ids_set:
  assumes "set xs = set ys"
  shows "decode input (adm\<lparr>adm_in_flight := xs\<rparr>) = decode input (adm\<lparr>adm_in_flight := ys\<rparr>)"
proof -
  have "List.member xs = List.member ys" using assms by (simp add: fun_eq_iff)
  then have "correlate k code rid xs = correlate k code rid ys" for k code rid
    by (simp only: correlate_def)
  then show ?thesis by (simp add: decode_def Let_def cong: sum.case_cong)
qed

end
