(* ===== verification/Transport.thy ===== *)
theory Transport
  imports Prelude
begin

text \<open>
  The transport boundary (\<open>src/src/transport/mod.rs\<close>) and the two loops that write a whole buffer
  through it (\<open>write_all\<close> of \<open>src/src/connection/driver.rs\<close> and of
  \<open>src/src/connection/mod.rs\<close>).  The Tokio TCP stream is not part of the sources: its three
  operations are the record \<open>stream_ops\<close>, a parameter of every definition that reaches it.  What
  the crate relies on is the locale \<open>byte_stream\<close>; the in-memory transport of the sources is an
  interpretation of it.
\<close>

section \<open>Errors of the standard library\<close>

datatype io_error_kind =
    WriteZero | InvalidData | BrokenPipe | ConnectionAborted | OtherKind nat

datatype io_error = IoError (io_kind: io_error_kind) (io_text: string)

section \<open>Streams\<close>

text \<open>
  A read is given the caller's buffer and answers how many bytes it stored, with the buffer as it
  is afterwards; a write is given the bytes and answers how many it took.  Each operation is awaited
  and need not resolve: a peer that stays silent leaves a read pending for ever, and one that stops
  reading leaves a write pending.  The three \<open>ready\<close> fields say in which states the operation
  resolves, and what it answers matters only there.
\<close>

record 't stream_ops =
  op_read :: "'t \<Rightarrow> bytes \<Rightarrow> (io_error + usize) \<times> bytes \<times> 't"
  op_write :: "'t \<Rightarrow> bytes \<Rightarrow> (io_error + usize) \<times> 't"
  op_shutdown :: "'t \<Rightarrow> (io_error + unit) \<times> 't"
  op_read_ready :: "'t \<Rightarrow> bool"
  op_write_ready :: "'t \<Rightarrow> bool"
  op_shutdown_ready :: "'t \<Rightarrow> bool"

section \<open>The in-memory transport\<close>

record in_memory_transport =
  mem_inbound :: bytes
  mem_read_step :: usize
  mem_written :: bytes
  mem_write_step :: usize
  mem_closed :: bool
  mem_fail_shutdown :: bool

definition memory_new :: "bytes \<Rightarrow> usize \<Rightarrow> usize \<Rightarrow> in_memory_transport" where
  "memory_new inbound read_step write_step =
     \<lparr>mem_inbound = inbound, mem_read_step = read_step, mem_written = [],
      mem_write_step = write_step, mem_closed = False, mem_fail_shutdown = False\<rparr>"

definition fail_on_shutdown :: "in_memory_transport \<Rightarrow> in_memory_transport" where
  "fail_on_shutdown t = t\<lparr>mem_fail_shutdown := True\<rparr>"

primrec memory_fill :: "usize \<Rightarrow> bytes \<Rightarrow> bytes \<Rightarrow> bytes \<times> bytes" where
  "memory_fill available inbound [] = ([], inbound)"
| "memory_fill available inbound (slot # slots) =
     (if available = 0 then (slot # slots, inbound)
      else let b = (case inbound of [] \<Rightarrow> 0 | b # _ \<Rightarrow> b);
               (buffer, inbound') = memory_fill (available - 1) (tl inbound) slots
           in (b # buffer, inbound'))"

definition memory_read ::
  "in_memory_transport \<Rightarrow> bytes \<Rightarrow> (io_error + usize) \<times> bytes \<times> in_memory_transport" where
  "memory_read t buffer =
     (if mem_closed t then (Inr 0, buffer, t)
      else let available = min (min (length buffer) (mem_read_step t)) (length (mem_inbound t));
               (buffer', inbound') = memory_fill available (mem_inbound t) buffer
           in (Inr available, buffer', t\<lparr>mem_inbound := inbound'\<rparr>))"

definition memory_write ::
  "in_memory_transport \<Rightarrow> bytes \<Rightarrow> (io_error + usize) \<times> in_memory_transport" where
  "memory_write t bs =
     (if mem_closed t then (Inl (IoError BrokenPipe ''closed''), t)
      else let step = max (mem_write_step t) 1;
               available = min (length bs) step;
               part = (case get_to bs available of Some p \<Rightarrow> p | None \<Rightarrow> [])
           in (Inr (length part), t\<lparr>mem_written := mem_written t @ part\<rparr>))"

definition memory_shutdown :: "in_memory_transport \<Rightarrow> (io_error + unit) \<times> in_memory_transport" where
  "memory_shutdown t =
     (if mem_fail_shutdown t then Inl (IoError BrokenPipe ''closed'') else Inr (),
      t\<lparr>mem_closed := True\<rparr>)"

section \<open>The transport a connection owns\<close>

datatype 't any_transport = Tcp 't | Memory in_memory_transport

definition any_read ::
  "'t stream_ops \<Rightarrow> 't any_transport \<Rightarrow> bytes \<Rightarrow> (io_error + usize) \<times> bytes \<times> 't any_transport" where
  "any_read tcp tr buffer =
     (case tr of
        Tcp t \<Rightarrow> (case op_read tcp t buffer of (r, b, t') \<Rightarrow> (r, b, Tcp t'))
      | Memory m \<Rightarrow> (case memory_read m buffer of (r, b, m') \<Rightarrow> (r, b, Memory m')))"

definition any_write ::
  "'t stream_ops \<Rightarrow> 't any_transport \<Rightarrow> bytes \<Rightarrow> (io_error + usize) \<times> 't any_transport" where
  "any_write tcp tr bs =
     (case tr of
        Tcp t \<Rightarrow> (case op_write tcp t bs of (r, t') \<Rightarrow> (r, Tcp t'))
      | Memory m \<Rightarrow> (case memory_write m bs of (r, m') \<Rightarrow> (r, Memory m')))"

definition any_shutdown ::
  "'t stream_ops \<Rightarrow> 't any_transport \<Rightarrow> (io_error + unit) \<times> 't any_transport" where
  "any_shutdown tcp tr =
     (case tr of
        Tcp t \<Rightarrow> (case op_shutdown tcp t of (r, t') \<Rightarrow> (r, Tcp t'))
      | Memory m \<Rightarrow> (case memory_shutdown m of (r, m') \<Rightarrow> (r, Memory m')))"

text \<open>The operations of the in-memory transport have no await inside: they always resolve.\<close>

definition any_read_ready :: "'t stream_ops \<Rightarrow> 't any_transport \<Rightarrow> bool" where
  "any_read_ready tcp tr = (case tr of Tcp t \<Rightarrow> op_read_ready tcp t | Memory _ \<Rightarrow> True)"

definition any_write_ready :: "'t stream_ops \<Rightarrow> 't any_transport \<Rightarrow> bool" where
  "any_write_ready tcp tr = (case tr of Tcp t \<Rightarrow> op_write_ready tcp t | Memory _ \<Rightarrow> True)"

definition any_shutdown_ready :: "'t stream_ops \<Rightarrow> 't any_transport \<Rightarrow> bool" where
  "any_shutdown_ready tcp tr = (case tr of Tcp t \<Rightarrow> op_shutdown_ready tcp t | Memory _ \<Rightarrow> True)"

text \<open>A stream all of whose operations resolve.\<close>

definition resolving :: "'t stream_ops \<Rightarrow> bool" where
  "resolving tcp \<longleftrightarrow> op_read_ready tcp = (\<lambda>_. True) \<and> op_write_ready tcp = (\<lambda>_. True) \<and> op_shutdown_ready tcp = (\<lambda>_. True)"

lemma resolving_ready:
  assumes "resolving tcp"
  shows "any_read_ready tcp tr" "any_write_ready tcp tr" "any_shutdown_ready tcp tr"
  using assms by (simp_all add: resolving_def any_read_ready_def any_write_ready_def any_shutdown_ready_def split: any_transport.split)

section \<open>Writing a whole buffer\<close>

text \<open>
  The write loop of the driver and of the handshake.  Every round that continues writes at least
  one byte, so the offset grows and the loop ends.
\<close>

function driver_write_all_loop ::
  "('s \<Rightarrow> bytes \<Rightarrow> (io_error + usize) \<times> 's) \<Rightarrow> bytes \<Rightarrow> usize \<Rightarrow> 's \<Rightarrow> (io_error + unit) \<times> 's" where
  "driver_write_all_loop wr bs offset s =
     (if offset < length bs then
        let remaining = (case get_from bs offset of Some r \<Rightarrow> r | None \<Rightarrow> []) in
        case wr s remaining of
          (Inl e, s') \<Rightarrow> (Inl e, s')
        | (Inr written, s') \<Rightarrow>
            if written = 0 then (Inl (IoError WriteZero ''the transport wrote no bytes''), s')
            else case checked_add_usize offset written of
              None \<Rightarrow> (Inl (IoError InvalidData ''the transport reported too many bytes written''), s')
            | Some next_offset \<Rightarrow> driver_write_all_loop wr bs next_offset s'
      else (Inr (), s))"
  by pat_completeness auto
termination
  by (relation "measure (\<lambda>(wr, bs, offset, s). length bs - offset)") (auto simp: checked_simps)

declare driver_write_all_loop.simps [simp del]

definition driver_write_all ::
  "'t stream_ops \<Rightarrow> 't any_transport \<Rightarrow> bytes \<Rightarrow> (io_error + unit) \<times> 't any_transport" where
  "driver_write_all tcp tr bs = driver_write_all_loop (any_write tcp) bs 0 tr"

section \<open>The contract of a byte stream\<close>

text \<open>
  \<open>sent\<close> is what the peer will read of this side's writes; \<open>pending\<close> is what this side has still
  to read.  A write takes a prefix of what it is given, which may be empty (the runtime documents
  that a write may answer 0, and both write loops turn that into an error); a failed write takes
  nothing; a read moves the front of \<open>pending\<close> into the front of the buffer.
\<close>

locale byte_stream =
  fixes wr :: "'s \<Rightarrow> bytes \<Rightarrow> (io_error + usize) \<times> 's"
    and rd :: "'s \<Rightarrow> bytes \<Rightarrow> (io_error + usize) \<times> bytes \<times> 's"
    and sent :: "'s \<Rightarrow> bytes"
    and pending :: "'s \<Rightarrow> bytes"
  assumes write_ok: "wr s bs = (Inr n, s') \<Longrightarrow> n \<le> length bs \<and> sent s' = sent s @ take n bs"
    and write_error: "wr s bs = (Inl e, s') \<Longrightarrow> sent s' = sent s"
    and read_ok: "rd s buf = (Inr n, buf', s') \<Longrightarrow> n \<le> length buf \<and> length buf' = length buf \<and>
      sent s' = sent s \<and> (n = 0 \<or> pending s = take n buf' @ pending s')"
begin

lemma write_all_from:
  assumes "length bs < 18446744073709551616"
  shows "offset \<le> length bs \<Longrightarrow> driver_write_all_loop wr bs offset s = (r, s') \<Longrightarrow>
    \<exists>k. k \<le> length bs - offset \<and> sent s' = sent s @ take k (drop offset bs) \<and>
        (r = Inr () \<longrightarrow> k = length bs - offset)"
proof (induction "length bs - offset" arbitrary: offset s rule: less_induct)
  case less
  show ?case
  proof (cases "offset < length bs")
    case False
    with less.prems show ?thesis by (subst (asm) driver_write_all_loop.simps) auto
  next
    case True
    obtain w s1 where w: "wr s (drop offset bs) = (w, s1)" by (cases "wr s (drop offset bs)")
    show ?thesis
    proof (cases w)
      case (Inl e)
      with True w less.prems write_error [of s "drop offset bs" e s1] show ?thesis
        by (subst (asm) driver_write_all_loop.simps) (auto simp: get_from_def intro: exI [of _ 0])
    next
      case (Inr n)
      with w have le: "n \<le> length bs - offset" and sent1: "sent s1 = sent s @ take n (drop offset bs)"
        using write_ok [of s "drop offset bs" n s1] by auto
      show ?thesis
      proof (cases "n = 0")
        case zero: True
        with True w Inr less.prems sent1 show ?thesis
          by (subst (asm) driver_write_all_loop.simps) (auto simp: get_from_def intro: exI [of _ 0])
      next
        case False
        with le have n: "0 < n" "n \<le> length bs - offset" by simp_all
        have "offset + n < 18446744073709551616" using n True assms by linarith
        then have "driver_write_all_loop wr bs (offset + n) s1 = (r, s')"
          using less.prems(2) True w Inr n
          by (subst (asm) driver_write_all_loop.simps) (auto simp: get_from_def checked_add_usize_def)
        moreover have "length bs - (offset + n) < length bs - offset" "offset + n \<le> length bs"
          using n True by auto
        ultimately obtain k where "k \<le> length bs - (offset + n)"
          "sent s' = sent s1 @ take k (drop (offset + n) bs)"
          "r = Inr () \<longrightarrow> k = length bs - (offset + n)" using less.hyps by blast
        moreover have "take (n + k) (drop offset bs) = take n (drop offset bs) @ take k (drop (offset + n) bs)"
          by (simp add: take_add drop_drop add.commute [of n offset])
        ultimately show ?thesis
          using sent1 n by (intro exI [of _ "n + k"]) auto
      qed
    qed
  qed
qed

text \<open>Writing everything either sends exactly the bytes, or fails having sent a prefix of them.\<close>

lemma write_all_contract:
  assumes "length bs < 18446744073709551616" and "driver_write_all_loop wr bs 0 s = (r, s')"
  shows "case r of Inr _ \<Rightarrow> sent s' = sent s @ bs
         | Inl _ \<Rightarrow> \<exists>k. sent s' = sent s @ take k bs"
  using write_all_from [OF assms(1) _ assms(2)] by (cases r) auto

end

section \<open>The in-memory transport is a byte stream\<close>

lemma memory_fill_eq:
  "available \<le> length buffer \<Longrightarrow> available \<le> length inbound \<Longrightarrow>
   memory_fill available inbound buffer =
     (take available inbound @ drop available buffer, drop available inbound)"
proof (induction buffer arbitrary: available inbound)
  case Nil
  then show ?case by simp
next
  case (Cons slot slots)
  then show ?case
    by (cases available; cases inbound) (auto simp: Let_def split: prod.splits)
qed

lemma memory_write_eq:
  "memory_write t bs =
     (if mem_closed t then (Inl (IoError BrokenPipe ''closed''), t)
      else let n = min (length bs) (max (mem_write_step t) 1)
           in (Inr n, t\<lparr>mem_written := mem_written t @ take n bs\<rparr>))"
  by (simp add: memory_write_def get_to_def Let_def)

lemma memory_read_eq:
  "memory_read t buffer =
     (if mem_closed t then (Inr 0, buffer, t)
      else let n = min (min (length buffer) (mem_read_step t)) (length (mem_inbound t))
           in (Inr n, take n (mem_inbound t) @ drop n buffer, t\<lparr>mem_inbound := drop n (mem_inbound t)\<rparr>))"
  by (simp add: memory_read_def memory_fill_eq Let_def)

interpretation mem: byte_stream memory_write memory_read mem_written mem_inbound
  by unfold_locales
     (auto simp: memory_write_eq memory_read_eq Let_def split: if_splits)

text \<open>A connection's transport is a byte stream as soon as the TCP stream is one.\<close>

definition any_sent :: "('t \<Rightarrow> bytes) \<Rightarrow> 't any_transport \<Rightarrow> bytes" where
  "any_sent sent tr = (case tr of Tcp t \<Rightarrow> sent t | Memory m \<Rightarrow> mem_written m)"

definition any_pending :: "('t \<Rightarrow> bytes) \<Rightarrow> 't any_transport \<Rightarrow> bytes" where
  "any_pending pending tr = (case tr of Tcp t \<Rightarrow> pending t | Memory m \<Rightarrow> mem_inbound m)"

lemma any_byte_stream:
  assumes "byte_stream (op_write tcp) (op_read tcp) sent pending"
  shows "byte_stream (any_write tcp) (any_read tcp) (any_sent sent) (any_pending pending)"
proof -
  note t = byte_stream.write_ok [OF assms] byte_stream.write_error [OF assms] byte_stream.read_ok [OF assms]
  note m = mem.write_ok mem.write_error mem.read_ok
  note d = any_write_def any_read_def any_sent_def any_pending_def
  show ?thesis
  proof
    fix s bs n s'
    assume "any_write tcp s bs = (Inr n, s')"
    then show "n \<le> length bs \<and> any_sent sent s' = any_sent sent s @ take n bs"
      by (auto simp: d dest: t m split: any_transport.splits prod.splits)
  next
    fix s bs e s'
    assume "any_write tcp s bs = (Inl e, s')"
    then show "any_sent sent s' = any_sent sent s"
      by (auto simp: d dest: t m split: any_transport.splits prod.splits)
  next
    fix s buf n buf' s'
    assume "any_read tcp s buf = (Inr n, buf', s')"
    then show "n \<le> length buf \<and> length buf' = length buf \<and> any_sent sent s' = any_sent sent s \<and>
        (n = 0 \<or> any_pending pending s = take n buf' @ any_pending pending s')"
      by (auto simp: d dest: t m split: any_transport.splits prod.splits)
  qed
qed

text \<open>A stream to evaluate on: the in-memory transport behind the TCP interface.\<close>

definition memory_ops :: "in_memory_transport stream_ops" where
  "memory_ops = \<lparr>op_read = memory_read, op_write = memory_write, op_shutdown = memory_shutdown,
     op_read_ready = (\<lambda>_. True), op_write_ready = (\<lambda>_. True), op_shutdown_ready = (\<lambda>_. True)\<rparr>"

lemma memory_ops_stream: "byte_stream (op_write memory_ops) (op_read memory_ops) mem_written mem_inbound"
  by (simp add: memory_ops_def mem.byte_stream_axioms)

lemma memory_ops_resolving: "resolving memory_ops"
  by (simp add: memory_ops_def resolving_def)

text \<open>
  The write loop delivers everything or stops at a prefix.  Over any TCP stream that takes a
  prefix of what it is given whenever it does not fail, a successful \<open>write_all\<close> has
  appended exactly the given bytes to what was sent, however short the individual writes, and a
  failed one has appended a prefix of them.
\<close>

theorem write_all_delivers:
  assumes "byte_stream (op_write tcp) (op_read tcp) sent pending"
    and "length bs < 18446744073709551616"
  shows "case driver_write_all tcp tr bs of
     (Inr _, tr') \<Rightarrow> any_sent sent tr' = any_sent sent tr @ bs
   | (Inl _, tr') \<Rightarrow> \<exists>k. any_sent sent tr' = any_sent sent tr @ take k bs"
proof -
  obtain r tr' where w: "driver_write_all_loop (any_write tcp) bs 0 tr = (r, tr')"
    by (cases "driver_write_all_loop (any_write tcp) bs 0 tr")
  from byte_stream.write_all_contract [OF any_byte_stream [OF assms(1)] assms(2) w] show ?thesis
    by (simp add: driver_write_all_def w split: sum.splits)
qed

theorem write_all_delivers_witness:
  "case driver_write_all memory_ops (Tcp (memory_new [] 1 2)) [1, 2, 3, 4, 5] of
     (Inr _, tr') \<Rightarrow> any_sent mem_written tr' = [1, 2, 3, 4, 5]
   | (Inl _, tr') \<Rightarrow> \<exists>k. any_sent mem_written tr' = take k [1, 2, 3, 4, 5]"
  using write_all_delivers [OF memory_ops_stream, of "[1, 2, 3, 4, 5]" "Tcp (memory_new [] 1 2)"]
  by (auto simp: any_sent_def memory_new_def split: prod.splits sum.splits)

end
