(* ===== verification/Lifecycle.thy ===== *)
theory Lifecycle
  imports Wire
begin

text \<open>
  The lifecycle state of a connection (\<open>src/src/connection/mod.rs\<close>) and the operations that move
  it: the driver's \<open>mark_state\<close> (\<open>src/src/connection/driver.rs\<close>), \<open>begin_closing\<close> and
  \<open>finish_close\<close>.  The states are ordered by progress: usable, closing, and the three terminal
  states, which are incomparable.  Each operation runs under the state's mutex, so it is one step.
\<close>

datatype connection_state = Usable | Closing | Closed | Failed | Unusable

primrec protocol_state_of :: "connection_state \<Rightarrow> protocol_state" where
  "protocol_state_of Usable = Negotiated"
| "protocol_state_of Closing = Negotiated"
| "protocol_state_of Closed = Terminal"
| "protocol_state_of Failed = Terminal"
| "protocol_state_of Unusable = Terminal"

definition state_is_usable :: "connection_state \<Rightarrow> bool" where
  "state_is_usable s \<longleftrightarrow> s = Usable"

definition is_terminal :: "connection_state \<Rightarrow> bool" where
  "is_terminal s \<longleftrightarrow> s = Closed \<or> s = Failed \<or> s = Unusable"

definition mark_state :: "connection_state \<Rightarrow> connection_state \<Rightarrow> connection_state" where
  "mark_state s next_state = (if s = Usable \<or> s = Closing then next_state else s)"

definition begin_closing :: "connection_state \<Rightarrow> connection_state" where
  "begin_closing s = Closing"

definition finish_close :: "connection_state \<Rightarrow> connection_state \<Rightarrow> connection_state" where
  "finish_close s next_state = (if s = Closing then next_state else s)"

definition mark_unusable_for_test :: "connection_state \<Rightarrow> connection_state" where
  "mark_unusable_for_test s = (if s = Closed \<or> s = Failed \<or> s = Unusable then s else Unusable)"

section \<open>The order of progress\<close>

primrec progress :: "connection_state \<Rightarrow> nat" where
  "progress Usable = 0"
| "progress Closing = 1"
| "progress Closed = 2"
| "progress Failed = 2"
| "progress Unusable = 2"

instantiation connection_state :: order
begin

definition less_eq_connection_state :: "connection_state \<Rightarrow> connection_state \<Rightarrow> bool" where
  "less_eq_connection_state s t \<longleftrightarrow> s = t \<or> progress s < progress t"

definition less_connection_state :: "connection_state \<Rightarrow> connection_state \<Rightarrow> bool" where
  "less_connection_state s t \<longleftrightarrow> progress s < progress t"

instance
  by standard (auto simp: less_eq_connection_state_def less_connection_state_def)

end

lemma is_terminal_iff: "is_terminal s \<longleftrightarrow> protocol_state_of s = Terminal"
  by (cases s) (simp_all add: is_terminal_def)

lemma not_terminal_iff: "\<not> is_terminal s \<longleftrightarrow> s = Usable \<or> s = Closing"
  by (cases s) (simp_all add: is_terminal_def)

lemma terminal_maximal: "is_terminal s \<Longrightarrow> s \<le> t \<Longrightarrow> t = s"
  by (cases s; cases t) (simp_all add: is_terminal_def less_eq_connection_state_def)

lemma is_terminal_mark_state [simp]: "is_terminal t \<Longrightarrow> is_terminal (mark_state s t)"
  by (cases s) (simp_all add: mark_state_def is_terminal_def)

lemma mark_state_terminal [simp]: "is_terminal s \<Longrightarrow> mark_state s t = s"
  by (auto simp: mark_state_def is_terminal_def)

lemma mark_state_monotone: "is_terminal t \<Longrightarrow> s \<le> mark_state s t"
  by (cases s; cases t) (simp_all add: mark_state_def is_terminal_def less_eq_connection_state_def)

lemma finish_close_monotone: "is_terminal t \<Longrightarrow> s \<le> finish_close s t"
  by (cases s; cases t) (simp_all add: finish_close_def is_terminal_def less_eq_connection_state_def)

text \<open>
  The terminal states are sticky for every operation that lands one.  Landing a terminal state
  through the driver, at the end of a close or by the test hook only ever moves a connection
  forward, and leaves a connection that has already ended exactly as it ended.
\<close>

theorem terminal_states_sticky:
  assumes "is_terminal t"
  shows "s \<le> mark_state s t \<and> s \<le> finish_close s t \<and> s \<le> mark_unusable_for_test s \<and>
    is_terminal (mark_state s t) \<and>
    (if is_terminal s
     then mark_state s t = s \<and> finish_close s t = s \<and> mark_unusable_for_test s = s
     else mark_state s t = t \<and> mark_unusable_for_test s = Unusable)"
  using assms mark_state_monotone [OF assms, of s] finish_close_monotone [OF assms, of s]
  by (cases s) (simp_all add: mark_state_def finish_close_def mark_unusable_for_test_def
      is_terminal_def less_eq_connection_state_def)

theorem terminal_states_sticky_witness:
  "mark_state Unusable Closed = Unusable \<and> mark_state Closing Failed = Failed"
proof -
  have "is_terminal Closed" "is_terminal Failed" "is_terminal Unusable" "\<not> is_terminal Closing"
    by (simp_all add: is_terminal_def)
  with terminal_states_sticky [of Closed Unusable] terminal_states_sticky [of Failed Closing]
  show ?thesis by simp
qed

text \<open>
  Starting a close is the one operation that is not guarded.  It moves a usable connection
  forward to closing, but a connection that ends between the caller's terminal check and this step
  is moved back: the terminal state it had reached, and the reason it carried, are lost.
\<close>

lemma begin_closing_unguarded:
  "(s \<le> begin_closing s \<longleftrightarrow> \<not> is_terminal s) \<and>
   (is_terminal s \<longleftrightarrow> begin_closing s < s) \<and> protocol_state_of (begin_closing s) = Negotiated"
  by (cases s) (simp_all add: begin_closing_def is_terminal_def less_eq_connection_state_def
      less_connection_state_def)

end
