(* ===== verification/Driver.thy ===== *)
theory Driver
  imports Dispatch Transport Lifecycle "HOL-Library.AList" "HOL-Library.Multiset"
begin

text \<open>
  The multiplexed driver of an established session (\<open>src/src/connection/driver.rs\<close>).  The mutable
  pieces the dispatch loop works on are the record \<open>session\<close>: the read buffer, the waiting
  callers by request identifier, the live registry, and a log of what each caller's one-shot
  channel was sent.  A channel is a number; sending is appending to the log, so \<open>exactly once\<close>
  is a statement about the log.  The hash map of waiting callers is an association list.

  The select loop is \<open>driver_step\<close>: one call runs one arm to its end, and the environment
  chooses which arm completes next, in any order the guards allow.
\<close>

section \<open>Submissions and outcomes\<close>

datatype driver_error =
    RequestFailed failure
  | FatalFailure failure
  | TransportFailed
  | DriverClosed
  | DriverUnusable

type_synonym channel = nat
type_synonym outcome = "driver_error + bytes"

record submit =
  sub_id :: u64
  sub_bytes :: bytes
  sub_completion :: channel

datatype driver_exit = Exit_Closed | Exit_Failed | Exit_Unusable

definition READ_CHUNK :: usize where
  "READ_CHUNK = 4096"

record session =
  ses_buffer :: bytes
  ses_completions :: "(u64 \<times> channel) list"
  ses_live :: in_flight_registry
  ses_log :: "(channel \<times> outcome) list"

definition session_new :: session where
  "session_new = \<lparr>ses_buffer = [], ses_completions = [], ses_live = registry_new, ses_log = []\<rparr>"

definition send :: "channel \<Rightarrow> outcome \<Rightarrow> session \<Rightarrow> session" where
  "send c r s = s\<lparr>ses_log := ses_log s @ [(c, r)]\<rparr>"

definition retire_live :: "u64 \<Rightarrow> session \<Rightarrow> session" where
  "retire_live i s = s\<lparr>ses_live := snd (registry_retire (ses_live s) i)\<rparr>"

definition forget :: "u64 \<Rightarrow> session \<Rightarrow> session" where
  "forget i s = s\<lparr>ses_completions := AList.delete i (ses_completions s)\<rparr>"

section \<open>Failing every waiter\<close>

primrec fail_ids :: "u64 list \<Rightarrow> driver_error \<Rightarrow> session \<Rightarrow> session" where
  "fail_ids [] e s = s"
| "fail_ids (i # is) e s =
     (let s = (case map_of (ses_completions s) i of
                 Some sender \<Rightarrow> send sender (Inl e) (forget i s)
               | None \<Rightarrow> s)
      in fail_ids is e (retire_live i s))"

definition fail_all :: "driver_error \<Rightarrow> session \<Rightarrow> session" where
  "fail_all e s = fail_ids (map fst (ses_completions s)) e s"

section \<open>Peeking at a buffered header\<close>

definition header_request_id :: "bytes \<Rightarrow> u64 option" where
  "header_request_id buffer =
     do { slice \<leftarrow> get_range buffer 12 20;
          array \<leftarrow> (if length slice = 8 then Some slice else None);
          Some (from_le_bytes array) }"

definition frame_total_len :: "bytes \<Rightarrow> usize option" where
  "frame_total_len buffer =
     (if length buffer < HEADER_LENGTH then None
      else do { m0 \<leftarrow> get_at buffer 6; m1 \<leftarrow> get_at buffer 7;
                p0 \<leftarrow> get_at buffer 8; p1 \<leftarrow> get_at buffer 9;
                p2 \<leftarrow> get_at buffer 10; p3 \<leftarrow> get_at buffer 11;
                let metadata_length = (from_le_bytes [m0, m1] :: u16);
                    payload_length = (from_le_bytes [p0, p1, p2, p3] :: u32) in
                do { h \<leftarrow> checked_add_usize HEADER_LENGTH (unat metadata_length);
                     checked_add_usize h
                       (case usize_try_from_u32 payload_length of
                          Some n \<Rightarrow> n | None \<Rightarrow> 18446744073709551615) } })"

section \<open>Dispatching buffered frames\<close>

definition client_admission :: "limits \<Rightarrow> u64 list \<Rightarrow> admission" where
  "client_admission lim ids =
     \<lparr>adm_role = Client, adm_state = Negotiated, adm_limits = lim, adm_in_flight = ids\<rparr>"

lemma frame_total_len_long: "frame_total_len b = Some n \<Longrightarrow> 20 \<le> n \<and> 20 \<le> length b"
  by (auto simp: frame_total_len_def HEADER_LENGTH_def bind_eq_Some_conv Let_def checked_simps
      split: if_splits)

lemma decode_failure_long: "decode b adm = Failure x n \<Longrightarrow> 20 \<le> n \<and> n \<le> length b"
  by (auto simp: decode_Failure_iff frame_len_def dest: parsed_long split: if_splits)

function drain_frames :: "limits \<Rightarrow> session \<Rightarrow> failure option \<times> session" where
  "drain_frames lim s =
     (case decode (ses_buffer s) (client_admission lim (live_ids (ses_live s))) of
        Need _ \<Rightarrow> (None, s)
      | Frame f \<Rightarrow>
          (let retiring = request_id_value (hdr_request_id (frm_header f)) in
           case frame_total_len (ses_buffer s) of
             None \<Rightarrow> (Some protocol_violation, s)
           | Some n \<Rightarrow>
               let frame_bytes = (case get_to (ses_buffer s) n of Some b \<Rightarrow> b | None \<Rightarrow> []);
                   s1 = s\<lparr>ses_buffer := drop (min n (length (ses_buffer s))) (ses_buffer s)\<rparr> in
               case map_of (ses_completions s1) retiring of
                 Some sender \<Rightarrow>
                   drain_frames lim (send sender (Inr frame_bytes) (retire_live retiring (forget retiring s1)))
               | None \<Rightarrow> (Some protocol_violation, s1))
      | Failure x consumed \<Rightarrow>
          if failure_scope x = RequestScoped then
            case header_request_id (ses_buffer s) of
              None \<Rightarrow> (Some protocol_violation, s)
            | Some i \<Rightarrow>
                let s1 = s\<lparr>ses_buffer := drop (min consumed (length (ses_buffer s))) (ses_buffer s)\<rparr> in
                case map_of (ses_completions s1) i of
                  Some sender \<Rightarrow>
                    drain_frames lim (send sender (Inl (RequestFailed x)) (retire_live i (forget i s1)))
                | None \<Rightarrow> (Some protocol_violation, s1)
          else (Some x, s))"
  by pat_completeness auto
termination
  by (relation "measure (\<lambda>(lim, s). length (ses_buffer s))")
     (auto simp: send_def retire_live_def forget_def dest!: frame_total_len_long decode_failure_long)

declare drain_frames.simps [simp del]

section \<open>Reading one chunk\<close>

definition read_chunk ::
  "'t stream_ops \<Rightarrow> 't any_transport \<Rightarrow> (io_error + bytes option) \<times> 't any_transport" where
  "read_chunk tcp tr =
     (case any_read tcp tr (replicate READ_CHUNK 0) of
        (Inl e, _, tr') \<Rightarrow> (Inl e, tr')
      | (Inr n, chunk, tr') \<Rightarrow>
          (if n = 0 then Inr None
           else Inr (Some (case get_to chunk n of Some b \<Rightarrow> b | None \<Rightarrow> [])), tr'))"

section \<open>The driver loop\<close>

record 't driver =
  drv_transport :: "'t any_transport"
  drv_session :: session
  drv_submit_closed :: bool
  drv_state :: connection_state
  drv_admission_closed :: bool

definition driver_new :: "'t any_transport \<Rightarrow> 't driver" where
  "driver_new tr =
     \<lparr>drv_transport = tr, drv_session = session_new, drv_submit_closed = False,
      drv_state = Usable, drv_admission_closed = False\<rparr>"

datatype driver_event = Ev_Shutdown | Ev_Submit submit | Ev_Submit_Closed | Ev_Read

text \<open>
  Every arm that ends the session fails the waiters, marks the shared state and closes admission.
\<close>

definition end_session :: "driver_error \<Rightarrow> connection_state \<Rightarrow> 't driver \<Rightarrow> 't driver" where
  "end_session e next_state d =
     d\<lparr>drv_session := fail_all e (drv_session d),
       drv_state := mark_state (drv_state d) next_state,
       drv_admission_closed := True\<rparr>"

definition loop_end :: "'t driver \<Rightarrow> driver_exit option \<times> 't driver" where
  "loop_end d =
     (if drv_submit_closed d \<and> ses_completions (drv_session d) = [] then (Some Exit_Closed, d)
      else (None, d))"

definition on_shutdown :: "'t stream_ops \<Rightarrow> 't driver \<Rightarrow> driver_exit option \<times> 't driver" where
  "on_shutdown tcp d =
     (let d = end_session DriverClosed Closed d in
      case any_shutdown tcp (drv_transport d) of
        (Inr _, tr) \<Rightarrow> (Some Exit_Closed, d\<lparr>drv_transport := tr\<rparr>)
      | (Inl _, tr) \<Rightarrow>
          (Some Exit_Failed, d\<lparr>drv_transport := tr, drv_state := mark_state (drv_state d) Failed\<rparr>))"

definition on_submit ::
  "'t stream_ops \<Rightarrow> submit \<Rightarrow> 't driver \<Rightarrow> driver_exit option \<times> 't driver" where
  "on_submit tcp sub d =
     (case registry_insert (ses_live (drv_session d)) (sub_id sub) of
        Inl _ \<Rightarrow>
          (Some Exit_Unusable,
           end_session DriverUnusable Unusable
             (d\<lparr>drv_session := send (sub_completion sub) (Inl DriverUnusable) (drv_session d)\<rparr>))
      | Inr live' \<Rightarrow>
          (let s = drv_session d;
               s = s\<lparr>ses_live := live',
                     ses_completions := AList.update (sub_id sub) (sub_completion sub) (ses_completions s)\<rparr>;
               (r, tr) = driver_write_all tcp (drv_transport d) (sub_bytes sub);
               d = d\<lparr>drv_session := s, drv_transport := tr\<rparr> in
           if \<not> is_ok r then (Some Exit_Failed, end_session TransportFailed Failed d)
           else loop_end d))"

definition on_submit_closed :: "'t driver \<Rightarrow> driver_exit option \<times> 't driver" where
  "on_submit_closed d =
     (let d = d\<lparr>drv_submit_closed := True\<rparr> in
      if ses_completions (drv_session d) = [] then (Some Exit_Closed, d) else loop_end d)"

definition on_read :: "'t stream_ops \<Rightarrow> limits \<Rightarrow> 't driver \<Rightarrow> driver_exit option \<times> 't driver" where
  "on_read tcp lim d =
     (case read_chunk tcp (drv_transport d) of
        (r, tr) \<Rightarrow>
          let d = d\<lparr>drv_transport := tr\<rparr> in
          (case r of
             Inr (Some chunk) \<Rightarrow>
               let s = drv_session d;
                   (f, s) = drain_frames lim (s\<lparr>ses_buffer := ses_buffer s @ chunk\<rparr>);
                   d = d\<lparr>drv_session := s\<rparr> in
               (case f of
                  Some x \<Rightarrow> (Some Exit_Unusable, end_session (FatalFailure x) Unusable d)
                | None \<Rightarrow>
                    if drv_submit_closed d \<and> ses_completions (drv_session d) = []
                    then (Some Exit_Closed, d) else loop_end d)
           | _ \<Rightarrow>
               if ses_completions (drv_session d) = [] \<and> drv_submit_closed d then (Some Exit_Closed, d)
               else if ses_completions (drv_session d) = [] then (None, d)
               else (Some Exit_Failed, end_session TransportFailed Failed d)))"

definition driver_step ::
  "'t stream_ops \<Rightarrow> limits \<Rightarrow> driver_event \<Rightarrow> 't driver \<Rightarrow> driver_exit option \<times> 't driver" where
  "driver_step tcp lim ev d =
     (case ev of
        Ev_Shutdown \<Rightarrow> on_shutdown tcp d
      | Ev_Submit sub \<Rightarrow> on_submit tcp sub d
      | Ev_Submit_Closed \<Rightarrow> on_submit_closed d
      | Ev_Read \<Rightarrow> on_read tcp lim d)"

end
