(* ===== verification/Config.thy ===== *)
theory Config
  imports Commands Driver
begin

text \<open>
  The configuration and the errors of \<open>src/src/connection/mod.rs\<close>: what a configuration holds and
  how it is validated, why a connection could not be established, and the structured failure of one
  command with its ambiguity and its scope.  A \<open>String\<close> is the list of its Unicode scalar values.
\<close>

section \<open>Defaults\<close>

definition DEFAULT_DESIRED_MAXIMUM_FRAME_SIZE :: u32 where
  "DEFAULT_DESIRED_MAXIMUM_FRAME_SIZE = 65536"

definition DEFAULT_LOCAL_MAXIMUM_FRAME_SIZE :: u64 where
  "DEFAULT_LOCAL_MAXIMUM_FRAME_SIZE = MINIMUM_NEGOTIATED_FRAME_SIZE"

definition DEFAULT_LOCAL_MAXIMUM_METADATA_SIZE :: u16 where
  "DEFAULT_LOCAL_MAXIMUM_METADATA_SIZE = MINIMUM_NEGOTIATED_METADATA_SIZE"

definition DEFAULT_MAXIMUM_IN_FLIGHT :: usize where
  "DEFAULT_MAXIMUM_IN_FLIGHT = 64"

definition MINIMUM_MAXIMUM_IN_FLIGHT :: usize where
  "MINIMUM_MAXIMUM_IN_FLIGHT = 1"

section \<open>Configuration\<close>

datatype connection_config_error =
    EmptyEndpoint
  | FrameSizeBelowFloor u32
  | LocalFrameSizeBelowFloor u64
  | LocalMetadataSizeBelowFloor u16
  | InFlightBoundBelowMinimum usize

primrec config_error_display :: "connection_config_error \<Rightarrow> string" where
  "config_error_display EmptyEndpoint = ''the endpoint is empty''"
| "config_error_display (FrameSizeBelowFloor n) =
     ''the desired maximum frame size '' @ show_nat (unat n) @ '' is below the floor 65536''"
| "config_error_display (LocalFrameSizeBelowFloor n) =
     ''the local maximum frame size '' @ show_nat (unat n) @ '' is below the floor 65536''"
| "config_error_display (LocalMetadataSizeBelowFloor n) =
     ''the local maximum metadata size '' @ show_nat (unat n) @ '' is below the floor 4096''"
| "config_error_display (InFlightBoundBelowMinimum n) =
     ''the maximum in-flight bound '' @ show_nat n @ '' is below the minimum 1''"

record connection_config =
  cfg_endpoint :: scalar_string
  cfg_desired_maximum_frame_size :: u32
  cfg_local_maximum_frame_size :: u64
  cfg_local_maximum_metadata_size :: u16
  cfg_maximum_in_flight :: usize

definition config_new :: "scalar_string \<Rightarrow> connection_config" where
  "config_new endpoint =
     \<lparr>cfg_endpoint = endpoint,
      cfg_desired_maximum_frame_size = DEFAULT_DESIRED_MAXIMUM_FRAME_SIZE,
      cfg_local_maximum_frame_size = DEFAULT_LOCAL_MAXIMUM_FRAME_SIZE,
      cfg_local_maximum_metadata_size = DEFAULT_LOCAL_MAXIMUM_METADATA_SIZE,
      cfg_maximum_in_flight = DEFAULT_MAXIMUM_IN_FLIGHT\<rparr>"

definition config_desired_maximum_frame_size :: "u32 \<Rightarrow> connection_config \<Rightarrow> connection_config" where
  "config_desired_maximum_frame_size v c = c\<lparr>cfg_desired_maximum_frame_size := v\<rparr>"

definition config_local_maximum_frame_size :: "u64 \<Rightarrow> connection_config \<Rightarrow> connection_config" where
  "config_local_maximum_frame_size v c = c\<lparr>cfg_local_maximum_frame_size := v\<rparr>"

definition config_local_maximum_metadata_size :: "u16 \<Rightarrow> connection_config \<Rightarrow> connection_config" where
  "config_local_maximum_metadata_size v c = c\<lparr>cfg_local_maximum_metadata_size := v\<rparr>"

definition config_maximum_in_flight :: "usize \<Rightarrow> connection_config \<Rightarrow> connection_config" where
  "config_maximum_in_flight v c = c\<lparr>cfg_maximum_in_flight := v\<rparr>"

definition config_default :: connection_config where
  "config_default = config_new (scalars ''127.0.0.1:6379'')"

definition validate :: "connection_config \<Rightarrow> connection_config_error + unit" where
  "validate c =
     (if trim (cfg_endpoint c) = [] then Inl EmptyEndpoint
      else if ucast (cfg_desired_maximum_frame_size c) < MINIMUM_NEGOTIATED_FRAME_SIZE
      then Inl (FrameSizeBelowFloor (cfg_desired_maximum_frame_size c))
      else if cfg_local_maximum_frame_size c < MINIMUM_NEGOTIATED_FRAME_SIZE
      then Inl (LocalFrameSizeBelowFloor (cfg_local_maximum_frame_size c))
      else if cfg_local_maximum_metadata_size c < MINIMUM_NEGOTIATED_METADATA_SIZE
      then Inl (LocalMetadataSizeBelowFloor (cfg_local_maximum_metadata_size c))
      else if cfg_maximum_in_flight c < MINIMUM_MAXIMUM_IN_FLIGHT
      then Inl (InFlightBoundBelowMinimum (cfg_maximum_in_flight c))
      else Inr ())"

section \<open>Establishment errors\<close>

datatype connect_error =
    InvalidConfiguration connection_config_error
  | Connect_Transport io_error
  | HandshakeFailure failure
  | ClosedDuringHandshake
  | NegotiatedFrameSizeAboveLocal u64 u64
  | NegotiatedMetadataSizeAboveLocal u16 u16
  | UnexpectedFrame

definition io_error_display :: "io_error \<Rightarrow> string" where
  "io_error_display e = io_text e"

primrec connect_error_display :: "connect_error \<Rightarrow> string" where
  "connect_error_display (InvalidConfiguration e) = ''invalid configuration: '' @ config_error_display e"
| "connect_error_display (Connect_Transport e) = ''transport failure: '' @ io_error_display e"
| "connect_error_display (HandshakeFailure f) = ''handshake failed: '' @ error_class_name (failure_class f)"
| "connect_error_display ClosedDuringHandshake = ''the peer closed during the handshake''"
| "connect_error_display (NegotiatedFrameSizeAboveLocal n l) =
     ''the negotiated maximum frame size '' @ show_nat (unat n) @ '' exceeds the local cap '' @ show_nat (unat l)"
| "connect_error_display (NegotiatedMetadataSizeAboveLocal n l) =
     ''the negotiated maximum metadata size '' @ show_nat (unat n) @ '' exceeds the local cap '' @ show_nat (unat l)"
| "connect_error_display UnexpectedFrame = ''the peer sent an unexpected frame''"

datatype error_source = Source_Config connection_config_error | Source_Io io_error

primrec connect_error_source :: "connect_error \<Rightarrow> error_source option" where
  "connect_error_source (InvalidConfiguration e) = Some (Source_Config e)"
| "connect_error_source (Connect_Transport e) = Some (Source_Io e)"
| "connect_error_source (HandshakeFailure f) = None"
| "connect_error_source ClosedDuringHandshake = None"
| "connect_error_source (NegotiatedFrameSizeAboveLocal n l) = None"
| "connect_error_source (NegotiatedMetadataSizeAboveLocal n l) = None"
| "connect_error_source UnexpectedFrame = None"

section \<open>Command outcomes and errors\<close>

datatype get_result = Present bytes | Missing | HeldOutsideMemory (result_logical_length: u64)

datatype command_error =
    LocalLimitExceeded (requested: u64) (limit: u64)
  | InvalidRequest
  | Cmd_UnsupportedOperation
  | Cmd_InvalidArgument
  | Cmd_Overloaded
  | Cmd_WrongType
  | Cmd_InternalError
  | Cmd_ProtocolViolation
  | Cmd_MalformedRequest
  | Cmd_ResourceLimit
  | Cmd_UnsupportedProtocolVersion
  | Cmd_Transport io_error
  | Cmd_Closed
  | Cmd_Unusable

primrec command_error_display :: "command_error \<Rightarrow> string" where
  "command_error_display (LocalLimitExceeded r l) =
     ''the request size '' @ show_nat (unat r) @ '' exceeds the effective limit '' @ show_nat (unat l)"
| "command_error_display InvalidRequest = ''the request cannot be represented''"
| "command_error_display Cmd_UnsupportedOperation = ''unsupported operation''"
| "command_error_display Cmd_InvalidArgument = ''invalid argument''"
| "command_error_display Cmd_Overloaded = ''overloaded''"
| "command_error_display Cmd_WrongType = ''wrong type''"
| "command_error_display Cmd_InternalError =
     ''internal error: the mutation may have taken effect; re-read to decide''"
| "command_error_display Cmd_ProtocolViolation = ''protocol violation''"
| "command_error_display Cmd_MalformedRequest = ''malformed request''"
| "command_error_display Cmd_ResourceLimit = ''resource limit''"
| "command_error_display Cmd_UnsupportedProtocolVersion = ''unsupported protocol version''"
| "command_error_display (Cmd_Transport e) = ''transport failure: '' @ io_error_display e"
| "command_error_display Cmd_Closed = ''the connection closed''"
| "command_error_display Cmd_Unusable = ''the session is unusable''"

definition command_error_source :: "command_error \<Rightarrow> error_source option" where
  "command_error_source e = (case e of Cmd_Transport io \<Rightarrow> Some (Source_Io io) | _ \<Rightarrow> None)"

definition is_ambiguous :: "command_error \<Rightarrow> bool" where
  "is_ambiguous e =
     (case e of Cmd_InternalError \<Rightarrow> True | Cmd_Transport _ \<Rightarrow> True | Cmd_Closed \<Rightarrow> True
      | Cmd_Unusable \<Rightarrow> True | _ \<Rightarrow> False)"

definition command_error_scope :: "command_error \<Rightarrow> failure_scope option" where
  "command_error_scope e =
     (case e of
        Cmd_UnsupportedOperation \<Rightarrow> Some RequestScoped
      | Cmd_InvalidArgument \<Rightarrow> Some RequestScoped
      | Cmd_Overloaded \<Rightarrow> Some RequestScoped
      | Cmd_WrongType \<Rightarrow> Some RequestScoped
      | Cmd_InternalError \<Rightarrow> Some RequestScoped
      | Cmd_ProtocolViolation \<Rightarrow> Some ConnectionFatal
      | Cmd_MalformedRequest \<Rightarrow> Some ConnectionFatal
      | Cmd_ResourceLimit \<Rightarrow> Some ConnectionFatal
      | Cmd_UnsupportedProtocolVersion \<Rightarrow> Some ConnectionFatal
      | _ \<Rightarrow> None)"

primrec from_class :: "error_class \<Rightarrow> command_error" where
  "from_class MalformedRequest = Cmd_MalformedRequest"
| "from_class UnsupportedProtocolVersion = Cmd_UnsupportedProtocolVersion"
| "from_class UnsupportedOperation = Cmd_UnsupportedOperation"
| "from_class InvalidArgument = Cmd_InvalidArgument"
| "from_class ResourceLimit = Cmd_ResourceLimit"
| "from_class Overloaded = Cmd_Overloaded"
| "from_class InternalError = Cmd_InternalError"
| "from_class ProtocolViolation = Cmd_ProtocolViolation"
| "from_class WrongType = Cmd_WrongType"

definition from_failure :: "failure \<Rightarrow> command_error" where
  "from_failure f = from_class (failure_class f)"

definition from_command_failure :: "command_failure \<Rightarrow> command_error" where
  "from_command_failure f = from_class (cmd_class f)"

primrec from_driver :: "driver_error \<Rightarrow> command_error" where
  "from_driver (RequestFailed f) = from_failure f"
| "from_driver (FatalFailure f) = from_failure f"
| "from_driver TransportFailed = Cmd_Transport (IoError ConnectionAborted ''the transport failed'')"
| "from_driver DriverClosed = Cmd_Closed"
| "from_driver DriverUnusable = Cmd_Unusable"

section \<open>Laws\<close>

text \<open>
  A configuration is accepted exactly when it can be honoured: the endpoint has a character
  that is not white space, the proposed frame size and the local frame cap reach the protocol floor
  of 65536, the local metadata cap reaches 4096, and at least one request may be in flight.  The
  default configuration of any such endpoint is accepted.
\<close>

theorem validate_iff:
  "(validate c = Inr () \<longleftrightarrow>
     \<not> list_all is_whitespace (cfg_endpoint c) \<and>
     65536 \<le> unat (cfg_desired_maximum_frame_size c) \<and>
     65536 \<le> unat (cfg_local_maximum_frame_size c) \<and>
     4096 \<le> unat (cfg_local_maximum_metadata_size c) \<and> 1 \<le> cfg_maximum_in_flight c) \<and>
   (validate (config_new endpoint) = Inr () \<longleftrightarrow> \<not> list_all is_whitespace endpoint) \<and>
   validate config_default = Inr ()"
proof -
  have iff: "validate c = Inr () \<longleftrightarrow>
     \<not> list_all is_whitespace (cfg_endpoint c) \<and>
     65536 \<le> unat (cfg_desired_maximum_frame_size c) \<and>
     65536 \<le> unat (cfg_local_maximum_frame_size c) \<and>
     4096 \<le> unat (cfg_local_maximum_metadata_size c) \<and> 1 \<le> cfg_maximum_in_flight c" for c
    by (simp add: validate_def trim_eq_Nil MINIMUM_NEGOTIATED_FRAME_SIZE_def
        MINIMUM_NEGOTIATED_METADATA_SIZE_def MINIMUM_MAXIMUM_IN_FLIGHT_def word_less_nat_alt not_less)
  show ?thesis
    by (simp add: iff config_default_def)
       (simp add: config_new_def scalars_def is_whitespace_def DEFAULT_DESIRED_MAXIMUM_FRAME_SIZE_def
        DEFAULT_LOCAL_MAXIMUM_FRAME_SIZE_def DEFAULT_LOCAL_MAXIMUM_METADATA_SIZE_def
        DEFAULT_MAXIMUM_IN_FLIGHT_def MINIMUM_NEGOTIATED_FRAME_SIZE_def
        MINIMUM_NEGOTIATED_METADATA_SIZE_def)
qed

text \<open>
  The protocol class of a failure survives the translation to a command error.  Distinct
  classes stay distinct, the scope a caller sees is the scope of the class, only the internal error
  class is ambiguous, and every driver failure that carries no class is reported as ambiguous.
\<close>

theorem command_error_preserves_class:
  "inj from_class \<and> command_error_scope (from_class c) = Some (error_class_scope c) \<and>
   (is_ambiguous (from_class c) \<longleftrightarrow> c = InternalError) \<and>
   (case e of
      RequestFailed f \<Rightarrow> from_driver e = from_class (failure_class f)
    | FatalFailure f \<Rightarrow> from_driver e = from_class (failure_class f)
    | _ \<Rightarrow> is_ambiguous (from_driver e) \<and> command_error_scope (from_driver e) = None)"
proof -
  have "inj from_class"
  proof (rule injI)
    fix a b assume "from_class a = from_class b"
    then show "a = b" by (cases a; cases b) simp_all
  qed
  then show ?thesis
    by (cases c; cases e) (simp_all add: command_error_scope_def is_ambiguous_def from_failure_def)
qed

end
