(* ===== verification/Establish.thy ===== *)
theory Establish
  imports Config
begin

text \<open>
  Establishing a connection (\<open>src/src/connection/mod.rs\<close>): the handshake request, its write loop,
  the bounded read loop for the response, its interpretation, the local caps, and the shared state
  a usable connection starts from.  A handshake that awaits an operation of the stream that never
  resolves does not return, which is the value \<open>None\<close> here: the sources put no deadline on it.  The
  read loop is a partial function: with reads that resolve it ends because every read that continues
  brings at least one byte, so that it returns is a theorem.
\<close>

section \<open>Constants\<close>

definition HANDSHAKE_REQUEST_ID :: u64 where
  "HANDSHAKE_REQUEST_ID = 1"

definition HANDSHAKE_READ_CHUNK :: usize where
  "HANDSHAKE_READ_CHUNK = 4096"

definition OFFER :: handshake_offer where
  "OFFER = \<lparr>minimum_protocol_version = 0, maximum_protocol_version = 0, capability_ids = []\<rparr>"

section \<open>Session state\<close>

record negotiated =
  neg_protocol_version :: u16
  neg_maximum_frame_size :: u64
  neg_maximum_metadata_size :: u16
  neg_accepted_capabilities :: "u16 list"
  neg_local_maximum_frame_size :: u64
  neg_local_maximum_metadata_size :: u16

definition effective_maximum_frame_size :: "negotiated \<Rightarrow> u64" where
  "effective_maximum_frame_size n =
     (if neg_maximum_frame_size n < neg_local_maximum_frame_size n
      then neg_maximum_frame_size n else neg_local_maximum_frame_size n)"

definition effective_maximum_metadata_size :: "negotiated \<Rightarrow> u16" where
  "effective_maximum_metadata_size n =
     (if neg_maximum_metadata_size n < neg_local_maximum_metadata_size n
      then neg_maximum_metadata_size n else neg_local_maximum_metadata_size n)"

text \<open>
  The admission source is the semaphore of the runtime: its free permits and whether it is closed.
  Whether the submit channel, the driver handle and the shutdown sender are still held is all the
  connection looks at; the transport is held only by a session without a driver.
\<close>

record semaphore =
  sem_permits :: usize
  sem_closed :: bool

record 't shared =
  sh_negotiated :: negotiated
  sh_state :: connection_state
  sh_transport :: "'t any_transport option"
  sh_admission :: semaphore
  sh_maximum_in_flight :: usize
  sh_submit_tx :: bool
  sh_allocator :: request_id_allocator
  sh_driver :: bool
  sh_shutdown_tx :: bool

section \<open>The handshake\<close>

definition build_handshake_request :: "connection_config \<Rightarrow> u64 \<Rightarrow> connect_error + bytes" where
  "build_handshake_request config request_id =
     (let request = handshake_request_new 0 0 (cfg_desired_maximum_frame_size config) [];
          payload = handshake_request_encode request in
      map_err (\<lambda>_. HandshakeFailure resource_limit)
        (encode \<lparr>out_kind = Kind_Request, out_code = HANDSHAKE_OPCODE, out_request_id = request_id,
                 out_metadata = [], out_payload = OutOpaque payload\<rparr>))"

function handshake_write_all_loop ::
  "('s \<Rightarrow> bool) \<Rightarrow> ('s \<Rightarrow> bytes \<Rightarrow> (io_error + usize) \<times> 's) \<Rightarrow> bytes \<Rightarrow> usize \<Rightarrow> 's \<Rightarrow>
   ((connect_error + unit) \<times> 's) option" where
  "handshake_write_all_loop ready wr bs offset s =
     (if offset < length bs then
        let remaining = (case get_from bs offset of Some r \<Rightarrow> r | None \<Rightarrow> []) in
        if \<not> ready s then None else
        case wr s remaining of
          (Inl e, s') \<Rightarrow> Some (Inl (Connect_Transport e), s')
        | (Inr written, s') \<Rightarrow>
            if written = 0
            then Some (Inl (Connect_Transport (IoError WriteZero ''the transport wrote no bytes'')), s')
            else case checked_add_usize offset written of
              None \<Rightarrow>
                Some (Inl (Connect_Transport
                   (IoError InvalidData ''the transport reported too many bytes written'')), s')
            | Some next_offset \<Rightarrow> handshake_write_all_loop ready wr bs next_offset s'
      else Some (Inr (), s))"
  by pat_completeness auto
termination
  by (relation "measure (\<lambda>(ready, wr, bs, offset, s). length bs - offset)") (auto simp: checked_simps)

declare handshake_write_all_loop.simps [simp del]

definition handshake_write_all ::
  "'t stream_ops \<Rightarrow> 't any_transport \<Rightarrow> bytes \<Rightarrow> ((connect_error + unit) \<times> 't any_transport) option" where
  "handshake_write_all tcp tr bs = handshake_write_all_loop (any_write_ready tcp) (any_write tcp) bs 0 tr"

definition interpret_response :: "frame \<Rightarrow> connection_config \<Rightarrow> connect_error + negotiated" where
  "interpret_response f config =
     (if hdr_kind (frm_header f) = Kind_Response \<and> hdr_code (frm_header f) = 0 then
        case frm_payload f of
          Opaque payload \<Rightarrow>
            and_then (map_err HandshakeFailure (handshake_response_decode payload OFFER)) (\<lambda>response.
              Inr \<lparr>neg_protocol_version = negotiated_protocol_version response,
                   neg_maximum_frame_size = ucast (negotiated_maximum_frame_size response),
                   neg_maximum_metadata_size = negotiated_maximum_metadata_size response,
                   neg_accepted_capabilities = map cap_identifier (accepted_capability_entries response),
                   neg_local_maximum_frame_size = cfg_local_maximum_frame_size config,
                   neg_local_maximum_metadata_size = cfg_local_maximum_metadata_size config\<rparr>)
        | _ \<Rightarrow> Inl UnexpectedFrame
      else if hdr_kind (frm_header f) = Kind_Error then
        Inl (HandshakeFailure
          (case error_class_from_wire (hdr_code (frm_header f)) of
             None \<Rightarrow> protocol_violation
           | Some c \<Rightarrow> failure_new c (error_class_scope c)))
      else Inl UnexpectedFrame)"

definition handshake_admission :: "u64 \<Rightarrow> admission" where
  "handshake_admission handshake_id =
     \<lparr>adm_role = Client, adm_state = PreNegotiation, adm_limits = PRE_NEGOTIATION,
      adm_in_flight = [handshake_id]\<rparr>"

partial_function (option) read_handshake_response_loop ::
  "'t stream_ops \<Rightarrow> connection_config \<Rightarrow> u64 \<Rightarrow> bytes \<Rightarrow> 't any_transport \<Rightarrow>
   ((connect_error + negotiated) \<times> 't any_transport) option" where
  "read_handshake_response_loop tcp config handshake_id buffer tr =
     (let buffer_cap = min (cfg_local_maximum_frame_size config) MAX_FRAME_SIZE in
      case decode buffer (handshake_admission handshake_id) of
        Frame f \<Rightarrow> Some (interpret_response f config, tr)
      | Failure x _ \<Rightarrow> Some (Inl (HandshakeFailure x), tr)
      | Need required \<Rightarrow>
          let bound = (case usize_try_from_u64 buffer_cap of Some n \<Rightarrow> n | None \<Rightarrow> 18446744073709551615) in
          if bound < required \<or> bound \<le> length buffer
          then Some (Inl (HandshakeFailure resource_limit), tr)
          else if \<not> any_read_ready tcp tr then None
          else case any_read tcp tr (replicate HANDSHAKE_READ_CHUNK 0) of
            (Inl e, _, tr') \<Rightarrow> Some (Inl (Connect_Transport e), tr')
          | (Inr n, chunk, tr') \<Rightarrow>
              if n = 0 then Some (Inl ClosedDuringHandshake, tr')
              else read_handshake_response_loop tcp config handshake_id
                     (buffer @ (case get_to chunk n of Some part \<Rightarrow> part | None \<Rightarrow> [])) tr')"

definition read_handshake_response ::
  "'t stream_ops \<Rightarrow> 't any_transport \<Rightarrow> connection_config \<Rightarrow> u64 \<Rightarrow>
   ((connect_error + negotiated) \<times> 't any_transport) option" where
  "read_handshake_response tcp tr config handshake_id =
     read_handshake_response_loop tcp config handshake_id [] tr"

section \<open>Establishment\<close>

text \<open>
  A session over TCP starts its driver, which takes the transport and the effective limits; the
  allocator of the session has spent the identifier the handshake used.
\<close>

record 't established =
  est_shared :: "'t shared"
  est_driver :: "(limits \<times> 't driver) option"

definition start_session ::
  "'t any_transport \<Rightarrow> connection_config \<Rightarrow> negotiated \<Rightarrow> 't established" where
  "start_session tr config n =
     (let bound = cfg_maximum_in_flight config;
          admission = \<lparr>sem_permits = bound, sem_closed = False\<rparr>;
          base = \<lparr>sh_negotiated = n, sh_state = Usable, sh_transport = None, sh_admission = admission,
                  sh_maximum_in_flight = bound, sh_submit_tx = True,
                  sh_allocator = snd (allocate allocator_new), sh_driver = True, sh_shutdown_tx = True\<rparr>
      in case tr of
           Tcp _ \<Rightarrow>
             \<lparr>est_shared = base,
              est_driver =
                Some (\<lparr>frame_size = min (neg_maximum_frame_size n) (cfg_local_maximum_frame_size config),
                       metadata_size = min (neg_maximum_metadata_size n) (cfg_local_maximum_metadata_size config)\<rparr>,
                      driver_new tr)\<rparr>
         | Memory _ \<Rightarrow>
             \<lparr>est_shared = base\<lparr>sh_transport := Some tr, sh_submit_tx := False, sh_allocator := allocator_new,
                               sh_driver := False, sh_shutdown_tx := False\<rparr>,
              est_driver = None\<rparr>)"

text \<open>A session refused for its limits is answered once the shutdown of the stream has resolved.\<close>

definition after_shutdown ::
  "'t stream_ops \<Rightarrow> 't any_transport \<Rightarrow> 'r \<Rightarrow> ('r \<times> 't any_transport) option" where
  "after_shutdown tcp tr r = (if any_shutdown_ready tcp tr then Some (r, snd (any_shutdown tcp tr)) else None)"

definition establish ::
  "'t stream_ops \<Rightarrow> 't any_transport \<Rightarrow> connection_config \<Rightarrow>
   ((connect_error + 't established) \<times> 't any_transport) option" where
  "establish tcp tr config =
     (let (handshake_id, _) = allocate allocator_new in
      if handshake_id \<noteq> HANDSHAKE_REQUEST_ID then Some (Inl (HandshakeFailure protocol_violation), tr) else
      case registry_insert registry_new handshake_id of
        Inl _ \<Rightarrow> Some (Inl (HandshakeFailure protocol_violation), tr)
      | Inr in_flight \<Rightarrow>
      (case build_handshake_request config handshake_id of
        Inl e \<Rightarrow> Some (Inl e, tr)
      | Inr frame_bytes \<Rightarrow>
      do { (w, tr1) \<leftarrow> handshake_write_all tcp tr frame_bytes;
      case w of
        Inl e \<Rightarrow> Some (Inl e, tr1)
      | Inr _ \<Rightarrow>
      do { (r, tr2) \<leftarrow> read_handshake_response tcp tr1 config handshake_id;
           case r of
             Inl e \<Rightarrow> Some (Inl e, tr2)
           | Inr n \<Rightarrow>
               let in_flight = snd (registry_retire in_flight handshake_id);
                   ids = live_ids in_flight in
               if registry_contains in_flight handshake_id \<or> \<not> registry_is_empty in_flight \<or>
                  registry_len in_flight \<noteq> length ids \<or> ids \<noteq> []
               then Some (Inl (HandshakeFailure protocol_violation), tr2)
               else if cfg_local_maximum_frame_size config < neg_maximum_frame_size n
               then after_shutdown tcp tr2 (Inl (NegotiatedFrameSizeAboveLocal (neg_maximum_frame_size n)
                                (cfg_local_maximum_frame_size config)))
               else if cfg_local_maximum_metadata_size config < neg_maximum_metadata_size n
               then after_shutdown tcp tr2 (Inl (NegotiatedMetadataSizeAboveLocal (neg_maximum_metadata_size n)
                                (cfg_local_maximum_metadata_size config)))
               else Some (Inr (start_session tr2 config n), tr2) } }))"

text \<open>Opening the TCP stream is the runtime's: its result is an argument.\<close>

definition connect ::
  "'t stream_ops \<Rightarrow> (scalar_string \<Rightarrow> io_error + 't) \<Rightarrow> connection_config \<Rightarrow>
   (connect_error + 't established) option" where
  "connect tcp open_stream config =
     (case validate config of
        Inl e \<Rightarrow> Some (Inl (InvalidConfiguration e))
      | Inr _ \<Rightarrow>
          (case open_stream (cfg_endpoint config) of
             Inl e \<Rightarrow> Some (Inl (Connect_Transport e))
           | Inr t \<Rightarrow> map_option fst (establish tcp (Tcp t) config)))"

section \<open>Laws of the handshake\<close>

lemma handshake_write_all_eq:
  "handshake_write_all_loop (\<lambda>_. True) wr bs offset s =
     (case driver_write_all_loop wr bs offset s of (r, s') \<Rightarrow> Some (map_err Connect_Transport r, s'))"
proof (induction wr bs offset s rule: driver_write_all_loop.induct)
  case (1 wr bs offset s)
  show ?case
    by (subst handshake_write_all_loop.simps, subst driver_write_all_loop.simps)
       (use 1 in \<open>auto simp: Let_def split: prod.splits sum.splits option.splits\<close>)
qed

text \<open>The request the offerer sends.\<close>

definition opening_request :: "connection_config \<Rightarrow> handshake_request" where
  "opening_request config = handshake_request_new 0 0 (cfg_desired_maximum_frame_size config) []"

lemma opening_request_ok: "request_ok (opening_request config)"
  by (simp add: opening_request_def request_ok_def entries_ok_def handshake_request_new_def
      capability_count_def)

lemma length_opening_request: "length (handshake_request_encode (opening_request config)) = 10"
  by (simp add: opening_request_def handshake_request_encode_def handshake_request_new_def
      capability_count_def)

lemma build_handshake_request_ok:
  "\<exists>bs. build_handshake_request config i = Inr bs \<and> length bs = 30 \<and>
     encode_with_max \<lparr>out_kind = Kind_Request, out_code = HANDSHAKE_OPCODE, out_request_id = i,
       out_metadata = [], out_payload = OutOpaque (handshake_request_encode (opening_request config))\<rparr>
       MAX_FRAME_SIZE MAX_METADATA_SIZE = Inr bs"
proof -
  let ?o = "\<lparr>out_kind = Kind_Request, out_code = HANDSHAKE_OPCODE, out_request_id = i,
       out_metadata = [], out_payload = OutOpaque (handshake_request_encode (opening_request config))\<rparr>"
  have "\<exists>bs. encode_with_max ?o MAX_FRAME_SIZE MAX_METADATA_SIZE = Inr bs \<and> length bs = 30"
    by (simp add: encode_with_max_ok encode_payload_def length_opening_request MAX_FRAME_SIZE_def)
  then show ?thesis
    by (auto simp: build_handshake_request_def encode_def Let_def opening_request_def)
qed

lemma interpret_response_ok:
  assumes "interpret_response f config = Inr n"
  shows "neg_protocol_version n = 0 \<and> neg_accepted_capabilities n = [] \<and>
    65536 \<le> neg_maximum_frame_size n \<and> 4096 \<le> neg_maximum_metadata_size n \<and>
    neg_local_maximum_frame_size n = cfg_local_maximum_frame_size config \<and>
    neg_local_maximum_metadata_size n = cfg_local_maximum_metadata_size config"
proof -
  from assms obtain p r where d: "handshake_response_decode p OFFER = Inr r"
    and n: "n = \<lparr>neg_protocol_version = negotiated_protocol_version r,
                 neg_maximum_frame_size = ucast (negotiated_maximum_frame_size r),
                 neg_maximum_metadata_size = negotiated_maximum_metadata_size r,
                 neg_accepted_capabilities = map cap_identifier (accepted_capability_entries r),
                 neg_local_maximum_frame_size = cfg_local_maximum_frame_size config,
                 neg_local_maximum_metadata_size = cfg_local_maximum_metadata_size config\<rparr>"
    by (auto simp: interpret_response_def and_then_eq_Inr split: if_splits payload.splits)
  have "accepted_capability_entries r = []"
    using response_decode_fields(10) [OF d] by (cases "accepted_capability_entries r") (auto simp: OFFER_def)
  with response_decode_fields(7-9) [OF d] n show ?thesis
    by (simp add: contains_version_def OFFER_def)
qed

lemma read_loop_returns:
  assumes stream: "byte_stream (any_write tcp) (any_read tcp) sent pending" and ready: "\<And>tr. any_read_ready tcp tr"
  shows "\<exists>r. read_handshake_response_loop tcp config i buffer tr = Some r"
proof (induction "65536 - length buffer" arbitrary: buffer tr rule: less_induct)
  case less
  let ?bound = "unat (min (cfg_local_maximum_frame_size config) MAX_FRAME_SIZE)"
  show ?case
  proof (cases "decode buffer (handshake_admission i)")
    case (Need required)
    show ?thesis
    proof (cases "?bound < required \<or> ?bound \<le> length buffer")
      case True
      with Need show ?thesis by (subst read_handshake_response_loop.simps) (simp add: Let_def)
    next
      case False
      have b: "?bound \<le> 65536" by (simp add: MAX_FRAME_SIZE_def min_def word_le_nat_alt)
      obtain x chunk tr' where rd: "any_read tcp tr (replicate HANDSHAKE_READ_CHUNK 0) = (x, chunk, tr')"
        by (cases "any_read tcp tr (replicate HANDSHAKE_READ_CHUNK 0)")
      show ?thesis
      proof (cases x)
        case (Inl e)
        with Need False rd show ?thesis by (subst read_handshake_response_loop.simps) (simp add: Let_def ready)
      next
        case (Inr n)
        with byte_stream.read_ok [OF stream] rd have n: "n \<le> length chunk" by fastforce
        show ?thesis
        proof (cases "n = 0")
          case True
          with Need False rd Inr show ?thesis
            by (subst read_handshake_response_loop.simps) (simp add: Let_def ready)
        next
          case grow: False
          have "length buffer < 65536" using b False by linarith
          then have "65536 - length (buffer @ take n chunk) < 65536 - length buffer"
            using grow n by (simp add: min_absorb2)
          from less [OF this, of tr'] Need False rd Inr grow n show ?thesis
            by (subst read_handshake_response_loop.simps) (simp add: Let_def get_to_def ready)
        qed
      qed
    qed
  next
    case (Frame f)
    then show ?thesis by (subst read_handshake_response_loop.simps) (simp add: Let_def)
  next
    case (Failure f n)
    then show ?thesis by (subst read_handshake_response_loop.simps) (simp add: Let_def)
  qed
qed

lemma resolving_write_returns:
  assumes "resolving tcp"
  shows "\<exists>r. handshake_write_all tcp tr bs = Some r"
proof -
  have "any_write_ready tcp = (\<lambda>_. True)" using resolving_ready(2) [OF assms] by blast
  then show ?thesis by (simp add: handshake_write_all_def handshake_write_all_eq split: prod.split)
qed

lemma silent_read_pending:
  assumes "\<not> any_read_ready tcp tr" "validate config = Inr ()"
  shows "read_handshake_response tcp tr config i = None"
proof -
  have "MINIMUM_NEGOTIATED_FRAME_SIZE \<le> cfg_local_maximum_frame_size config"
    using assms(2) by (simp add: validate_def not_less split: if_splits)
  then have "min (cfg_local_maximum_frame_size config) MAX_FRAME_SIZE = MAX_FRAME_SIZE"
    by (simp add: MINIMUM_NEGOTIATED_FRAME_SIZE_def MAX_FRAME_SIZE_def min_def)
  with assms(1) show ?thesis
    unfolding read_handshake_response_def
    by (subst read_handshake_response_loop.simps) (simp add: Let_def decode_short MAX_FRAME_SIZE_def)
qed

lemma establish_eq:
  "establish tcp tr config =
     do { (w, tr1) \<leftarrow> handshake_write_all tcp tr (projr (build_handshake_request config 1));
      case w of
        Inl e \<Rightarrow> Some (Inl e, tr1)
      | Inr _ \<Rightarrow>
      do { (r, tr2) \<leftarrow> read_handshake_response tcp tr1 config 1;
           case r of
             Inl e \<Rightarrow> Some (Inl e, tr2)
           | Inr n \<Rightarrow>
               if cfg_local_maximum_frame_size config < neg_maximum_frame_size n
               then after_shutdown tcp tr2 (Inl (NegotiatedFrameSizeAboveLocal (neg_maximum_frame_size n)
                                (cfg_local_maximum_frame_size config)))
               else if cfg_local_maximum_metadata_size config < neg_maximum_metadata_size n
               then after_shutdown tcp tr2 (Inl (NegotiatedMetadataSizeAboveLocal (neg_maximum_metadata_size n)
                                (cfg_local_maximum_metadata_size config)))
               else Some (Inr (start_session tr2 config n), tr2) } }"
proof -
  have a: "allocate allocator_new = (1, \<lparr>alloc_next = 2\<rparr>)" by (simp add: allocate_def allocator_new_def)
  obtain bs where b: "build_handshake_request config 1 = Inr bs" using build_handshake_request_ok by blast
  show ?thesis
    by (simp add: establish_def a b HANDSHAKE_REQUEST_ID_def registry_insert_def registry_new_def
        registry_retire_def registry_contains_def registry_is_empty_def registry_len_def live_ids_def
        Let_def cong: sum.case_cong)
qed

lemma read_response_cases:
  assumes "read_handshake_response_loop tcp config i buffer tr = Some r"
  shows "case fst r of Inr n \<Rightarrow> \<exists>f. interpret_response f config = Inr n | Inl _ \<Rightarrow> True"
  using assms
proof (rule read_handshake_response_loop.raw_induct [rotated, where
      P = "\<lambda>tcp config i buffer tr r. case fst r of Inr n \<Rightarrow> \<exists>f. interpret_response f config = Inr n | Inl _ \<Rightarrow> True"],
    goal_cases)
  case (1 loop tcp config i buffer tr r)
  from 1(2) show ?case
    by (auto simp: Let_def dest: 1(1) split: step.splits if_splits prod.splits sum.splits)
qed

lemma establish_ok:
  assumes "establish tcp tr config = Some (Inr est, tr')"
  shows "\<exists>f n. interpret_response f config = Inr n \<and> est = start_session tr' config n \<and>
    neg_maximum_frame_size n \<le> cfg_local_maximum_frame_size config \<and>
    neg_maximum_metadata_size n \<le> cfg_local_maximum_metadata_size config"
proof -
  from assms obtain w tr1 where w: "handshake_write_all tcp tr (projr (build_handshake_request config 1)) = Some (w, tr1)"
    by (cases "handshake_write_all tcp tr (projr (build_handshake_request config 1))") (auto simp: establish_eq)
  with assms have "read_handshake_response tcp tr1 config 1 \<noteq> None"
    by (cases "read_handshake_response tcp tr1 config 1") (auto simp: establish_eq split: sum.splits)
  then obtain r tr2 where r: "read_handshake_response tcp tr1 config 1 = Some (r, tr2)" by fast
  with assms w obtain n where "r = Inr n" by (cases r) (auto simp: establish_eq split: sum.splits)
  with assms w r have rd: "read_handshake_response tcp tr1 config 1 = Some (Inr n, tr')"
    and n: "est = start_session tr' config n" "\<not> cfg_local_maximum_frame_size config < neg_maximum_frame_size n"
      "\<not> cfg_local_maximum_metadata_size config < neg_maximum_metadata_size n"
    by (auto simp: establish_eq after_shutdown_def split: sum.splits if_splits)
  from read_response_cases [OF rd [unfolded read_handshake_response_def]]
  obtain f where "interpret_response f config = Inr n" by auto
  with n show ?thesis by (intro exI [of _ f] exI [of _ n]) (simp add: not_less)
qed

section \<open>Properties of establishment\<close>

text \<open>
  The opening frame is one every conforming server accepts.  For every configuration the
  handshake request is encodable, and a server that has not negotiated yet admits it as the
  handshake request with identifier 1, whose payload decodes to version range 0 to 0, the configured
  frame size and no capabilities.
\<close>

theorem opening_frame_accepted:
  "\<exists>bs f. build_handshake_request config HANDSHAKE_REQUEST_ID = Inr bs \<and>
     decode bs \<lparr>adm_role = Server, adm_state = PreNegotiation, adm_limits = PRE_NEGOTIATION, adm_in_flight = []\<rparr> = Frame f \<and>
     frm_payload f = Opaque (handshake_request_encode (opening_request config)) \<and>
     handshake_request_decode (handshake_request_encode (opening_request config)) = Inr (opening_request config)"
proof -
  let ?adm = "\<lparr>adm_role = Server, adm_state = PreNegotiation, adm_limits = PRE_NEGOTIATION, adm_in_flight = []\<rparr>"
  let ?o = "\<lparr>out_kind = Kind_Request, out_code = HANDSHAKE_OPCODE, out_request_id = HANDSHAKE_REQUEST_ID,
       out_metadata = [], out_payload = OutOpaque (handshake_request_encode (opening_request config))\<rparr>"
  obtain bs where b: "build_handshake_request config HANDSHAKE_REQUEST_ID = Inr bs"
    and e: "encode_with_max ?o MAX_FRAME_SIZE MAX_METADATA_SIZE = Inr bs"
    using build_handshake_request_ok by blast
  have "acceptable ?adm ?o"
    by (simp add: acceptable_def check_connection_state_def correlate_def HANDSHAKE_REQUEST_ID_def)
  from decode_encoded [OF e _ _ this, of "[]"] obtain f where f: "decode bs ?adm = Frame f" "outgoing_of f = ?o"
    by (auto simp: PRE_NEGOTIATION_def)
  then have "outgoing_payload_of (frm_payload f) = OutOpaque (handshake_request_encode (opening_request config))"
    by (simp add: outgoing_of_def)
  then have "frm_payload f = Opaque (handshake_request_encode (opening_request config))"
    by (cases "frm_payload f") simp_all
  with b f request_decode_encode [OF opening_request_ok] show ?thesis by blast
qed

text \<open>
  C24: when establishing a connection comes to an end.  Over any TCP stream that honours the
  byte-stream contract and whose operations resolve, whatever bytes the peer sends, however they are
  fragmented, and whatever operation fails, the handshake returns a connection or an error: neither
  loop runs for ever.  It has no deadline of its own: it does not return when the first write never
  resolves, nor when the request has been written and the peer then stays silent.
\<close>

theorem establish_returns:
  assumes "byte_stream (op_write tcp) (op_read tcp) sent pending"
  shows "(resolving tcp \<longrightarrow> (\<exists>r. establish tcp tr config = Some r)) \<and>
    (\<not> any_write_ready tcp tr \<longrightarrow> establish tcp tr config = None) \<and>
    (\<forall>request tr1. build_handshake_request config HANDSHAKE_REQUEST_ID = Inr request \<longrightarrow>
       handshake_write_all tcp tr request = Some (Inr (), tr1) \<longrightarrow> \<not> any_read_ready tcp tr1 \<longrightarrow>
       validate config = Inr () \<longrightarrow> establish tcp tr config = None)"
proof (intro conjI impI allI)
  assume ready: "resolving tcp"
  obtain w tr1 where w: "handshake_write_all tcp tr (projr (build_handshake_request config 1)) = Some (w, tr1)"
    using resolving_write_returns [OF ready] by fast
  obtain r tr2 where "read_handshake_response tcp tr1 config 1 = Some (r, tr2)"
    using read_loop_returns [OF any_byte_stream [OF assms] resolving_ready(1) [OF ready]]
    unfolding read_handshake_response_def by fast
  with w show "\<exists>r. establish tcp tr config = Some r"
    by (simp add: establish_eq after_shutdown_def resolving_ready [OF ready] split: sum.splits)
next
  obtain bs where b: "build_handshake_request config 1 = Inr bs" "length bs = 30"
    using build_handshake_request_ok by blast
  assume "\<not> any_write_ready tcp tr"
  then have "handshake_write_all tcp tr bs = None"
    unfolding handshake_write_all_def by (subst handshake_write_all_loop.simps) (simp add: b)
  then show "establish tcp tr config = None" by (simp add: establish_eq b)
next
  fix request tr1
  assume "build_handshake_request config HANDSHAKE_REQUEST_ID = Inr request"
    "handshake_write_all tcp tr request = Some (Inr (), tr1)" "\<not> any_read_ready tcp tr1"
    "validate config = Inr ()"
  then show "establish tcp tr config = None"
    by (simp add: establish_eq HANDSHAKE_REQUEST_ID_def silent_read_pending)
qed

text \<open>The same stream with a peer that never answers, and with one that never reads.\<close>

definition silent_ops :: "in_memory_transport stream_ops" where
  "silent_ops = memory_ops\<lparr>op_read_ready := (\<lambda>_. False)\<rparr>"

definition stuck_ops :: "in_memory_transport stream_ops" where
  "stuck_ops = memory_ops\<lparr>op_write_ready := (\<lambda>_. False)\<rparr>"

lemma sample_request_written:
  assumes "op_write tcp = memory_write" "op_write_ready tcp = (\<lambda>_. True)" "length bs = 30"
  shows "handshake_write_all tcp (Tcp (memory_new inbound r 64)) bs =
    Some (Inr (), Tcp ((memory_new inbound r 64)\<lparr>mem_written := bs\<rparr>))"
  using assms by (simp add: handshake_write_all_def handshake_write_all_loop.simps [of _ _ _ 0]
        handshake_write_all_loop.simps [of _ _ _ 30] any_write_def any_write_ready_def memory_write_eq
        get_from_def checked_add_usize_def memory_new_def)

theorem establish_returns_witness:
  "(\<exists>r. establish memory_ops (Tcp (memory_new [] 1 1)) config_default = Some r) \<and>
   establish stuck_ops (Tcp (memory_new [] 1 64)) config_default = None \<and>
   establish silent_ops (Tcp (memory_new [] 1 64)) config_default = None"
proof (intro conjI)
  show "\<exists>r. establish memory_ops (Tcp (memory_new [] 1 1)) config_default = Some r"
    using establish_returns [OF memory_ops_stream] memory_ops_resolving by blast
  have ops: "byte_stream (op_write stuck_ops) (op_read stuck_ops) mem_written mem_inbound"
    "byte_stream (op_write silent_ops) (op_read silent_ops) mem_written mem_inbound"
    by (simp_all add: stuck_ops_def silent_ops_def memory_ops_stream)
  show "establish stuck_ops (Tcp (memory_new [] 1 64)) config_default = None"
    using establish_returns [OF ops(1)] by (simp add: any_write_ready_def stuck_ops_def)
  obtain bs where b: "build_handshake_request config_default HANDSHAKE_REQUEST_ID = Inr bs" "length bs = 30"
    using build_handshake_request_ok by blast
  have "handshake_write_all silent_ops (Tcp (memory_new [] 1 64)) bs =
      Some (Inr (), Tcp ((memory_new [] 1 64)\<lparr>mem_written := bs\<rparr>))"
    by (rule sample_request_written) (simp_all add: silent_ops_def memory_ops_def b)
  then show "establish silent_ops (Tcp (memory_new [] 1 64)) config_default = None"
    using establish_returns [OF ops(2), of "Tcp (memory_new [] 1 64)" config_default] b(1) validate_iff
    by (simp add: any_read_ready_def silent_ops_def)
qed

text \<open>
  C23: what a connection that is handed out guarantees.  The session is usable and its admission
  open with as many permits as configured; version 0 and no capability is in force; both negotiated
  bounds are at or above the protocol floor and within the local caps, so the effective bounds are
  the negotiated ones.  Over TCP the driver runs on exactly these bounds, starts with nothing
  buffered and nobody waiting, and the first request will carry identifier 2.
\<close>

theorem established_session_sound:
  assumes "establish tcp tr config = Some (Inr est, tr')"
  shows "let sh = est_shared est; n = sh_negotiated sh in
    sh_state sh = Usable \<and>
    sh_admission sh = \<lparr>sem_permits = cfg_maximum_in_flight config, sem_closed = False\<rparr> \<and>
    neg_protocol_version n = 0 \<and> neg_accepted_capabilities n = [] \<and>
    65536 \<le> neg_maximum_frame_size n \<and> neg_maximum_frame_size n \<le> cfg_local_maximum_frame_size config \<and>
    4096 \<le> neg_maximum_metadata_size n \<and> neg_maximum_metadata_size n \<le> cfg_local_maximum_metadata_size config \<and>
    effective_maximum_frame_size n = neg_maximum_frame_size n \<and>
    effective_maximum_metadata_size n = neg_maximum_metadata_size n \<and>
    (case tr' of
       Tcp _ \<Rightarrow>
         est_driver est = Some (\<lparr>frame_size = effective_maximum_frame_size n,
                                 metadata_size = effective_maximum_metadata_size n\<rparr>, driver_new tr') \<and>
         sh_driver sh \<and> sh_submit_tx sh \<and> fst (allocate (sh_allocator sh)) = 2
     | Memory _ \<Rightarrow> est_driver est = None \<and> sh_transport sh = Some tr')"
proof -
  obtain f n where f: "interpret_response f config = Inr n" and est: "est = start_session tr' config n"
    and le: "neg_maximum_frame_size n \<le> cfg_local_maximum_frame_size config"
      "neg_maximum_metadata_size n \<le> cfg_local_maximum_metadata_size config"
    using establish_ok [OF assms] by blast
  have a: "fst (allocate (snd (allocate allocator_new))) = 2" by (simp add: allocate_def allocator_new_def)
  from interpret_response_ok [OF f] le a show ?thesis
    by (auto simp: est start_session_def Let_def effective_maximum_frame_size_def
        effective_maximum_metadata_size_def min_absorb1 split: any_transport.splits)
qed

text \<open>A handshake to evaluate: the response arrives in one read.\<close>

definition sample_handshake_response :: bytes where
  "sample_handshake_response =
     [0, 2, 0, 0, 0, 0, 0, 0, 10, 0, 0, 0, 1, 0, 0, 0, 0, 0, 0, 0, 0, 0, 0, 0, 1, 0, 0, 16, 0, 0]"

definition sample_negotiated :: negotiated where
  "sample_negotiated =
     \<lparr>neg_protocol_version = 0, neg_maximum_frame_size = 65536, neg_maximum_metadata_size = 4096,
      neg_accepted_capabilities = [], neg_local_maximum_frame_size = 65536,
      neg_local_maximum_metadata_size = 4096\<rparr>"

lemma sample_handshake_read:
  "read_handshake_response memory_ops (Tcp ((memory_new sample_handshake_response 64 64)\<lparr>mem_written := w\<rparr>))
     config_default 1 =
   Some (Inr sample_negotiated, Tcp ((memory_new [] 64 64)\<lparr>mem_written := w\<rparr>))"
proof -
  let ?m = "(memory_new sample_handshake_response 64 64)\<lparr>mem_written := w\<rparr>"
  have len: "length sample_handshake_response = 30" by (simp add: sample_handshake_response_def)
  have cap: "cfg_local_maximum_frame_size config_default = 65536"
    "cfg_local_maximum_metadata_size config_default = 4096"
    by (simp_all add: config_default_def config_new_def DEFAULT_LOCAL_MAXIMUM_FRAME_SIZE_def
        DEFAULT_LOCAL_MAXIMUM_METADATA_SIZE_def MINIMUM_NEGOTIATED_FRAME_SIZE_def
        MINIMUM_NEGOTIATED_METADATA_SIZE_def)
  have rd: "any_read memory_ops (Tcp ?m) (replicate HANDSHAKE_READ_CHUNK 0) =
      (Inr 30, sample_handshake_response @ drop 30 (replicate HANDSHAKE_READ_CHUNK 0),
       Tcp ((memory_new [] 64 64)\<lparr>mem_written := w\<rparr>))"
    by (simp add: any_read_def memory_ops_def memory_read_eq memory_new_def len HANDSHAKE_READ_CHUNK_def)
  obtain f where f: "decode sample_handshake_response (handshake_admission 1) = Frame f"
    "hdr_kind (frm_header f) = Kind_Response" "hdr_code (frm_header f) = 0"
    "frm_payload f = Opaque [0, 0, 0, 0, 1, 0, 0, 16, 0, 0]"
    by (simp add: decode_eval sample_handshake_response_def handshake_admission_def)
  have "interpret_response f config_default = Inr sample_negotiated"
    by (simp add: interpret_response_def f handshake_response_decode_def HEAD_LENGTH_def read_u16_le_def
        read_u32_le_def checked_add_usize_def get_range_def get_from_def from_le_bytes_def
        capability_parse_def capability_parse_loop.simps capability_count_def OFFER_def
        contains_version_def HIGHEST_HEADER_VERSION_def MINIMUM_NEGOTIATED_FRAME_SIZE_def
        MINIMUM_NEGOTIATED_METADATA_SIZE_def sample_negotiated_def cap check_ascending_def)
  with f have "read_handshake_response_loop memory_ops config_default 1 sample_handshake_response t =
      Some (Inr sample_negotiated, t)" for t
    by (subst read_handshake_response_loop.simps) (simp add: Let_def)
  then show ?thesis
    by (subst read_handshake_response_def, subst read_handshake_response_loop.simps)
       (simp add: Let_def decode_short cap MAX_FRAME_SIZE_def rd get_to_def len resolving_ready memory_ops_resolving)
qed

theorem established_session_sound_witness:
  "\<exists>est tr'. establish memory_ops (Tcp (memory_new sample_handshake_response 64 64)) config_default =
      Some (Inr (est :: in_memory_transport established), tr') \<and>
     sh_state (est_shared est) = Usable \<and> fst (allocate (sh_allocator (est_shared est))) = 2"
proof -
  obtain bs where b: "build_handshake_request config_default 1 = Inr bs" and l: "length bs = 30"
    using build_handshake_request_ok by blast
  have "handshake_write_all memory_ops (Tcp (memory_new sample_handshake_response 64 64)) bs =
      Some (Inr (), Tcp ((memory_new sample_handshake_response 64 64)\<lparr>mem_written := bs\<rparr>))"
    by (rule sample_request_written) (simp_all add: memory_ops_def l)
  with b obtain est tr' where e: "establish memory_ops (Tcp (memory_new sample_handshake_response 64 64)) config_default =
      Some (Inr est, tr')" and t: "tr' = Tcp ((memory_new [] 64 64)\<lparr>mem_written := bs\<rparr>)"
    by (simp add: establish_eq sample_handshake_read)
       (simp add: sample_negotiated_def config_default_def config_new_def
        DEFAULT_LOCAL_MAXIMUM_FRAME_SIZE_def DEFAULT_LOCAL_MAXIMUM_METADATA_SIZE_def
        MINIMUM_NEGOTIATED_FRAME_SIZE_def MINIMUM_NEGOTIATED_METADATA_SIZE_def)
  from established_session_sound [OF e] e t show ?thesis by (auto simp: Let_def)
qed

end
