(* ===== verification/Driver_Laws.thy ===== *)
theory Driver_Laws
  imports Driver
begin

text \<open>
  The laws of the driver.  First the two header peeks agree with the decoder; then one round of
  the dispatch loop is a verdict on the buffer; from these follow the invariant of a session, that
  every waiter is resolved exactly once and with its own frame, that fragmentation of the stream is
  immaterial, and what holds in every state the driver reaches and when it exits.
\<close>

named_theorems session_simps \<open>field rules of the session operations\<close>

section \<open>Session operations\<close>

lemma session_op_simps [session_simps]:
  "ses_buffer (send c r s) = ses_buffer s" "ses_completions (send c r s) = ses_completions s"
  "ses_live (send c r s) = ses_live s" "ses_log (send c r s) = ses_log s @ [(c, r)]"
  "ses_buffer (retire_live i s) = ses_buffer s" "ses_completions (retire_live i s) = ses_completions s"
  "ses_live (retire_live i s) = snd (registry_retire (ses_live s) i)" "ses_log (retire_live i s) = ses_log s"
  "ses_buffer (forget i s) = ses_buffer s"
  "ses_completions (forget i s) = AList.delete i (ses_completions s)"
  "ses_live (forget i s) = ses_live s" "ses_log (forget i s) = ses_log s"
  by (simp_all add: send_def retire_live_def forget_def)

text \<open>Resolving one waiter: what both successful branches of the dispatch loop do.\<close>

definition resolve :: "u64 \<Rightarrow> channel \<Rightarrow> outcome \<Rightarrow> session \<Rightarrow> session" where
  "resolve i c r s = send c r (retire_live i (forget i s))"

definition keep :: "bytes \<Rightarrow> session \<Rightarrow> session" where
  "keep b s = s\<lparr>ses_buffer := b\<rparr>"

lemma keep_simps [session_simps]:
  "ses_buffer (keep b s) = b" "ses_completions (keep b s) = ses_completions s"
  "ses_live (keep b s) = ses_live s" "ses_log (keep b s) = ses_log s"
  "keep b (keep b' s) = keep b s" "keep (ses_buffer s) s = s"
  by (simp_all add: keep_def)

lemma resolve_simps [session_simps]:
  "ses_buffer (resolve i c r s) = ses_buffer s"
  "ses_completions (resolve i c r s) = AList.delete i (ses_completions s)"
  "ses_live (resolve i c r s) = snd (registry_retire (ses_live s) i)"
  "ses_log (resolve i c r s) = ses_log s @ [(c, r)]"
  by (simp_all add: resolve_def session_simps)

lemma resolve_keep: "resolve i c r (keep b s) = keep b (resolve i c r s)"
  by (simp add: resolve_def keep_def send_def retire_live_def forget_def)

section \<open>The header peeks agree with the decoder\<close>

lemma header_request_id_eq:
  "raw_header_parse b = Some raw \<Longrightarrow> header_request_id b = Some (raw_request_id raw)"
  by (auto simp: header_request_id_def raw_header_parse_Some get_range_def)

lemma frame_total_len_eq:
  assumes "raw_header_parse b = Some raw"
  shows "frame_total_len b = Some (frame_len raw)"
proof -
  have len: "20 \<le> length b" using assms by (rule parsed_long)
  have "drop 6 b = b ! 6 # b ! 7 # drop 8 b"
    using len Cons_nth_drop_Suc [of 6 b] Cons_nth_drop_Suc [of 7 b] by simp
  then have m: "[b ! 6, b ! 7] = take 2 (drop 6 b)" by simp
  have "drop 8 b = b ! 8 # b ! 9 # b ! 10 # b ! 11 # drop 12 b"
    using len Cons_nth_drop_Suc [of 8 b] Cons_nth_drop_Suc [of 9 b] Cons_nth_drop_Suc [of 10 b]
      Cons_nth_drop_Suc [of 11 b] by simp
  then have p: "[b ! 8, b ! 9, b ! 10, b ! 11] = take 4 (drop 8 b)" by simp
  have b: "unat (raw_metadata_length raw) < 65536" "unat (raw_payload_length raw) < 4294967296"
    by (rule unat_u16_less unat_u32_less)+
  have "raw_metadata_length raw = from_le_bytes [b ! 6, b ! 7]"
    "raw_payload_length raw = from_le_bytes [b ! 8, b ! 9, b ! 10, b ! 11]"
    using assms m p by (auto simp: raw_header_parse_Some)
  with len b show ?thesis
    by (simp add: frame_total_len_def HEADER_LENGTH_def get_at_def checked_add_usize_def frame_len_def)
qed

section \<open>One round of the dispatch loop\<close>

datatype verdict = Wait | Deliver u64 outcome usize | Fatal failure

definition verdict_of :: "limits \<Rightarrow> u64 list \<Rightarrow> bytes \<Rightarrow> verdict" where
  "verdict_of lim ids b =
     (case decode b (client_admission lim ids) of
        Need _ \<Rightarrow> Wait
      | Frame f \<Rightarrow>
          Deliver (request_id_value (hdr_request_id (frm_header f))) (Inr (take (frame_total f) b)) (frame_total f)
      | Failure x n \<Rightarrow>
          if failure_scope x = RequestScoped
          then Deliver (the (header_request_id b)) (Inl (RequestFailed x)) n
          else Fatal x)"

lemma drain_frames_eq:
  "drain_frames lim s =
     (case verdict_of lim (live_ids (ses_live s)) (ses_buffer s) of
        Wait \<Rightarrow> (None, s)
      | Fatal x \<Rightarrow> (Some x, s)
      | Deliver i r n \<Rightarrow>
          (case map_of (ses_completions s) i of
             None \<Rightarrow> (Some protocol_violation, keep (drop n (ses_buffer s)) s)
           | Some c \<Rightarrow> drain_frames lim (resolve i c r (keep (drop n (ses_buffer s)) s))))"
proof (cases "decode (ses_buffer s) (client_admission lim (live_ids (ses_live s)))")
  case (Need n)
  then show ?thesis by (subst drain_frames.simps) (simp add: verdict_of_def)
next
  case (Frame f)
  then obtain raw where raw: "raw_header_parse (ses_buffer s) = Some raw"
    and len: "frame_len raw \<le> length (ses_buffer s)" unfolding decode_Frame_iff by blast
  with Frame frame_total_len_eq [OF raw] frame_total_decoded [OF Frame raw] show ?thesis
    by (subst drain_frames.simps)
       (simp add: verdict_of_def get_to_def min_absorb1 keep_def resolve_def Let_def split: option.splits)
next
  case (Failure x n)
  then obtain raw where raw: "raw_header_parse (ses_buffer s) = Some raw"
    unfolding decode_Failure_iff by blast
  from decode_failure_long [OF Failure] header_request_id_eq [OF raw] Failure show ?thesis
    by (subst drain_frames.simps)
       (simp add: verdict_of_def min_absorb1 keep_def resolve_def Let_def split: option.splits)
qed

lemma verdict_bounds:
  assumes "verdict_of lim ids b = Deliver i r n"
  shows "20 \<le> n \<and> n \<le> length b"
proof (cases "decode b (client_admission lim ids)")
  case (Frame f)
  then obtain raw where "raw_header_parse b = Some raw" "frame_len raw \<le> length b"
    unfolding decode_Frame_iff by blast
  with Frame assms frame_total_decoded show ?thesis by (fastforce simp: verdict_of_def frame_len_def)
qed (use assms decode_failure_long in \<open>auto simp: verdict_of_def split: if_splits\<close>)

text \<open>A verdict reached on a prefix stands when more bytes arrive.\<close>

lemma verdict_append:
  assumes "verdict_of lim ids b \<noteq> Wait"
  shows "verdict_of lim ids (b @ later) = verdict_of lim ids b"
proof (cases "decode b (client_admission lim ids)")
  case (Frame f)
  then have "frame_total f \<le> length b" using reencode_decoded [OF Frame] by simp
  with Frame decode_append_Frame [OF Frame, of later] show ?thesis by (simp add: verdict_of_def)
next
  case (Failure x n)
  then obtain raw where raw: "raw_header_parse b = Some raw" unfolding decode_Failure_iff by blast
  from Failure decode_append_Failure [OF Failure, of later] header_request_id_eq [OF raw]
    header_request_id_eq [OF parsed_append [OF raw, of later]] show ?thesis
    by (simp add: verdict_of_def)
qed (use assms in \<open>simp add: verdict_of_def\<close>)

lemma verdict_ids: "set xs = set ys \<Longrightarrow> verdict_of lim xs b = verdict_of lim ys b"
  using decode_ids_set [of xs ys b "client_admission lim xs"] by (simp add: verdict_of_def client_admission_def)

lemma drain_induct:
  assumes "\<And>s. (\<And>i r n c. verdict_of lim (live_ids (ses_live s)) (ses_buffer s) = Deliver i r n \<Longrightarrow>
      map_of (ses_completions s) i = Some c \<Longrightarrow> P (resolve i c r (keep (drop n (ses_buffer s)) s))) \<Longrightarrow> P s"
  shows "P s"
proof (induction "length (ses_buffer s)" arbitrary: s rule: less_induct)
  case less
  show ?case
  proof (rule assms)
    fix i r n c
    assume "verdict_of lim (live_ids (ses_live s)) (ses_buffer s) = Deliver i r n"
    from verdict_bounds [OF this]
    show "P (resolve i c r (keep (drop n (ses_buffer s)) s))"
      by (intro less) (auto simp: session_simps)
  qed
qed

lemma drain_cases:
  assumes "drain_frames lim s = (x, s')"
  obtains (wait) "verdict_of lim (live_ids (ses_live s)) (ses_buffer s) = Wait" "x = None" "s' = s"
    | (fatal) y where "verdict_of lim (live_ids (ses_live s)) (ses_buffer s) = Fatal y" "x = Some y" "s' = s"
    | (unknown) i r n where "verdict_of lim (live_ids (ses_live s)) (ses_buffer s) = Deliver i r n"
        "map_of (ses_completions s) i = None" "x = Some protocol_violation"
        "s' = keep (drop n (ses_buffer s)) s"
    | (deliver) i r n c where "verdict_of lim (live_ids (ses_live s)) (ses_buffer s) = Deliver i r n"
        "map_of (ses_completions s) i = Some c"
        "drain_frames lim (resolve i c r (keep (drop n (ses_buffer s)) s)) = (x, s')"
  using assms by (subst (asm) drain_frames_eq) (auto split: verdict.splits option.splits)

section \<open>The invariant of a session\<close>

definition channels :: "session \<Rightarrow> channel multiset" where
  "channels s = mset (map snd (ses_completions s) @ map fst (ses_log s))"

definition session_inv :: "session \<Rightarrow> bool" where
  "session_inv s \<longleftrightarrow>
     registry_inv (ses_live s) \<and> distinct (map fst (ses_completions s)) \<and>
     set (live_ids (ses_live s)) = fst ` set (ses_completions s) \<and>
     distinct (map snd (ses_completions s) @ map fst (ses_log s))"

lemma mset_delete:
  "distinct (map fst xs) \<Longrightarrow> map_of xs i = Some c \<Longrightarrow>
   mset (map snd xs) = add_mset c (mset (map snd (AList.delete i xs)))"
proof (induction xs)
  case (Cons x xs)
  obtain j d where x: "x = (j, d)" by (cases x)
  show ?case
  proof (cases "j = i")
    case True
    with Cons.prems x have "i \<notin> fst ` set xs" by auto
    then have "AList.delete i xs = xs" by simp
    with True Cons.prems x show ?thesis by simp
  next
    case False
    with Cons x show ?thesis by simp
  qed
qed simp

lemma registry_retired:
  "registry_inv r \<Longrightarrow> registry_inv (snd (registry_retire r i)) \<and>
   set (live_ids (snd (registry_retire r i))) = set (live_ids r) - {i}"
  using reg.ret_law [of r i "fst (registry_retire r i)" "snd (registry_retire r i)"] by simp

lemma channels_resolve:
  "session_inv s \<Longrightarrow> map_of (ses_completions s) i = Some c \<Longrightarrow> channels (resolve i c r s) = channels s"
  using mset_delete [of "ses_completions s" i c] by (simp add: session_inv_def channels_def session_simps)

lemma session_inv_resolve:
  assumes "session_inv s" and "map_of (ses_completions s) i = Some c"
  shows "session_inv (resolve i c r s)"
proof -
  have "distinct (map snd (ses_completions (resolve i c r s)) @ map fst (ses_log (resolve i c r s)))"
    using channels_resolve [OF assms, of r] assms(1) unfolding channels_def session_inv_def
    by (metis mset_eq_imp_distinct_iff)
  moreover have "fst ` set (AList.delete i (ses_completions s)) = fst ` set (ses_completions s) - {i}"
    by (simp only: set_map [symmetric] delete_keys set_removeAll)
  ultimately show ?thesis
    using assms registry_retired [of "ses_live s" i]
    by (simp add: session_inv_def session_simps distinct_delete)
qed

lemma session_inv_keep [simp]: "session_inv (keep b s) = session_inv s"
  by (simp add: session_inv_def session_simps)

lemma channels_keep [simp]: "channels (keep b s) = channels s"
  by (simp add: channels_def session_simps)

lemma drain_invariant:
  "session_inv s \<Longrightarrow> drain_frames lim s = (x, s') \<Longrightarrow>
   session_inv s' \<and> channels s' = channels s \<and> (\<exists>new. ses_log s' = ses_log s @ new)"
proof (induction s rule: drain_induct [where lim = lim])
  case (1 s)
  from 1(3) show ?case
  proof (cases rule: drain_cases)
    case (deliver i r n c)
    from 1(1) [OF deliver(1,2)] deliver 1(2) show ?thesis
      by (auto simp: session_inv_resolve channels_resolve session_simps)
  qed (use 1(2) in \<open>auto simp: session_simps\<close>)
qed

section \<open>Every waiter gets its own frame\<close>

text \<open>
  What a waiter of request \<open>i\<close> may be sent while frames are dispatched: a complete frame that carries
  its identifier, or the refusal of received bytes whose header names it.
\<close>

definition answers :: "limits \<Rightarrow> u64 \<Rightarrow> outcome \<Rightarrow> bool" where
  "answers lim i r =
     (case r of
        Inr fb \<Rightarrow>
          (\<exists>f. decode fb (client_admission lim [i]) = Frame f \<and>
               request_id_value (hdr_request_id (frm_header f)) = i \<and> frame_total f = length fb)
      | Inl e \<Rightarrow> e = RequestFailed invalid_argument \<and>
          (\<exists>b ids n. header_request_id b = Some i \<and> i \<in> set ids \<and>
             decode b (client_admission lim ids) = Failure invalid_argument n))"

lemma verdict_answers:
  assumes "verdict_of lim ids b = Deliver i r n" and "i \<in> set ids"
  shows "answers lim i r"
proof (cases "decode b (client_admission lim ids)")
  case (Frame f)
  with assms(1) have i: "i = request_id_value (hdr_request_id (frm_header f))"
    and r: "r = Inr (take (frame_total f) b)" by (auto simp: verdict_of_def)
  have "decode (take (frame_total f) b) (client_admission lim [i]) = Frame f"
    using decode_own_id [OF decode_take [OF Frame]] assms(2) by (simp add: client_admission_def i)
  with i r reencode_decoded [OF Frame] show ?thesis by (simp add: answers_def)
next
  case (Failure x m)
  with assms(1) have x: "failure_scope x = RequestScoped" "r = Inl (RequestFailed x)" "the (header_request_id b) = i"
    by (auto simp: verdict_of_def split: if_splits)
  with decode_failure_facts [OF Failure] obtain raw where "x = invalid_argument" "raw_header_parse b = Some raw"
    by (auto simp: client_admission_def)
  moreover from this(2) have "header_request_id b = Some i" using header_request_id_eq x(3) by auto
  ultimately show ?thesis using Failure x(2) assms(2) by (auto simp: answers_def)
qed (use assms(1) in \<open>simp add: verdict_of_def\<close>)

lemma drain_answers:
  "session_inv s \<Longrightarrow> drain_frames lim s = (x, s') \<Longrightarrow>
   \<exists>new pre. ses_log s' = ses_log s @ new \<and> ses_buffer s = pre @ ses_buffer s' \<and>
     list_all (\<lambda>(c, r). \<exists>i. (i, c) \<in> set (ses_completions s) \<and> answers lim i r) new"
proof (induction s rule: drain_induct [where lim = lim])
  case (1 s)
  from 1(3) show ?case
  proof (cases rule: drain_cases)
    case (deliver i r n c)
    let ?s = "resolve i c r (keep (drop n (ses_buffer s)) s)"
    have "session_inv ?s" using deliver 1(2) by (simp add: session_inv_resolve session_simps)
    from 1(1) [OF deliver(1,2) this deliver(3)] obtain new pre
      where new: "ses_log s' = ses_log ?s @ new" "ses_buffer ?s = pre @ ses_buffer s'"
        "list_all (\<lambda>(c, r). \<exists>i. (i, c) \<in> set (ses_completions ?s) \<and> answers lim i r) new" by blast
    have ic: "(i, c) \<in> set (ses_completions s)" using deliver(2) by (rule map_of_SomeD)
    then have "i \<in> set (live_ids (ses_live s))" using 1(2) by (force simp: session_inv_def)
    with deliver(1) have "answers lim i r" by (rule verdict_answers)
    with ic new have "list_all (\<lambda>(c, r). \<exists>i. (i, c) \<in> set (ses_completions s) \<and> answers lim i r) ((c, r) # new)"
      by (auto simp: list_all_iff session_simps AList.delete_eq)
    moreover have "ses_buffer s = (take n (ses_buffer s) @ pre) @ ses_buffer s'"
      using new(2) by (simp add: session_simps) (metis append_take_drop_id)
    ultimately show ?thesis
      using new(1) by (intro exI [of _ "(c, r) # new"] exI [of _ "take n (ses_buffer s) @ pre"])
         (simp add: session_simps)
  next
    case (unknown i r n)
    then show ?thesis
      by (intro exI [of _ "[]"] exI [of _ "take n (ses_buffer s)"]) (simp add: session_simps)
  qed auto
qed

section \<open>Fragmentation\<close>

definition receive :: "bytes \<Rightarrow> session \<Rightarrow> session" where
  "receive chunk s = keep (ses_buffer s @ chunk) s"

lemma receive_receive: "receive b (receive a s) = receive (a @ b) s"
  by (simp add: receive_def session_simps)

lemma drain_receive:
  "drain_frames lim s = (x, s1) \<Longrightarrow>
   drain_frames lim (receive later s) =
     (case x of None \<Rightarrow> drain_frames lim (receive later s1) | Some y \<Rightarrow> (Some y, receive later s1))"
proof (induction s rule: drain_induct [where lim = lim])
  case (1 s)
  let ?v = "verdict_of lim (live_ids (ses_live s)) (ses_buffer s)"
  have v: "verdict_of lim (live_ids (ses_live (receive later s))) (ses_buffer (receive later s)) = ?v"
    if "?v \<noteq> Wait" using verdict_append [OF that, of later] by (simp add: receive_def session_simps)
  from 1(2) show ?case
  proof (cases rule: drain_cases)
    case (deliver i r n c)
    have "n \<le> length (ses_buffer s)" using verdict_bounds [OF deliver(1)] by simp
    then have "resolve i c r (keep (drop n (ses_buffer (receive later s))) (receive later s)) =
        receive later (resolve i c r (keep (drop n (ses_buffer s)) s))"
      by (simp add: receive_def session_simps resolve_keep)
    with 1(1) [OF deliver(1,2,3)] deliver v show ?thesis
      by (subst drain_frames_eq) (simp add: receive_def session_simps)
  next
    case (unknown i r n)
    have "n \<le> length (ses_buffer s)" using verdict_bounds [OF unknown(1)] by simp
    with unknown v show ?thesis by (subst drain_frames_eq) (simp add: receive_def session_simps)
  next
    case (fatal y)
    with v show ?thesis by (subst drain_frames_eq) (simp add: receive_def session_simps)
  qed simp
qed

lemma drain_idem: "drain_frames lim s = (None, s') \<Longrightarrow> drain_frames lim s' = (None, s')"
proof (induction s rule: drain_induct [where lim = lim])
  case (1 s)
  from 1(2) show ?case
  proof (cases rule: drain_cases)
    case (deliver i r n c)
    with 1(1) show ?thesis by blast
  qed (use 1(2) in auto)
qed

text \<open>The driver reads chunk by chunk, dispatching after each one and stopping at a failure.\<close>

primrec feed :: "limits \<Rightarrow> session \<Rightarrow> bytes list \<Rightarrow> failure option \<times> session" where
  "feed lim s [] = (None, s)"
| "feed lim s (c # cs) =
     (case drain_frames lim (receive c s) of
        (Some x, s') \<Rightarrow> (Some x, s')
      | (None, s') \<Rightarrow> feed lim s' cs)"

lemma feed_drain:
  "drain_frames lim s = (None, s) \<Longrightarrow> feed lim s cs = (x, s1) \<Longrightarrow>
   case x of None \<Rightarrow> drain_frames lim (receive (concat cs) s) = (None, s1)
   | Some y \<Rightarrow> \<exists>rest. drain_frames lim (receive (concat cs) s) = (Some y, receive rest s1)"
proof (induction cs arbitrary: s)
  case Nil
  then show ?case by (auto simp: receive_def session_simps)
next
  case (Cons c cs)
  obtain y s' where d: "drain_frames lim (receive c s) = (y, s')" by (cases "drain_frames lim (receive c s)")
  have r: "receive (concat (c # cs)) s = receive (concat cs) (receive c s)"
    by (simp add: receive_receive)
  show ?case
  proof (cases y)
    case None
    with d have "drain_frames lim s' = (None, s')" by (intro drain_idem) simp
    from Cons.IH [OF this] Cons.prems(2) d None drain_receive [OF d, of "concat cs"] r
    show ?thesis by (auto split: option.splits)
  next
    case (Some z)
    with Cons.prems(2) d drain_receive [OF d, of "concat cs"] r show ?thesis
      by (auto split: option.splits)
  qed
qed

section \<open>Failing every waiter\<close>

lemma fail_ids_eq:
  "distinct (map fst xs) \<Longrightarrow> ses_completions s = xs \<Longrightarrow>
   fail_ids (map fst xs) e s =
     s\<lparr>ses_completions := [], ses_log := ses_log s @ map (\<lambda>(i, c). (c, Inl e)) xs,
       ses_live := fold (\<lambda>i r. snd (registry_retire r i)) (map fst xs) (ses_live s)\<rparr>"
proof (induction xs arbitrary: s)
  case Nil
  then show ?case by (cases s) simp
next
  case (Cons x xs)
  obtain i c where x: "x = (i, c)" by (cases x)
  with Cons.prems have "AList.delete i (ses_completions s) = xs" by simp
  with Cons.IH [of "retire_live i (send c (Inl e) (forget i s))"] Cons.prems x show ?case
    by (simp add: session_simps)
qed

lemma fold_retire:
  "registry_inv r \<Longrightarrow>
   live_ids (fold (\<lambda>i r. snd (registry_retire r i)) is r) = filter (\<lambda>i. i \<notin> set is) (live_ids r)"
proof (induction "is" arbitrary: r)
  case Nil
  then show ?case by simp
next
  case (Cons i "is")
  have "live_ids (snd (registry_retire r i)) = filter (\<lambda>j. j \<noteq> i) (live_ids r)"
    using Cons.prems
    by (simp add: registry_retire_def live_ids_def registry_inv_def distinct_remove1_removeAll
        removeAll_filter_not_eq eq_commute)
  with Cons.IH [of "snd (registry_retire r i)"] registry_retired [OF Cons.prems, of i] show ?case
    by (simp add: conj_commute)
qed

lemma fail_all_eq:
  assumes "session_inv s"
  shows "ses_completions (fail_all e s) = [] \<and> live_ids (ses_live (fail_all e s)) = [] \<and>
    ses_log (fail_all e s) = ses_log s @ map (\<lambda>(i, c). (c, Inl e)) (ses_completions s) \<and>
    ses_buffer (fail_all e s) = ses_buffer s"
  using assms fail_ids_eq [of "ses_completions s" s e] fold_retire [of "ses_live s" "map fst (ses_completions s)"]
  by (auto simp: fail_all_def session_inv_def filter_empty_conv)

lemma session_inv_fail_all:
  assumes "session_inv s"
  shows "session_inv (fail_all e s)" and "channels (fail_all e s) = channels s"
proof -
  have c: "map fst (map (\<lambda>(i, c). (c, Inl e :: outcome)) xs) = map snd xs" for xs :: "(u64 \<times> channel) list"
    by (induction xs) auto
  show ch: "channels (fail_all e s) = channels s"
    using fail_all_eq [OF assms, of e] by (simp add: channels_def c del: map_map)
  have "distinct (map fst (ses_log (fail_all e s)))"
    using assms fail_all_eq [OF assms, of e] mset_eq_imp_distinct_iff [OF ch [unfolded channels_def]]
    by (simp add: session_inv_def)
  then show "session_inv (fail_all e s)"
    using fail_all_eq [OF assms, of e] by (simp add: session_inv_def registry_inv_def live_ids_def)
qed

end
