(* ===== verification/Driver_Trace.thy ===== *)
theory Driver_Trace
  imports Driver_Laws
begin

text \<open>
  Runs of the driver.  A trace is any sequence of completed select arms, interleaved with what a
  closing handle does to the shared state, in any order the guards allow.  The invariant of a
  running driver is proved by rule induction; from it follow that every submission is resolved
  exactly once by the time the driver exits, that while it runs a caller is only ever sent an
  answer to its own request, and which shared state an exit leaves behind.
\<close>

section \<open>Traces\<close>

text \<open>
  A submission can arrive only while the submit channel is open, and it brings its own one-shot
  channel: the sender is moved into the submission and cannot be used twice.
\<close>

fun enabled :: "'t driver \<Rightarrow> driver_event \<Rightarrow> bool" where
  "enabled d (Ev_Submit sub) \<longleftrightarrow>
     \<not> drv_submit_closed d \<and> sub_completion sub \<notin># channels (drv_session d)"
| "enabled d Ev_Submit_Closed \<longleftrightarrow> \<not> drv_submit_closed d"
| "enabled d Ev_Shutdown \<longleftrightarrow> True"
| "enabled d Ev_Read \<longleftrightarrow> True"

inductive driver_trace ::
  "'t stream_ops \<Rightarrow> limits \<Rightarrow> 't driver \<Rightarrow> driver_event list \<Rightarrow> driver_exit option \<Rightarrow> 't driver \<Rightarrow> bool"
  for tcp lim d0 where
  trace_start: "driver_trace tcp lim d0 [] None d0"
| trace_step: "driver_trace tcp lim d0 evs None d \<Longrightarrow> enabled d ev \<Longrightarrow>
    driver_step tcp lim ev d = (x, d') \<Longrightarrow> driver_trace tcp lim d0 (evs @ [ev]) x d'"
| trace_close: "driver_trace tcp lim d0 evs None d \<Longrightarrow>
    driver_trace tcp lim d0 evs None
      (d\<lparr>drv_state := begin_closing (drv_state d), drv_admission_closed := True\<rparr>)"

inductive_cases driver_trace_exitE: "driver_trace tcp lim d0 evs (Some x) d"

fun submissions :: "driver_event list \<Rightarrow> submit list" where
  "submissions [] = []"
| "submissions (Ev_Submit sub # evs) = sub # submissions evs"
| "submissions (_ # evs) = submissions evs"

lemma submissions_append [simp]: "submissions (evs @ evs') = submissions evs @ submissions evs'"
  by (induction evs rule: submissions.induct) simp_all

section \<open>One step\<close>

lemma session_inv_new [simp]: "session_inv session_new" "channels session_new = {#}"
  by (simp_all add: session_inv_def session_new_def channels_def registry_new_def registry_inv_def live_ids_def)

lemma update_fresh: "i \<notin> fst ` set xs \<Longrightarrow> AList.update i c xs = xs @ [(i, c)]"
  by (induction xs) auto

lemma session_inv_admit:
  assumes inv: "session_inv s" and ins: "registry_insert (ses_live s) i = Inr l" and c: "c \<notin># channels s"
  defines "s' \<equiv> s\<lparr>ses_live := l, ses_completions := AList.update i c (ses_completions s)\<rparr>"
  shows "ses_completions s' = ses_completions s @ [(i, c)]" and "session_inv s'"
    and "channels s' = add_mset c (channels s)"
proof -
  have l: "i \<noteq> 0" "i \<notin> set (live_ids (ses_live s))" "registry_inv l"
    "set (live_ids l) = insert i (set (live_ids (ses_live s)))"
    using reg.ins_ok [OF _ ins] inv by (auto simp: session_inv_def)
  have "i \<notin> fst ` set (ses_completions s)" using l inv by (simp add: session_inv_def)
  then show u: "ses_completions s' = ses_completions s @ [(i, c)]"
    by (simp add: s'_def update_fresh)
  show ch: "channels s' = add_mset c (channels s)"
    using u by (simp add: channels_def s'_def)
  show "session_inv s'"
    using u l inv c by (auto simp: session_inv_def s'_def channels_def)
qed

text \<open>
  The effect of a step on a session: the invariant holds, each channel of the session or of an
  added submission is still waiting or has been resolved, and every new log entry answers the
  request its channel waits for, or is a session error when the step may end the session.
\<close>

definition session_error :: "outcome \<Rightarrow> bool" where
  "session_error r = (case r of Inl (RequestFailed x) \<Rightarrow> False | Inl _ \<Rightarrow> True | Inr _ \<Rightarrow> False)"

definition entry_ok :: "limits \<Rightarrow> bool \<Rightarrow> (u64 \<times> channel) set \<Rightarrow> channel \<times> outcome \<Rightarrow> bool" where
  "entry_ok lim ending waiting e =
     (\<exists>i. (i, fst e) \<in> waiting \<and> (answers lim i (snd e) \<or> ending \<and> session_error (snd e)))"

definition step_ok :: "limits \<Rightarrow> (u64 \<times> channel) list \<Rightarrow> bool \<Rightarrow> session \<Rightarrow> session \<Rightarrow> bool" where
  "step_ok lim added ending s s' \<longleftrightarrow>
     session_inv s' \<and> channels s' = channels s + mset (map snd added) \<and>
     set (ses_completions s') \<subseteq> set (ses_completions s) \<union> set added \<and>
     (\<exists>new. ses_log s' = ses_log s @ new \<and>
        list_all (entry_ok lim ending (set (ses_completions s) \<union> set added)) new)"

lemma entry_ok_mono: "entry_ok lim b w e \<Longrightarrow> w \<subseteq> w' \<Longrightarrow> (b \<Longrightarrow> b') \<Longrightarrow> entry_ok lim b' w' e"
  by (auto simp: entry_ok_def)

lemma step_ok_trans:
  assumes "step_ok lim added b s s1" and "step_ok lim [] b' s1 s2"
  shows "step_ok lim added (b \<or> b') s s2"
proof -
  from assms(1) obtain new1 where 1: "ses_log s1 = ses_log s @ new1"
    "list_all (entry_ok lim b (set (ses_completions s) \<union> set added)) new1"
    "set (ses_completions s1) \<subseteq> set (ses_completions s) \<union> set added" by (auto simp: step_ok_def)
  from assms(2) obtain new2 where 2: "ses_log s2 = ses_log s1 @ new2"
    "list_all (entry_ok lim b' (set (ses_completions s1))) new2" by (auto simp: step_ok_def)
  from 1 2 have "list_all (entry_ok lim (b \<or> b') (set (ses_completions s) \<union> set added)) (new1 @ new2)"
    by (auto simp: list_all_iff intro: entry_ok_mono)
  with 1 2 assms show ?thesis by (auto simp: step_ok_def)
qed

lemma step_ok_keep: "session_inv s \<Longrightarrow> step_ok lim [] False s (keep b s)"
  by (simp add: step_ok_def session_simps)

lemma drain_completions: "drain_frames lim s = (x, s') \<Longrightarrow> set (ses_completions s') \<subseteq> set (ses_completions s)"
proof (induction s rule: drain_induct [where lim = lim])
  case (1 s)
  from 1(2) show ?case
  proof (cases rule: drain_cases)
    case (deliver i r n c)
    with 1(1) [OF deliver(1,2,3)] show ?thesis by (auto simp: session_simps AList.delete_eq)
  qed (auto simp: session_simps)
qed

lemma step_ok_drain:
  assumes "session_inv s" and "drain_frames lim s = (x, s')"
  shows "step_ok lim [] False s s'"
  using drain_invariant [OF assms] drain_answers [OF assms] drain_completions [OF assms(2)]
  by (auto simp: step_ok_def entry_ok_def list_all_iff case_prod_beta)

lemma step_ok_fail_all:
  assumes "session_inv s" and "session_error (Inl e)"
  shows "step_ok lim [] True s (fail_all e s)"
  using fail_all_eq [OF assms(1), of e] session_inv_fail_all [OF assms(1), of e] assms(2)
  by (auto simp: step_ok_def entry_ok_def list_all_iff)

lemma step_ok_admit:
  assumes "session_inv s" and "registry_insert (ses_live s) i = Inr l" and "c \<notin># channels s"
  shows "step_ok lim [(i, c)] False s
    (s\<lparr>ses_live := l, ses_completions := AList.update i c (ses_completions s)\<rparr>)"
  using session_inv_admit [OF assms] by (simp add: step_ok_def)

lemma step_ok_refuse:
  assumes "session_inv s" and "c \<notin># channels s"
  shows "step_ok lim [(i, c)] True s (send c (Inl DriverUnusable) s)"
  using assms by (auto simp: step_ok_def session_inv_def channels_def session_simps entry_ok_def
      session_error_def)

lemmas step_ok_end = step_ok_trans [OF _ step_ok_fail_all, unfolded simp_thms]

lemma session_errors [simp]:
  "session_error (Inl DriverClosed)" "session_error (Inl DriverUnusable)"
  "session_error (Inl TransportFailed)" "session_error (Inl (FatalFailure x))"
  by (simp_all add: session_error_def)

lemma step_ok_inv: "step_ok lim added b s s' \<Longrightarrow> session_inv s'"
  by (simp add: step_ok_def)

section \<open>Each arm of the loop\<close>

definition added :: "driver_event \<Rightarrow> (u64 \<times> channel) list" where
  "added ev = map (\<lambda>sub. (sub_id sub, sub_completion sub)) (submissions [ev])"

text \<open>An arm is sound when its effect is, and an exit leaves nobody waiting.\<close>

definition arm_ok ::
  "limits \<Rightarrow> driver_event \<Rightarrow> 't driver \<Rightarrow> driver_exit option \<Rightarrow> 't driver \<Rightarrow> bool" where
  "arm_ok lim ev d x d' \<longleftrightarrow>
     step_ok lim (added ev) (x \<noteq> None) (drv_session d) (drv_session d') \<and>
     (case x of
        None \<Rightarrow> drv_state d' = drv_state d \<and> drv_admission_closed d' = drv_admission_closed d
      | Some y \<Rightarrow>
          ses_completions (drv_session d') = [] \<and>
          (if y = Exit_Closed \<and> ev \<noteq> Ev_Shutdown
           then drv_submit_closed d' \<and> drv_state d' = drv_state d
           else is_terminal (drv_state d') \<and> drv_admission_closed d'))"

lemma end_session_simps [simp]:
  "drv_session (end_session e st d) = fail_all e (drv_session d)"
  "drv_state (end_session e st d) = mark_state (drv_state d) st"
  "drv_admission_closed (end_session e st d)"
  "drv_submit_closed (end_session e st d) = drv_submit_closed d"
  "drv_transport (end_session e st d) = drv_transport d"
  by (simp_all add: end_session_def)

lemma terminal_states [simp]: "is_terminal Closed" "is_terminal Failed" "is_terminal Unusable"
  by (simp_all add: is_terminal_def)

lemma step_ok_refl: "session_inv s \<Longrightarrow> step_ok lim [] b s s"
  by (simp add: step_ok_def)

lemma step_ok_weaken: "step_ok lim a False s s' \<Longrightarrow> step_ok lim a b s s'"
  by (auto simp: step_ok_def list_all_iff intro: entry_ok_mono)

lemma on_shutdown_ok:
  assumes "session_inv (drv_session d)" and "on_shutdown tcp d = (x, d')"
  shows "arm_ok lim Ev_Shutdown d x d'"
  using assms fail_all_eq [OF assms(1), of DriverClosed] step_ok_fail_all [OF assms(1), of DriverClosed]
  by (auto simp: on_shutdown_def Let_def arm_ok_def added_def split: prod.splits sum.splits)

lemma on_submit_closed_ok:
  assumes "session_inv (drv_session d)" and "on_submit_closed d = (x, d')"
  shows "arm_ok lim Ev_Submit_Closed d x d'"
  using assms
  by (auto simp: on_submit_closed_def Let_def arm_ok_def added_def loop_end_def step_ok_refl split: if_splits)

lemma on_submit_ok:
  assumes inv: "session_inv (drv_session d)" and en: "enabled d (Ev_Submit sub)"
    and st: "on_submit tcp sub d = (x, d')"
  shows "arm_ok lim (Ev_Submit sub) d x d'"
proof -
  let ?s = "drv_session d" and ?i = "sub_id sub" and ?c = "sub_completion sub"
  have c: "?c \<notin># channels ?s" using en by simp
  show ?thesis
  proof (cases "registry_insert (ses_live ?s) ?i")
    case (Inl e)
    note r = step_ok_refuse [OF inv c, of lim ?i]
    note i = step_ok_inv [OF r]
    from Inl st step_ok_trans [OF r step_ok_fail_all [OF i, of DriverUnusable]] fail_all_eq [OF i, of DriverUnusable]
    show ?thesis by (auto simp: on_submit_def arm_ok_def added_def)
  next
    case (Inr l)
    let ?s' = "?s\<lparr>ses_live := l, ses_completions := AList.update ?i ?c (ses_completions ?s)\<rparr>"
    note r = step_ok_admit [OF inv Inr c, of lim]
    note i = step_ok_inv [OF r]
    have ne: "ses_completions ?s' \<noteq> []" by simp
    from Inr st step_ok_trans [OF r step_ok_fail_all [OF i, of TransportFailed]]
      fail_all_eq [OF i, of TransportFailed] r ne
    show ?thesis
      by (auto simp: on_submit_def arm_ok_def added_def Let_def loop_end_def split: prod.splits if_splits)
  qed
qed

lemma on_read_ok:
  assumes inv: "session_inv (drv_session d)" and st: "on_read tcp lim d = (x, d')"
  shows "arm_ok lim Ev_Read d x d'"
proof -
  let ?s = "drv_session d"
  obtain r tr where rd: "read_chunk tcp (drv_transport d) = (r, tr)"
    by (cases "read_chunk tcp (drv_transport d)")
  show ?thesis
  proof (cases "\<exists>chunk. r = Inr (Some chunk)")
    case True
    then obtain chunk where chunk: "r = Inr (Some chunk)" by blast
    obtain f s' where dr: "drain_frames lim (?s\<lparr>ses_buffer := ses_buffer ?s @ chunk\<rparr>) = (f, s')"
      by (cases "drain_frames lim (?s\<lparr>ses_buffer := ses_buffer ?s @ chunk\<rparr>)")
    then have dk: "drain_frames lim (keep (ses_buffer ?s @ chunk) ?s) = (f, s')" by (simp add: keep_def)
    have ok: "step_ok lim [] False ?s s'"
      using step_ok_trans [OF step_ok_keep [OF inv] step_ok_drain [OF _ dk]] inv by simp
    note i = step_ok_inv [OF ok]
    show ?thesis
    proof (cases f)
      case None
      with st rd chunk dr ok show ?thesis
        by (auto simp: on_read_def Let_def arm_ok_def added_def loop_end_def step_ok_weaken split: if_splits)
    next
      case (Some y)
      with st rd chunk dr step_ok_trans [OF ok step_ok_fail_all [OF i, of "FatalFailure y"]]
        fail_all_eq [OF i, of "FatalFailure y"]
      show ?thesis by (auto simp: on_read_def Let_def arm_ok_def added_def)
    qed
  next
    case False
    with st rd inv step_ok_fail_all [OF inv, of TransportFailed] fail_all_eq [OF inv, of TransportFailed]
    show ?thesis
      by (auto simp: on_read_def Let_def arm_ok_def added_def step_ok_refl
          split: sum.splits option.splits if_splits)
  qed
qed

lemma driver_step_ok:
  "session_inv (drv_session d) \<Longrightarrow> enabled d ev \<Longrightarrow> driver_step tcp lim ev d = (x, d') \<Longrightarrow> arm_ok lim ev d x d'"
  by (cases ev) (auto simp: driver_step_def intro: on_shutdown_ok on_submit_ok on_submit_closed_ok on_read_ok
      simp del: enabled.simps)

section \<open>The invariant of a run\<close>

definition submitted :: "driver_event list \<Rightarrow> (u64 \<times> channel) list" where
  "submitted evs = map (\<lambda>sub. (sub_id sub, sub_completion sub)) (submissions evs)"

definition trace_inv :: "limits \<Rightarrow> driver_event list \<Rightarrow> driver_exit option \<Rightarrow> 't driver \<Rightarrow> bool" where
  "trace_inv lim evs x d \<longleftrightarrow>
     session_inv (drv_session d) \<and>
     channels (drv_session d) = mset (map snd (submitted evs)) \<and>
     set (ses_completions (drv_session d)) \<subseteq> set (submitted evs) \<and>
     list_all (entry_ok lim (x \<noteq> None) (set (submitted evs))) (ses_log (drv_session d))"

lemma trace_inv_step:
  assumes "trace_inv lim evs None d" and "arm_ok lim ev d x d'"
  shows "trace_inv lim (evs @ [ev]) x d'"
proof -
  have sub: "submitted (evs @ [ev]) = submitted evs @ added ev" by (simp add: submitted_def added_def)
  from assms(2) obtain new where ok: "session_inv (drv_session d')"
    "channels (drv_session d') = channels (drv_session d) + mset (map snd (added ev))"
    "set (ses_completions (drv_session d')) \<subseteq> set (ses_completions (drv_session d)) \<union> set (added ev)"
    "ses_log (drv_session d') = ses_log (drv_session d) @ new"
    "list_all (entry_ok lim (x \<noteq> None) (set (ses_completions (drv_session d)) \<union> set (added ev))) new"
    by (auto simp: arm_ok_def step_ok_def)
  moreover have "list_all (entry_ok lim (x \<noteq> None) (set (submitted (evs @ [ev])))) (ses_log (drv_session d) @ new)"
    using assms(1) ok(5) unfolding sub
    by (auto simp: trace_inv_def list_all_iff elim!: entry_ok_mono)
  ultimately show ?thesis using assms(1) unfolding trace_inv_def sub by auto
qed

lemma trace_invariant: "driver_trace tcp lim (driver_new tr) evs x d \<Longrightarrow> trace_inv lim evs x d"
proof (induction rule: driver_trace.induct)
  case trace_start
  then show ?case by (simp add: trace_inv_def driver_new_def submitted_def) (simp add: session_new_def)
next
  case (trace_step evs d ev x d')
  then show ?case by (blast intro: trace_inv_step driver_step_ok dest: trace_inv_def [THEN iffD1])
next
  case (trace_close evs d)
  then show ?case by (simp add: trace_inv_def)
qed

lemma trace_exit:
  assumes "driver_trace tcp lim (driver_new tr) evs (Some x) d"
  obtains evs' ev d1 where "evs = evs' @ [ev]" and "arm_ok lim ev d1 (Some x) d"
    and "driver_trace tcp lim (driver_new tr) evs' None d1"
proof -
  from assms obtain evs' ev d1 where 1: "evs = evs' @ [ev]" "enabled d1 ev"
    "driver_step tcp lim ev d1 = (Some x, d)" and t: "driver_trace tcp lim (driver_new tr) evs' None d1"
    by (elim driver_trace_exitE) blast
  from trace_invariant [OF t] have "session_inv (drv_session d1)" by (simp add: trace_inv_def)
  from driver_step_ok [OF this 1(2,3)] 1(1) t show ?thesis using that by blast
qed

text \<open>A running driver has not been marked; an arm that ends it marks it once.\<close>

lemma running_not_terminal:
  "driver_trace tcp lim (driver_new tr) evs None d \<Longrightarrow> \<not> is_terminal (drv_state d)"
proof (induction evs "None :: driver_exit option" d rule: driver_trace.induct)
  case trace_start
  then show ?case by (simp add: driver_new_def is_terminal_def)
next
  case (trace_step evs d ev d')
  have "session_inv (drv_session d)" using trace_invariant [OF trace_step.hyps(1)] by (simp add: trace_inv_def)
  then show ?case using driver_step_ok [OF _ trace_step.hyps(3,4)] trace_step.hyps(2) by (simp add: arm_ok_def)
next
  case (trace_close evs d)
  then show ?case by (simp add: begin_closing_def is_terminal_def)
qed

lemma exit_marks:
  assumes "driver_step tcp lim ev d = (Some x, d')" "\<not> is_terminal (drv_state d)"
  shows "case x of
       Exit_Unusable \<Rightarrow> drv_state d' = Unusable \<and> drv_admission_closed d'
     | Exit_Failed \<Rightarrow> drv_state d' = (if ev = Ev_Shutdown then Closed else Failed) \<and> drv_admission_closed d'
     | Exit_Closed \<Rightarrow>
         if ev = Ev_Shutdown then drv_state d' = Closed \<and> drv_admission_closed d'
         else drv_submit_closed d' \<and> drv_state d' = drv_state d \<and> drv_admission_closed d' = drv_admission_closed d"
  using assms
  by (cases ev)
     (auto simp: driver_step_def on_shutdown_def on_submit_def on_submit_closed_def on_read_def loop_end_def Let_def
      mark_state_def not_terminal_iff split: prod.splits sum.splits option.splits if_splits)

section \<open>A run to evaluate\<close>

text \<open>
  One submission of request 2, the success response to it arriving from the stream, then a
  shutdown.
\<close>

definition sample_response :: bytes where
  "sample_response = [0, 2, 0, 0, 0, 0, 0, 0, 0, 0, 0, 0, 2, 0, 0, 0, 0, 0, 0, 0]"

definition sample_submit :: submit where
  "sample_submit = \<lparr>sub_id = 2, sub_bytes = [1], sub_completion = 7\<rparr>"

definition sample_transport :: "in_memory_transport any_transport" where
  "sample_transport = Tcp (memory_new sample_response 64 64)"

lemma read_chunk_tcp:
  assumes "\<not> mem_closed m" "n = min (min READ_CHUNK (mem_read_step m)) (length (mem_inbound m))"
  shows "read_chunk memory_ops (Tcp m) =
    (Inr (if n = 0 then None else Some (take n (mem_inbound m))), Tcp (m\<lparr>mem_inbound := drop n (mem_inbound m)\<rparr>))"
  using assms by (auto simp: read_chunk_def any_read_def memory_ops_def memory_read_eq get_to_def Let_def min_def split: if_splits)

lemma driver_write_all_tcp:
  assumes "\<not> mem_closed m" and "length bs \<le> mem_write_step m" and "bs \<noteq> []"
    and "length bs < 18446744073709551616"
  shows "driver_write_all memory_ops (Tcp m) bs = (Inr (), Tcp (m\<lparr>mem_written := mem_written m @ bs\<rparr>))"
  using assms
  by (simp add: driver_write_all_def driver_write_all_loop.simps [of _ _ 0] driver_write_all_loop.simps [of _ _ "length bs"]
      any_write_def memory_ops_def memory_write_eq get_from_def checked_add_usize_def min_absorb1 Let_def le_max_iff_disj)

lemma sample_response_decoded:
  "verdict_of PRE_NEGOTIATION [2] sample_response = Deliver 2 (Inr sample_response) 20"
  by (simp add: verdict_of_def client_admission_def decode_eval sample_response_def frame_total_def)

definition sample_running :: "in_memory_transport driver" where
  "sample_running =
     \<lparr>drv_transport = Tcp ((memory_new sample_response 64 64)\<lparr>mem_written := [1], mem_inbound := []\<rparr>),
      drv_session = \<lparr>ses_buffer = [], ses_completions = [], ses_live = registry_new,
                     ses_log = [(7, Inr sample_response)]\<rparr>,
      drv_submit_closed = False, drv_state = Usable, drv_admission_closed = False\<rparr>"

lemma sample_trace:
  "driver_trace memory_ops PRE_NEGOTIATION (driver_new sample_transport) [Ev_Submit sample_submit, Ev_Read] None
     sample_running"
proof -
  let ?m = "memory_new sample_response 64 64"
  define d1 :: "in_memory_transport driver" where "d1 = \<lparr>drv_transport = Tcp (?m\<lparr>mem_written := [1]\<rparr>),
    drv_session = \<lparr>ses_buffer = [], ses_completions = [(2, 7)], ses_live = \<lparr>live = [2]\<rparr>, ses_log = []\<rparr>,
    drv_submit_closed = False, drv_state = Usable, drv_admission_closed = False\<rparr>"
  have s1: "driver_step memory_ops PRE_NEGOTIATION (Ev_Submit sample_submit) (driver_new sample_transport) = (None, d1)"
    by (simp add: driver_step_def on_submit_def driver_new_def session_new_def registry_new_def
        registry_insert_def sample_submit_def sample_transport_def driver_write_all_tcp memory_new_def
        loop_end_def d1_def)
  have len: "length sample_response = 20" by (simp add: sample_response_def)
  have rd: "read_chunk memory_ops (Tcp (?m\<lparr>mem_written := [1]\<rparr>)) =
      (Inr (Some sample_response), Tcp (?m\<lparr>mem_written := [1], mem_inbound := []\<rparr>))"
    using read_chunk_tcp [of "?m\<lparr>mem_written := [1]\<rparr>" 20] len
    by (simp add: memory_new_def READ_CHUNK_def)
  have v: "verdict_of PRE_NEGOTIATION [] [] = Wait" by (simp add: verdict_of_def decode_short)
  have dr: "drain_frames PRE_NEGOTIATION \<lparr>ses_buffer = sample_response, ses_completions = [(2, 7)],
      ses_live = \<lparr>live = [2]\<rparr>, ses_log = []\<rparr> = (None, drv_session sample_running)"
    by (subst drain_frames_eq, simp add: live_ids_def sample_response_decoded, subst drain_frames_eq)
       (simp add: resolve_def keep_def send_def retire_live_def forget_def registry_retire_def len v
        live_ids_def sample_running_def registry_new_def)
  have s2: "driver_step memory_ops PRE_NEGOTIATION Ev_Read d1 = (None, sample_running)"
    by (simp add: driver_step_def on_read_def d1_def rd dr loop_end_def)
       (simp add: sample_running_def)
  show ?thesis
    using trace_step [OF trace_step [OF trace_start _ s1] _ s2] by (simp add: driver_new_def)
qed

lemma sample_exit:
  "\<exists>d. driver_trace memory_ops PRE_NEGOTIATION (driver_new sample_transport)
     ([Ev_Submit sample_submit, Ev_Read] @ [Ev_Shutdown]) (Some Exit_Closed) d"
proof -
  have "fst (driver_step memory_ops PRE_NEGOTIATION Ev_Shutdown sample_running) = Some Exit_Closed"
    by (simp add: driver_step_def on_shutdown_def sample_running_def any_shutdown_def memory_ops_def
        memory_shutdown_def memory_new_def end_session_def)
  then show ?thesis
    using trace_step [OF sample_trace, of Ev_Shutdown] by (metis enabled.simps(3) prod.collapse)
qed

section \<open>Properties of the driver\<close>

text \<open>
  C4: by the time the driver exits, for whatever reason and after whatever interleaving of
  submissions, reads and closes, every submission has been answered exactly once: the channels in
  the log are precisely the channels submitted, without repetition, nobody is left waiting and no
  identifier is left live.
\<close>

theorem every_submission_resolved_once:
  assumes "driver_trace tcp lim (driver_new tr) evs (Some x) d"
  shows "mset (map fst (ses_log (drv_session d))) = mset (map sub_completion (submissions evs)) \<and>
    distinct (map fst (ses_log (drv_session d))) \<and>
    ses_completions (drv_session d) = [] \<and> live_ids (ses_live (drv_session d)) = []"
proof -
  have inv: "trace_inv lim evs (Some x) d" by (rule trace_invariant [OF assms])
  obtain ev d1 where "arm_ok lim ev d1 (Some x) d" using assms by (rule trace_exit)
  then have "ses_completions (drv_session d) = []" by (simp add: arm_ok_def)
  moreover from this inv have "mset (map fst (ses_log (drv_session d))) = mset (map snd (submitted evs))"
    by (simp add: trace_inv_def channels_def)
  moreover have "map snd (submitted evs) = map sub_completion (submissions evs)"
    by (simp add: submitted_def)
  ultimately show ?thesis using inv by (simp add: trace_inv_def session_inv_def)
qed

theorem every_submission_resolved_once_witness:
  "\<exists>d. mset (map fst (ses_log (drv_session (d :: in_memory_transport driver)))) = {#7#} \<and>
       ses_completions (drv_session d) = []"
proof -
  obtain d where "driver_trace memory_ops PRE_NEGOTIATION (driver_new sample_transport)
     ([Ev_Submit sample_submit, Ev_Read] @ [Ev_Shutdown]) (Some Exit_Closed) d" using sample_exit by blast
  from every_submission_resolved_once [OF this] show ?thesis
    by (auto simp: sample_submit_def)
qed

text \<open>
  C3: while the driver runs, callers multiplexed over one stream never receive each other's
  answers.  Every caller resolved so far submitted a request, and what it was sent is either a
  complete frame that carries its own request identifier and decodes on its own, or the
  request-scoped refusal of such a frame; every other submission is still waiting, registered under
  its own live identifier.
\<close>

theorem running_driver_answers_own:
  assumes "driver_trace tcp lim (driver_new tr) evs None d"
  shows "list_all (\<lambda>(c, r). \<exists>sub \<in> set (submissions evs). sub_completion sub = c \<and> answers lim (sub_id sub) r)
      (ses_log (drv_session d)) \<and>
    list_all (\<lambda>(i, c). \<exists>sub \<in> set (submissions evs). sub_completion sub = c \<and> sub_id sub = i)
      (ses_completions (drv_session d)) \<and>
    mset (map sub_completion (submissions evs)) =
      mset (map snd (ses_completions (drv_session d)) @ map fst (ses_log (drv_session d))) \<and>
    set (live_ids (ses_live (drv_session d))) = fst ` set (ses_completions (drv_session d))"
proof -
  have inv: "trace_inv lim evs None d" by (rule trace_invariant [OF assms])
  have sub: "(i, c) \<in> set (submitted evs) \<longleftrightarrow> (\<exists>sub \<in> set (submissions evs). sub_completion sub = c \<and> sub_id sub = i)"
    for i c by (auto simp: submitted_def)
  have "list_all (\<lambda>(c, r). \<exists>sub \<in> set (submissions evs). sub_completion sub = c \<and> answers lim (sub_id sub) r)
      (ses_log (drv_session d))"
    using inv sub by (fastforce simp: trace_inv_def entry_ok_def list_all_iff)
  moreover have "list_all (\<lambda>(i, c). \<exists>sub \<in> set (submissions evs). sub_completion sub = c \<and> sub_id sub = i)
      (ses_completions (drv_session d))"
    using inv sub by (fastforce simp: trace_inv_def list_all_iff)
  moreover have "map snd (submitted evs) = map sub_completion (submissions evs)" by (simp add: submitted_def)
  ultimately show ?thesis using inv by (simp add: trace_inv_def session_inv_def channels_def)
qed

theorem running_driver_answers_own_witness:
  "answers PRE_NEGOTIATION 2 (Inr sample_response) \<and>
   mset (map sub_completion (submissions [Ev_Submit sample_submit, Ev_Read])) = {#7#}"
  using running_driver_answers_own [OF sample_trace]
  by (simp add: sample_running_def sample_submit_def)

text \<open>
  C26: which state an exit leaves.  Nobody is left waiting.  A protocol failure, also of a submission
  that cannot be registered, leaves the session unusable and a transport failure leaves it failed,
  except that of the shutdown itself, which leaves it closed like a shutdown that succeeds; all of them
  close admission.  The only other exit is the quiet one, once every handle has dropped its submit
  channel: it leaves the state and admission as they were, usable or closing.
\<close>

theorem driver_exit_state:
  assumes "driver_trace tcp lim (driver_new tr) (evs @ [ev]) (Some x) d"
  shows "ses_completions (drv_session d) = [] \<and>
    (case x of
       Exit_Unusable \<Rightarrow> drv_state d = Unusable \<and> drv_admission_closed d
     | Exit_Failed \<Rightarrow> drv_state d = (if ev = Ev_Shutdown then Closed else Failed) \<and> drv_admission_closed d
     | Exit_Closed \<Rightarrow>
         if ev = Ev_Shutdown then drv_state d = Closed \<and> drv_admission_closed d
         else drv_submit_closed d \<and> drv_state d \<in> {Usable, Closing} \<and>
           (\<exists>d1. driver_trace tcp lim (driver_new tr) evs None d1 \<and> drv_state d = drv_state d1 \<and>
              drv_admission_closed d = drv_admission_closed d1))"
proof -
  obtain d1 where t: "driver_trace tcp lim (driver_new tr) evs None d1" and st: "driver_step tcp lim ev d1 = (Some x, d)"
    using assms by (elim driver_trace_exitE) auto
  have "ses_completions (drv_session d) = []" using assms by (rule trace_exit) (simp add: arm_ok_def)
  then show ?thesis using exit_marks [OF st running_not_terminal [OF t]] t running_not_terminal [OF t]
    by (auto simp: not_terminal_iff split: driver_exit.splits if_splits)
qed

theorem driver_exit_state_witness:
  "\<exists>d. driver_trace memory_ops PRE_NEGOTIATION (driver_new sample_transport)
       ([Ev_Submit sample_submit, Ev_Read] @ [Ev_Shutdown]) (Some Exit_Closed) d \<and>
     drv_state d = Closed \<and> drv_admission_closed d"
proof -
  obtain d where t: "driver_trace memory_ops PRE_NEGOTIATION (driver_new sample_transport)
     ([Ev_Submit sample_submit, Ev_Read] @ [Ev_Shutdown]) (Some Exit_Closed) d" using sample_exit by blast
  from driver_exit_state [OF t] t show ?thesis by auto
qed

text \<open>
  C14: how the peer's bytes are cut into reads does not matter.  Feeding the stream chunk by chunk
  resolves the same waiters with the same outcomes, in the same order, and ends in the same session
  as feeding it in one piece; if a chunk ends the session, the whole stream ends it with the same
  failure, having resolved the same waiters.
\<close>

theorem fragmentation_irrelevant:
  "case feed lim s (c # cs) of
     (None, s1) \<Rightarrow> drain_frames lim (receive (concat (c # cs)) s) = (None, s1)
   | (Some y, s1) \<Rightarrow> \<exists>rest. drain_frames lim (receive (concat (c # cs)) s) = (Some y, receive rest s1)"
proof -
  obtain y s' where d: "drain_frames lim (receive c s) = (y, s')" by (cases "drain_frames lim (receive c s)")
  have r: "receive (concat (c # cs)) s = receive (concat cs) (receive c s)" by (simp add: receive_receive)
  show ?thesis
  proof (cases y)
    case None
    with d have i: "drain_frames lim s' = (None, s')" by (intro drain_idem) simp
    obtain x s1 where f: "feed lim s' cs = (x, s1)" by (cases "feed lim s' cs")
    from feed_drain [OF i f] f d None drain_receive [OF d, of "concat cs"] r show ?thesis
      by (simp split: option.splits)
  next
    case (Some z)
    with d drain_receive [OF d, of "concat cs"] r show ?thesis by auto
  qed
qed

text \<open>
  Dispatching buffered frames keeps the session's books.  From a well-formed session it ends
  in a well-formed one; no channel is lost, duplicated or sent to twice; the log only grows, by
  answers to the requests their channels waited for; and exactly a prefix of the buffer is consumed.
\<close>

theorem dispatch_preserves_session:
  assumes "session_inv s" and "drain_frames lim s = (x, s')"
  shows "session_inv s' \<and> channels s' = channels s \<and>
    (\<exists>new pre. ses_log s' = ses_log s @ new \<and> ses_buffer s = pre @ ses_buffer s' \<and>
       list_all (\<lambda>(c, r). \<exists>i. (i, c) \<in> set (ses_completions s) \<and> answers lim i r) new)"
  using drain_invariant [OF assms] drain_answers [OF assms] by auto

theorem dispatch_preserves_session_witness:
  "\<exists>x s'. drain_frames PRE_NEGOTIATION (receive sample_response session_new) = (x, s') \<and>
     session_inv s' \<and> channels s' = {#}"
proof -
  obtain x s' where d: "drain_frames PRE_NEGOTIATION (receive sample_response session_new) = (x, s')"
    by (cases "drain_frames PRE_NEGOTIATION (receive sample_response session_new)")
  have i: "session_inv (receive sample_response session_new)" by (simp add: receive_def)
  from dispatch_preserves_session [OF i d] d show ?thesis by (simp add: receive_def)
qed

section \<open>Error frames\<close>

text \<open>An error frame without detail and text, and what the dispatch loop makes of it.\<close>

definition error_frame :: "error_class \<Rightarrow> u64 \<Rightarrow> bytes" where
  "error_frame c i = header_bytes Kind_Error (error_class_value c) 0 2 i @ [0, 0]"

lemma error_frame_verdict:
  assumes "i \<noteq> 0 \<and> i \<in> set ids \<or> error_class_scope c = ConnectionFatal"
  shows "verdict_of PRE_NEGOTIATION ids (error_frame c i) = Deliver i (Inr (error_frame c i)) 22"
proof -
  let ?o = "\<lparr>out_kind = Kind_Error, out_code = error_class_value c, out_request_id = i,
    out_metadata = [], out_payload = OutError [] []\<rparr>"
  have z: "to_le_bytes (0 :: u16) = [0, 0]" by (simp add: to_le_bytes_def)
  have e: "encode_with_max ?o (frame_size PRE_NEGOTIATION) (metadata_size PRE_NEGOTIATION) = Inr (error_frame c i)"
    by (simp add: encode_with_max_ok encode_payload_def u16_try_from_def error_frame_def z
        PRE_NEGOTIATION_def MAX_FRAME_SIZE_def)
  have a: "acceptable (client_admission PRE_NEGOTIATION ids) ?o"
    using assms
    by (auto simp: acceptable_def client_admission_def check_connection_state_def correlate_def Let_def)
  obtain f where f: "decode (error_frame c i) (client_admission PRE_NEGOTIATION ids) = Frame f"
    "outgoing_of f = ?o" "frame_total f = 22"
    using decode_encoded [OF e _ _ a, of "[]"] by (auto simp: client_admission_def error_frame_def)
  then have "request_id_value (hdr_request_id (frm_header f)) = i" by (simp add: outgoing_of_def)
  with f show ?thesis by (simp add: verdict_of_def error_frame_def)
qed

end
