(* ===== verification/Connection.thy ===== *)
theory Connection
  imports Establish Driver_Trace
begin

text \<open>
  The public operations of a connection (\<open>src/src/connection/mod.rs\<close>): the five commands with the
  path they share, and closing.  What an operation awaits is the environment's: the record
  \<open>waits\<close> holds what each await of one command resolved to and the lifecycle state seen there, so
  that every interleaving with the driver and with other handles is a choice of \<open>waits\<close>.  Closing
  is split at its awaits into the atomic steps the code takes under the locks.
\<close>

section \<open>Bounds and admission\<close>

definition effective_limits :: "negotiated \<Rightarrow> u64 \<times> u16" where
  "effective_limits n = (effective_maximum_frame_size n, effective_maximum_metadata_size n)"

definition wire_size :: "usize \<Rightarrow> u64" where
  "wire_size payload_len =
     (case do { h \<leftarrow> u64_try_from HEADER_LENGTH;
                checked_add_u64 h
                  (case u64_try_from payload_len of Some p \<Rightarrow> p | None \<Rightarrow> 18446744073709551615) } of
        Some t \<Rightarrow> t
      | None \<Rightarrow> 18446744073709551615)"

definition connection_failed :: io_error where
  "connection_failed = IoError ConnectionAborted ''the connection failed''"

definition check_usable :: "connection_state \<Rightarrow> command_error + unit" where
  "check_usable s =
     (if state_is_usable s then Inr ()
      else Inl (case s of
          Closed \<Rightarrow> Cmd_Closed
        | Closing \<Rightarrow> Cmd_Closed
        | Failed \<Rightarrow> Cmd_Transport connection_failed
        | Unusable \<Rightarrow> Cmd_Unusable
        | Usable \<Rightarrow> Cmd_Unusable))"

record waits =
  wait_permit :: bool
  wait_permit_state :: connection_state
  wait_send :: bool
  wait_send_state :: connection_state
  wait_completion :: "outcome option"
  wait_completion_state :: connection_state

definition acquire_permit :: "waits \<Rightarrow> command_error + unit" where
  "acquire_permit w =
     (if wait_permit w then Inr ()
      else Inl (case wait_permit_state w of
          Closed \<Rightarrow> Cmd_Closed
        | Closing \<Rightarrow> Cmd_Closed
        | Failed \<Rightarrow> Cmd_Transport connection_failed
        | _ \<Rightarrow> Cmd_Unusable))"

definition completion_lost :: "connection_state \<Rightarrow> command_error" where
  "completion_lost s =
     (case s of
        Closed \<Rightarrow> Cmd_Closed
      | Closing \<Rightarrow> Cmd_Closed
      | Failed \<Rightarrow> Cmd_Transport connection_failed
      | _ \<Rightarrow> Cmd_Unusable)"

definition allocate_id :: "'t shared \<Rightarrow> (command_error + u64) \<times> 't shared" where
  "allocate_id sh =
     (case allocate (sh_allocator sh) of
        (i, a) \<Rightarrow> (if i = 0 then Inl Cmd_Unusable else Inr i, sh\<lparr>sh_allocator := a\<rparr>))"

section \<open>One request\<close>

definition encode_request :: "u16 \<Rightarrow> bytes \<Rightarrow> u64 \<Rightarrow> u64 \<Rightarrow> u16 \<Rightarrow> command_error + bytes" where
  "encode_request opcode payload ident effective_frame effective_metadata =
     map_err (\<lambda>e. case e of
          FrameTooLarge \<Rightarrow> LocalLimitExceeded (wire_size (length payload)) effective_frame
        | MetadataTooLarge \<Rightarrow> LocalLimitExceeded (wire_size (length payload)) effective_frame
        | MetadataNotAscending \<Rightarrow> InvalidRequest)
       (encode_with_max \<lparr>out_kind = Kind_Request, out_code = opcode, out_request_id = ident,
                         out_metadata = [], out_payload = OutOpaque payload\<rparr>
          effective_frame effective_metadata)"

definition submit_request ::
  "'t shared \<Rightarrow> u64 \<Rightarrow> bytes \<Rightarrow> channel \<Rightarrow> waits \<Rightarrow> (command_error + (u64 \<times> bytes)) \<times> submit option" where
  "submit_request sh ident bs ch w =
     (if \<not> sh_submit_tx sh then (Inl Cmd_Unusable, None)
      else let sub = \<lparr>sub_id = ident, sub_bytes = bs, sub_completion = ch\<rparr> in
        if \<not> wait_send w then (Inl (completion_lost (wait_send_state w)), None)
        else (case wait_completion w of
            None \<Rightarrow> Inl (completion_lost (wait_completion_state w))
          | Some (Inr frame_bytes) \<Rightarrow> Inr (ident, frame_bytes)
          | Some (Inl e) \<Rightarrow> Inl (from_driver e), Some sub))"

definition execute ::
  "'t shared \<Rightarrow> u16 \<Rightarrow> bytes \<Rightarrow> channel \<Rightarrow> waits \<Rightarrow>
   (command_error + (u64 \<times> bytes)) \<times> 't shared \<times> submit option" where
  "execute sh opcode payload ch w =
     (case check_usable (sh_state sh) of Inl e \<Rightarrow> (Inl e, sh, None) | Inr _ \<Rightarrow>
      let (effective_frame, effective_metadata) = effective_limits (sh_negotiated sh);
          size = wire_size (length payload) in
      if effective_frame < size then (Inl (LocalLimitExceeded size effective_frame), sh, None) else
      case acquire_permit w of Inl e \<Rightarrow> (Inl e, sh, None) | Inr _ \<Rightarrow>
      case allocate_id sh of (Inl e, sh1) \<Rightarrow> (Inl e, sh1, None) | (Inr ident, sh1) \<Rightarrow>
      case encode_request opcode payload ident effective_frame effective_metadata of
        Inl e \<Rightarrow> (Inl e, sh1, None) | Inr bs \<Rightarrow>
      case submit_request sh1 ident bs ch w of (r, sub) \<Rightarrow> (r, sh1, sub))"

definition decode_own :: "negotiated \<Rightarrow> bytes \<Rightarrow> command_error + frame" where
  "decode_own n frame_bytes =
     (let request_id =
            (case do { slice \<leftarrow> get_range frame_bytes 12 20;
                       if length slice = 8 then Some slice else None } of
               Some array \<Rightarrow> from_le_bytes array
             | None \<Rightarrow> 0) in
      case decode frame_bytes
             \<lparr>adm_role = Client, adm_state = Negotiated,
              adm_limits = \<lparr>frame_size = effective_maximum_frame_size n,
                            metadata_size = effective_maximum_metadata_size n\<rparr>,
              adm_in_flight = [request_id]\<rparr> of
        Frame f \<Rightarrow> Inr f
      | Failure x _ \<Rightarrow> Inl (from_failure x)
      | Need _ \<Rightarrow> Inl Cmd_ProtocolViolation)"

section \<open>The commands\<close>

definition finish_command ::
  "(frame \<Rightarrow> command_failure + 'a) \<Rightarrow> 't shared \<Rightarrow> command_error + (u64 \<times> bytes) \<Rightarrow> command_error + 'a" where
  "finish_command interpret' sh r =
     and_then r (\<lambda>(_, frame_bytes).
     and_then (decode_own (sh_negotiated sh) frame_bytes) (\<lambda>f.
     map_err from_command_failure (interpret' f)))"

definition ping :: "'t shared \<Rightarrow> channel \<Rightarrow> waits \<Rightarrow> (command_error + unit) \<times> 't shared \<times> submit option" where
  "ping sh ch w =
     (case execute sh PING_OPCODE encode_ping ch w of
        (r, sh', sub) \<Rightarrow> (finish_command interpret_ping sh r, sh', sub))"

definition get :: "'t shared \<Rightarrow> bytes \<Rightarrow> channel \<Rightarrow> waits \<Rightarrow>
    (command_error + get_result) \<times> 't shared \<times> submit option" where
  "get sh key ch w =
     (case execute sh GET_OPCODE (encode_key key) ch w of
        (r, sh', sub) \<Rightarrow>
          (and_then (finish_command interpret_get sh r) (\<lambda>outcome.
             Inr (case outcome of
                    Get_Present v \<Rightarrow> Present v
                  | Get_Absent \<Rightarrow> Missing
                  | Get_HeldOutsideMemory n \<Rightarrow> HeldOutsideMemory n)), sh', sub))"

definition set_command :: "'t shared \<Rightarrow> bytes \<Rightarrow> bytes \<Rightarrow> channel \<Rightarrow> waits \<Rightarrow>
    (command_error + unit) \<times> 't shared \<times> submit option" where
  "set_command sh key v ch w =
     (case encode_set key v of
        Inl _ \<Rightarrow> (Inl InvalidRequest, sh, None)
      | Inr payload \<Rightarrow>
          (case execute sh SET_OPCODE payload ch w of
             (r, sh', sub) \<Rightarrow> (finish_command interpret_set sh r, sh', sub)))"

definition del :: "'t shared \<Rightarrow> bytes \<Rightarrow> channel \<Rightarrow> waits \<Rightarrow>
    (command_error + bool) \<times> 't shared \<times> submit option" where
  "del sh key ch w =
     (case execute sh DEL_OPCODE (encode_key key) ch w of
        (r, sh', sub) \<Rightarrow> (finish_command interpret_del sh r, sh', sub))"

definition exists_command :: "'t shared \<Rightarrow> bytes \<Rightarrow> channel \<Rightarrow> waits \<Rightarrow>
    (command_error + bool) \<times> 't shared \<times> submit option" where
  "exists_command sh key ch w =
     (case execute sh EXISTS_OPCODE (encode_key key) ch w of
        (r, sh', sub) \<Rightarrow> (finish_command interpret_exists sh r, sh', sub))"

section \<open>Closing\<close>

definition close_admission :: "'t shared \<Rightarrow> 't shared" where
  "close_admission sh = sh\<lparr>sh_admission := (sh_admission sh)\<lparr>sem_closed := True\<rparr>\<rparr>"

text \<open>
  The steps of \<open>close\<close> before its await: the terminal check is one locked step, moving to closing
  another, so the two are separate here.
\<close>

definition close_check :: "'t shared \<Rightarrow> bool" where
  "close_check sh = is_terminal (sh_state sh)"

definition close_begin :: "'t shared \<Rightarrow> 't shared" where
  "close_begin sh = close_admission (sh\<lparr>sh_state := begin_closing (sh_state sh)\<rparr>)"

definition has_driver :: "'t shared \<Rightarrow> bool" where
  "has_driver sh = sh_driver sh"

text \<open>Taking the shutdown sender and the driver handle: whether the signal is sent and whether to wait.\<close>

definition close_take :: "'t shared \<Rightarrow> bool \<times> bool \<times> 't shared" where
  "close_take sh = (sh_shutdown_tx sh, sh_driver sh, sh\<lparr>sh_shutdown_tx := False, sh_driver := False\<rparr>)"

datatype join_error = Join_Error

definition close_join :: "join_error + driver_exit \<Rightarrow> 't shared \<Rightarrow> (io_error + unit) \<times> 't shared" where
  "close_join r sh =
     (case r of
        Inr Exit_Closed \<Rightarrow> (Inr (), sh\<lparr>sh_state := finish_close (sh_state sh) Closed\<rparr>)
      | Inr Exit_Failed \<Rightarrow>
          (Inl (IoError BrokenPipe ''the transport failed during shutdown''),
           sh\<lparr>sh_state := finish_close (sh_state sh) Failed\<rparr>)
      | Inr Exit_Unusable \<Rightarrow> (Inr (), sh)
      | Inl _ \<Rightarrow> (Inr (), sh))"

definition close_without_driver :: "'t stream_ops \<Rightarrow> 't shared \<Rightarrow> (io_error + unit) \<times> 't shared" where
  "close_without_driver tcp sh =
     (case sh_transport sh of
        None \<Rightarrow> (Inr (), sh\<lparr>sh_state := Closed\<rparr>)
      | Some tr \<Rightarrow>
          (case fst (any_shutdown tcp tr) of
             Inr _ \<Rightarrow> (Inr (), sh\<lparr>sh_transport := None, sh_state := Closed\<rparr>)
           | Inl e \<Rightarrow> (Inl e, sh\<lparr>sh_transport := None, sh_state := Failed\<rparr>)))"

text \<open>
  A close that no other handle interferes with.  With a driver the shutdown signal makes the driver
  run its shutdown arm on the shared state, and the handle then reports how it ended.
\<close>

definition close_connection ::
  "'t stream_ops \<Rightarrow> 't shared \<Rightarrow> 't driver \<Rightarrow> (io_error + unit) \<times> 't shared \<times> 't driver" where
  "close_connection tcp sh d =
     (if close_check sh then (Inr (), sh, d)
      else let sh = close_begin sh in
        if has_driver sh then
          (case close_take sh of
             (signal, handle, sh) \<Rightarrow>
               if \<not> handle then (Inr (), sh, d)
               else case on_shutdown tcp (d\<lparr>drv_state := sh_state sh, drv_admission_closed := True\<rparr>) of
                 (x, d') \<Rightarrow>
                   let sh = sh\<lparr>sh_state := drv_state d'\<rparr>;
                       (r, sh) = close_join (case x of Some e \<Rightarrow> Inr e | None \<Rightarrow> Inl Join_Error) sh
                   in (r, sh, d'\<lparr>drv_state := sh_state sh\<rparr>))
        else (case close_without_driver tcp sh of (r, sh) \<Rightarrow> (r, sh, d)))"

end
