(* ===== verification/Connection_Laws.thy ===== *)
theory Connection_Laws
  imports Connection
begin

text \<open>
  What the public operations guarantee: which requests reach the driver and what a server makes of
  them, that the frame the driver delivers is always readable by its caller, that a reply a server
  encodes is the result the caller gets, what an error says about the request, and how closing ends.
\<close>

section \<open>Requests\<close>

lemma wire_size_eq:
  assumes "20 + n < 18446744073709551616"
  shows "unat (wire_size n) = 20 + n"
proof -
  have h: "u64_try_from HEADER_LENGTH = Some 20" by (simp add: HEADER_LENGTH_def u64_try_from_def)
  have n: "u64_try_from n = Some (of_nat n)" and u: "unat (of_nat n :: u64) = n"
    using assms by (simp_all add: u64_try_from_def unat_of_nat)
  obtain t where "checked_add_u64 20 (of_nat n) = Some t" "unat t = 20 + n"
    using assms u by (cases "checked_add_u64 20 (of_nat n)") (auto simp: checked_simps)
  with h n show ?thesis by (simp add: wire_size_def)
qed

lemma encode_request_ok:
  "encode_request opcode payload i F M = Inr bs \<longleftrightarrow>
     encode_with_max \<lparr>out_kind = Kind_Request, out_code = opcode, out_request_id = i,
       out_metadata = [], out_payload = OutOpaque payload\<rparr> F M = Inr bs"
  by (simp add: encode_request_def)

lemma encode_request_fits:
  "(\<exists>bs. encode_request opcode payload i F M = Inr bs) \<longleftrightarrow>
     length payload < 4294967296 \<and> 20 + length payload \<le> unat F"
  by (simp add: encode_request_ok encode_with_max_ok encode_payload_def)

lemma allocate_nonzero: "fst (allocate a) \<noteq> 0"
  by (simp add: allocate_alt Let_def)

lemma allocate_id_ok: "\<exists>i a. i \<noteq> 0 \<and> allocate_id sh = (Inr i, sh\<lparr>sh_allocator := a\<rparr>)"
  using allocate_nonzero [of "sh_allocator sh"]
  by (cases "allocate (sh_allocator sh)") (auto simp: allocate_id_def)

lemma execute_submitted:
  assumes "execute sh opcode payload ch w = (r, sh', Some sub)"
  shows "sh_state sh = Usable \<and> sub_completion sub = ch \<and> sub_id sub \<noteq> 0 \<and>
    sub_id sub = fst (allocate (sh_allocator sh)) \<and>
    encode_with_max \<lparr>out_kind = Kind_Request, out_code = opcode, out_request_id = sub_id sub,
       out_metadata = [], out_payload = OutOpaque payload\<rparr>
       (effective_maximum_frame_size (sh_negotiated sh)) (effective_maximum_metadata_size (sh_negotiated sh)) =
     Inr (sub_bytes sub) \<and>
    r = (case wait_completion w of
            None \<Rightarrow> Inl (completion_lost (wait_completion_state w))
          | Some (Inr frame_bytes) \<Rightarrow> Inr (sub_id sub, frame_bytes)
          | Some (Inl e) \<Rightarrow> Inl (from_driver e))"
  using assms
  by (auto simp: execute_def check_usable_def state_is_usable_def effective_limits_def Let_def
      allocate_id_def submit_request_def encode_request_ok
      split: sum.splits if_splits prod.splits cong: option.case_cong sum.case_cong)

text \<open>
  C31: a request is submitted exactly when it can be sent.  On a session whose frame bound fits the
  wire's 32-bit length, a payload reaches the driver if and only if the session is usable, the whole
  frame fits the effective bound, a permit is granted and the submit channel takes it; a payload too
  large is refused with its size and the bound before a permit or an identifier is used up.
\<close>

theorem execute_submits_iff:
  assumes "unat (effective_maximum_frame_size (sh_negotiated sh)) < 4294967296"
    and "20 + length payload < 18446744073709551616"
  shows "((\<exists>r sh' sub. execute sh opcode payload ch w = (r, sh', Some sub)) \<longleftrightarrow>
      sh_state sh = Usable \<and>
      20 + length payload \<le> unat (effective_maximum_frame_size (sh_negotiated sh)) \<and>
      wait_permit w \<and> sh_submit_tx sh \<and> wait_send w) \<and>
    (sh_state sh = Usable \<and>
     unat (effective_maximum_frame_size (sh_negotiated sh)) < 20 + length payload \<longrightarrow>
      execute sh opcode payload ch w =
        (Inl (LocalLimitExceeded (wire_size (length payload)) (effective_maximum_frame_size (sh_negotiated sh))),
         sh, None))"
    (is "(?lhs \<longleftrightarrow> ?rhs) \<and> ?refused")
proof -
  let ?ef = "effective_maximum_frame_size (sh_negotiated sh)"
  and ?em = "effective_maximum_metadata_size (sh_negotiated sh)"
  note defs = execute_def check_usable_def state_is_usable_def effective_limits_def
    acquire_permit_def submit_request_def Let_def
  have lt: "?ef < wire_size (length payload) \<longleftrightarrow> unat ?ef < 20 + length payload"
    using wire_size_eq [OF assms(2)] by (simp add: word_less_nat_alt)
  obtain i a where al: "allocate_id sh = (Inr i, sh\<lparr>sh_allocator := a\<rparr>)" using allocate_id_ok by blast
  have "?lhs \<longleftrightarrow> ?rhs"
  proof
    assume ?lhs
    then show ?rhs using lt al by (auto simp: defs split: sum.splits if_splits)
  next
    assume r: ?rhs
    with assms(1) obtain bs where "encode_request opcode payload i ?ef ?em = Inr bs"
      using encode_request_fits [of opcode payload i ?ef ?em] by auto
    with r lt al show ?lhs by (simp add: defs)
  qed
  moreover have ?refused using lt by (simp add: defs)
  ultimately show ?thesis by blast
qed

text \<open>A session to evaluate.\<close>

definition sample_shared :: "in_memory_transport shared" where
  "sample_shared = est_shared (start_session (Tcp (memory_new [] 1 1)) config_default sample_negotiated)"

definition sample_waits :: "bytes \<Rightarrow> waits" where
  "sample_waits fb = \<lparr>wait_permit = True, wait_permit_state = Usable, wait_send = True,
     wait_send_state = Usable, wait_completion = Some (Inr fb), wait_completion_state = Usable\<rparr>"

lemma sample_shared_simps [simp]:
  "sh_negotiated sample_shared = sample_negotiated" "sh_state sample_shared = Usable"
  "sh_submit_tx sample_shared" "sh_driver sample_shared" "sh_shutdown_tx sample_shared"
  "allocate (sh_allocator sample_shared) = (2, \<lparr>alloc_next = 3\<rparr>)"
  "effective_maximum_frame_size sample_negotiated = 65536"
  "effective_maximum_metadata_size sample_negotiated = 4096"
  by (simp_all add: sample_shared_def start_session_def Let_def allocate_def allocator_new_def
      sample_negotiated_def effective_maximum_frame_size_def effective_maximum_metadata_size_def)

theorem execute_submits_iff_witness:
  "\<exists>r sh' sub. execute sample_shared GET_OPCODE [1, 2, 3] 7 (sample_waits []) = (r, sh', Some sub)"
  using execute_submits_iff [of sample_shared "[1, 2, 3]" GET_OPCODE 7 "sample_waits []"]
  by (simp add: sample_waits_def)

text \<open>
  C17: whatever a client sends, a conforming server admits.  A submitted operation whose payload has
  the shape its opcode asks for decodes, under the bounds in force and any set of other identifiers
  in flight, to the request frame with that opcode, that payload and the identifier the driver
  registers it under, and its length is within the effective bound.
\<close>

theorem submitted_request_admitted:
  assumes "execute sh opcode payload ch w = (r, sh', Some sub)"
    and "opcode_is_assigned opcode" and "opcode \<noteq> HANDSHAKE_OPCODE"
    and "payload_shape (OperationRequest opcode) (Opaque payload)"
    and "sub_id sub \<notin> set ids"
  shows "\<exists>f. decode (sub_bytes sub)
      \<lparr>adm_role = Server, adm_state = Negotiated,
       adm_limits = \<lparr>frame_size = effective_maximum_frame_size (sh_negotiated sh),
                     metadata_size = effective_maximum_metadata_size (sh_negotiated sh)\<rparr>,
       adm_in_flight = ids\<rparr> = Frame f \<and>
    hdr_code (frm_header f) = opcode \<and> frm_payload f = Opaque payload \<and>
    hdr_request_id (frm_header f) = RequestId (sub_id sub) \<and>
    length (sub_bytes sub) \<le> unat (effective_maximum_frame_size (sh_negotiated sh))"
proof -
  let ?F = "effective_maximum_frame_size (sh_negotiated sh)"
  and ?M = "effective_maximum_metadata_size (sh_negotiated sh)"
  let ?o = "\<lparr>out_kind = Kind_Request, out_code = opcode, out_request_id = sub_id sub,
       out_metadata = [], out_payload = OutOpaque payload\<rparr>"
  let ?adm = "\<lparr>adm_role = Server, adm_state = Negotiated,
     adm_limits = \<lparr>frame_size = ?F, metadata_size = ?M\<rparr>, adm_in_flight = ids\<rparr>"
  have e: "encode_with_max ?o ?F ?M = Inr (sub_bytes sub)" and nz: "sub_id sub \<noteq> 0"
    using execute_submitted [OF assms(1)] by auto
  have a: "acceptable ?adm ?o"
    using assms nz by (simp add: acceptable_def check_connection_state_def correlate_def)
  from decode_encoded [OF e _ _ a, of "[]"] obtain f where f: "decode (sub_bytes sub) ?adm = Frame f"
    and o: "outgoing_of f = ?o" by auto
  from o have "hdr_code (frm_header f) = opcode" "request_id_value (hdr_request_id (frm_header f)) = sub_id sub"
    "outgoing_payload_of (frm_payload f) = OutOpaque payload" by (simp_all add: outgoing_of_def)
  moreover from this have "frm_payload f = Opaque payload" by (cases "frm_payload f") simp_all
  moreover have "length (sub_bytes sub) \<le> unat ?F" using e by (auto simp: encode_with_max_ok)
  ultimately show ?thesis using f by (cases "hdr_request_id (frm_header f)") auto
qed

lemma sample_executes:
  assumes "length payload \<le> 1000"
  shows "\<exists>r sh' sub. execute sample_shared opcode payload 7 (sample_waits fb) = (r, sh', Some sub) \<and> sub_id sub = 2"
proof -
  obtain bs where "encode_request opcode payload 2 65536 4096 = Inr bs"
    using encode_request_fits [of opcode payload 2 65536 4096] assms by auto
  moreover have "\<not> (65536 :: u64) < wire_size (length payload)"
    using wire_size_eq [of "length payload"] assms by (simp add: word_less_nat_alt)
  ultimately show ?thesis
    by (simp add: execute_def check_usable_def state_is_usable_def effective_limits_def acquire_permit_def
        submit_request_def allocate_id_def sample_waits_def Let_def)
qed

theorem submitted_request_admitted_witness:
  "\<exists>bs f. decode bs \<lparr>adm_role = Server, adm_state = Negotiated,
       adm_limits = \<lparr>frame_size = 65536, metadata_size = 4096\<rparr>, adm_in_flight = [5]\<rparr> = Frame f \<and>
     hdr_code (frm_header f) = GET_OPCODE \<and> frm_payload f = Opaque [1, 2, 3]"
proof -
  obtain r sh' sub where e: "execute sample_shared GET_OPCODE [1, 2, 3] 7 (sample_waits []) = (r, sh', Some sub)"
    and i: "sub_id sub = 2" using sample_executes [of "[1, 2, 3]"] by fastforce
  from submitted_request_admitted [OF e, of "[5]"] i show ?thesis
    by (auto simp: opcode_is_assigned_def opcode_defs)
qed

section \<open>Answers\<close>

definition session_limits :: "negotiated \<Rightarrow> limits" where
  "session_limits n = \<lparr>frame_size = effective_maximum_frame_size n,
                       metadata_size = effective_maximum_metadata_size n\<rparr>"

lemma decode_own_ok:
  assumes "decode fb (client_admission (session_limits n) [i]) = Frame f"
    and "request_id_value (hdr_request_id (frm_header f)) = i"
  shows "decode_own n fb = Inr f"
proof -
  from assms(1) obtain raw where raw: "raw_header_parse fb = Some raw"
    and ref: "header_refusal raw (session_limits n) = None"
    and v: "frame_verdict raw (take (frame_len raw) fb) (client_admission (session_limits n) [i]) = Inr f"
    unfolding decode_Frame_iff by (auto simp: client_admission_def)
  obtain k where "kind_from_wire (raw_kind raw) = Some k" using ref by (rule header_refusal_None)
  with v have "raw_request_id raw = i" using assms(2) by (auto elim!: frame_verdict_OkE)
  with header_request_id_eq [OF raw] have "header_request_id fb = Some i" by simp
  then have "(case do { slice \<leftarrow> get_range fb 12 20; if length slice = 8 then Some slice else None } of
      Some array \<Rightarrow> from_le_bytes array | None \<Rightarrow> 0) = i"
    by (auto simp: header_request_id_def bind_eq_Some_conv split: if_splits)
  with assms(1) show ?thesis by (simp add: decode_own_def client_admission_def session_limits_def)
qed

text \<open>
  What the driver delivers, the caller can read.  Whenever the driver, running on the bounds of
  the session, resolved a caller with frame bytes, decoding them on the caller's side succeeds and
  yields a frame with the caller's own request identifier: neither a decode failure nor an
  incomplete frame can come out of a delivered answer.
\<close>

theorem delivered_frame_readable:
  assumes "answers (session_limits n) i (Inr fb)"
  shows "\<exists>f. decode_own n fb = Inr f \<and> hdr_request_id (frm_header f) = RequestId i \<and> frame_total f = length fb"
proof -
  from assms obtain f where f: "decode fb (client_admission (session_limits n) [i]) = Frame f"
    "request_id_value (hdr_request_id (frm_header f)) = i" "frame_total f = length fb"
    by (auto simp: answers_def)
  from decode_own_ok [OF f(1,2)] f show ?thesis by (cases "hdr_request_id (frm_header f)") auto
qed

lemma sample_answers: "answers (session_limits sample_negotiated) 2 (Inr sample_response)"
  by (rule verdict_answers [of _ "[2]" sample_response _ _ 20])
     (use sample_response_decoded in \<open>simp_all add: session_limits_def PRE_NEGOTIATION_def MAX_FRAME_SIZE_def
       MAX_METADATA_SIZE_def\<close>)

theorem delivered_frame_readable_witness:
  "\<exists>f. decode_own sample_negotiated sample_response = Inr f \<and> hdr_request_id (frm_header f) = RequestId 2"
  using delivered_frame_readable [OF sample_answers] by blast

text \<open>The reply a server sends for each outcome of a \<open>GET\<close>.\<close>

definition get_reply :: "u64 \<Rightarrow> get_result \<Rightarrow> outgoing" where
  "get_reply i res =
     \<lparr>out_kind = Kind_Response,
      out_code = (case res of Present _ \<Rightarrow> 0 | Missing \<Rightarrow> 1 | HeldOutsideMemory _ \<Rightarrow> 4),
      out_request_id = i, out_metadata = [],
      out_payload = (case res of Present v \<Rightarrow> OutOpaque v | Missing \<Rightarrow> OutOpaque [] | HeldOutsideMemory n \<Rightarrow> OutWarm n)\<rparr>"

lemma get_reply_decoded:
  assumes "encode_with_max (get_reply i res) (frame_size lim) (metadata_size lim) = Inr fb" and "i \<noteq> 0"
  shows "\<exists>f. decode fb (client_admission lim [i]) = Frame f \<and>
    request_id_value (hdr_request_id (frm_header f)) = i \<and> outgoing_of f = get_reply i res"
proof -
  have "acceptable (client_admission lim [i]) (get_reply i res)"
    using assms(2)
    by (cases res) (auto simp: acceptable_def get_reply_def client_admission_def check_connection_state_def
        correlate_def result_code_from_wire_def)
  from decode_encoded [OF assms(1) _ _ this, of "[]"] obtain f
    where "decode fb (client_admission lim [i]) = Frame f" "outgoing_of f = get_reply i res"
    by (auto simp: client_admission_def)
  then show ?thesis by (auto simp: outgoing_of_def get_reply_def)
qed

lemma get_reply_interpreted:
  assumes "outgoing_of f = get_reply i res"
  shows "interpret_get f =
    Inr (case res of Present v \<Rightarrow> Get_Present v | Missing \<Rightarrow> Get_Absent | HeldOutsideMemory n \<Rightarrow> Get_HeldOutsideMemory n)"
  using assms
  by (cases res; cases "frm_payload f")
     (auto simp: outgoing_of_def get_reply_def interpret_get_def result_code_of_def result_code_from_wire_def)

text \<open>
  C15: a read returns what the server answered.  For every outcome of a \<open>GET\<close> that fits the bounds in
  force, if the server encodes it as a response to the identifier the request was sent under and
  the driver delivers those bytes, the caller gets exactly that outcome: the value bytes untouched,
  a missing key told apart from an empty value, or the logical length.
\<close>

theorem get_returns_answer:
  assumes "execute sh GET_OPCODE key ch w = (r, sh', Some sub)"
    and "encode_with_max (get_reply (sub_id sub) res)
      (effective_maximum_frame_size (sh_negotiated sh)) (effective_maximum_metadata_size (sh_negotiated sh)) = Inr fb"
    and "wait_completion w = Some (Inr fb)"
  shows "fst (get sh key ch w) = Inr res"
proof -
  have r: "r = Inr (sub_id sub, fb)" and nz: "sub_id sub \<noteq> 0"
    using execute_submitted [OF assms(1)] assms(3) by auto
  obtain f where f: "decode fb (client_admission (session_limits (sh_negotiated sh)) [sub_id sub]) = Frame f"
    "request_id_value (hdr_request_id (frm_header f)) = sub_id sub" "outgoing_of f = get_reply (sub_id sub) res"
    using get_reply_decoded [of "sub_id sub" res "session_limits (sh_negotiated sh)" fb] assms(2) nz
    by (auto simp: session_limits_def)
  from decode_own_ok [OF f(1,2)] get_reply_interpreted [OF f(3)] assms(1) r show ?thesis
    by (cases res) (simp_all add: get_def encode_key_def finish_command_def)
qed

theorem get_returns_answer_witness:
  "\<exists>fb. fst (get sample_shared [1, 2, 3] 7 (sample_waits fb)) = Inr (Present [])"
proof -
  obtain fb where fb: "encode_with_max (get_reply 2 (Present [])) 65536 4096 = Inr fb"
    by (auto simp: encode_with_max_ok get_reply_def encode_payload_def)
  obtain r sh' sub where e: "execute sample_shared GET_OPCODE [1, 2, 3] 7 (sample_waits fb) = (r, sh', Some sub)"
    and i: "sub_id sub = 2" using sample_executes [of "[1, 2, 3]"] by fastforce
  have w: "wait_completion (sample_waits fb) = Some (Inr fb)" by (simp add: sample_waits_def)
  from get_returns_answer [OF e _ w, of "Present []"] i fb show ?thesis by auto
qed

section \<open>Errors\<close>

lemma decode_failure_class: "decode b adm = Failure x n \<Longrightarrow> failure_class x \<noteq> InternalError"
  by (auto simp: decode_Failure_iff header_refusal_def dest!: frame_verdict_failure split: if_splits)

lemma drain_failure_class: "drain_frames lim s = (Some x, s') \<Longrightarrow> failure_class x \<noteq> InternalError"
proof (induction s rule: drain_induct [where lim = lim])
  case (1 s)
  from 1(2) show ?case
  proof (cases rule: drain_cases)
    case (deliver i r n c)
    with 1(1) show ?thesis by blast
  next
    case (fatal y)
    then show ?thesis
      by (auto simp: verdict_of_def dest: decode_failure_class split: step.splits if_splits)
  qed simp_all
qed

text \<open>
  C37: a request whose fate is unknown is reported as if it were known.  When a fatal failure ends
  the session, every request still in flight is failed with the class of that failure; no
  terminal frame has said whether it took effect, as after a transport failure or a close, yet the
  error its caller gets is not marked ambiguous.
\<close>

theorem unanswered_request_not_ambiguous:
  assumes "session_inv s" and "drain_frames lim s = (Some x, s')" and "(i, c) \<in> set (ses_completions s')"
  shows "(c, Inl (FatalFailure x)) \<in> set (ses_log (fail_all (FatalFailure x) s')) \<and>
    c \<notin> fst ` set (ses_log s') \<and> \<not> is_ambiguous (from_driver (FatalFailure x)) \<and>
    is_ambiguous (from_driver TransportFailed) \<and> is_ambiguous (from_driver DriverClosed)"
proof -
  have inv: "session_inv s'" using drain_invariant [OF assms(1,2)] by blast
  then have "c \<notin> fst ` set (ses_log s')" using assms(3) by (force simp: session_inv_def)
  moreover have "(c, Inl (FatalFailure x)) \<in> set (ses_log (fail_all (FatalFailure x) s'))"
    using fail_all_eq [OF inv, of "FatalFailure x"] assms(3) by force
  moreover have "\<not> is_ambiguous (from_driver (FatalFailure x))"
    using drain_failure_class [OF assms(2)]
    by (cases "failure_class x") (simp_all add: is_ambiguous_def from_failure_def)
  ultimately show ?thesis by (simp add: is_ambiguous_def)
qed

definition sample_doomed :: session where
  "sample_doomed = \<lparr>ses_buffer = error_frame ResourceLimit 0, ses_completions = [(2, 7)],
     ses_live = \<lparr>live = [2]\<rparr>, ses_log = []\<rparr>"

theorem unanswered_request_not_ambiguous_witness:
  "\<exists>s'. drain_frames PRE_NEGOTIATION sample_doomed = (Some protocol_violation, s') \<and>
     (7, Inl (FatalFailure protocol_violation)) \<in> set (ses_log (fail_all (FatalFailure protocol_violation) s')) \<and>
     \<not> is_ambiguous (from_driver (FatalFailure protocol_violation))"
proof -
  have i: "session_inv sample_doomed"
    by (simp add: sample_doomed_def session_inv_def registry_inv_def live_ids_def)
  have d: "drain_frames PRE_NEGOTIATION sample_doomed =
      (Some protocol_violation, keep (drop 22 (error_frame ResourceLimit 0)) sample_doomed)"
    by (subst drain_frames_eq) (simp add: sample_doomed_def live_ids_def error_frame_verdict)
  from unanswered_request_not_ambiguous [OF i d, of 2 7] d show ?thesis
    by (simp add: sample_doomed_def session_simps)
qed

section \<open>Closing\<close>

text \<open>
  An undisturbed close ends the session.  Closing an ended session changes nothing.  Otherwise,
  with a driver, admission is closed, every waiting caller is told the connection closed, and the
  session ends closed; the result is an error exactly when the transport shutdown failed, and even
  then the recorded state is closed, not failed.
\<close>

theorem close_with_driver_outcome:
  assumes "session_inv (drv_session d)" and "sh_driver sh"
    and "close_connection tcp sh d = (r, sh', d')"
  shows "if is_terminal (sh_state sh) then r = Inr () \<and> sh' = sh \<and> d' = d
    else sh_state sh' = Closed \<and> drv_state d' = Closed \<and> sem_closed (sh_admission sh') \<and>
      ses_completions (drv_session d') = [] \<and>
      ses_log (drv_session d') =
        ses_log (drv_session d) @ map (\<lambda>(i, c). (c, Inl DriverClosed)) (ses_completions (drv_session d)) \<and>
      (r = Inr () \<longleftrightarrow> is_ok (fst (any_shutdown tcp (drv_transport d))))"
proof (cases "is_terminal (sh_state sh)")
  case True
  with assms(3) show ?thesis by (simp add: close_connection_def close_check_def)
next
  case False
  obtain y tr where "any_shutdown tcp (drv_transport d) = (y, tr)" by (cases "any_shutdown tcp (drv_transport d)")
  with False assms fail_all_eq [OF assms(1), of DriverClosed] show ?thesis
    by (cases y) (auto simp: close_connection_def close_check_def close_begin_def close_admission_def
        begin_closing_def has_driver_def close_take_def on_shutdown_def Let_def mark_state_def
        close_join_def finish_close_def)
qed

theorem close_with_driver_outcome_witness:
  "\<exists>r sh' d'. close_connection memory_ops sample_shared (driver_new (Tcp (memory_new [] 1 1))) = (r, sh', d') \<and>
     sh_state sh' = Closed \<and> r = Inr ()"
proof -
  let ?d = "driver_new (Tcp (memory_new [] 1 1)) :: in_memory_transport driver"
  obtain r sh' d' where c: "close_connection memory_ops sample_shared ?d = (r, sh', d')"
    by (cases "close_connection memory_ops sample_shared ?d")
  have i: "session_inv (drv_session ?d)" by (simp add: driver_new_def)
  from close_with_driver_outcome [OF i sample_shared_simps(4) c] c show ?thesis
    by (simp add: is_terminal_def driver_new_def any_shutdown_def memory_ops_def memory_shutdown_def memory_new_def)
qed

text \<open>
  Closing a session without a driver records how the transport took it: closed when the
  shutdown succeeds or the transport was already taken, failed, with the transport's error returned,
  when it does not; the transport is given up either way, so a second close does not touch it.
\<close>

lemma close_without_driver_outcome:
  "case close_without_driver tcp sh of
     (r, sh') \<Rightarrow>
       sh_transport sh' = None \<and> is_terminal (sh_state sh') \<and>
       (case sh_transport sh of
          None \<Rightarrow> r = Inr () \<and> sh_state sh' = Closed
        | Some tr \<Rightarrow> r = fst (any_shutdown tcp tr) \<and> sh_state sh' = (if is_ok r then Closed else Failed)) \<and>
       close_without_driver tcp (close_begin sh') = (Inr (), (close_begin sh')\<lparr>sh_state := Closed\<rparr>)"
  by (auto simp: close_without_driver_def close_begin_def close_admission_def is_terminal_def
      split: option.splits sum.splits)

end
