(* ===== verification/Event_Systems.thy ===== *)
theory Event_Systems
  imports Main
begin

text \<open>
  Event systems: a partial step function on states and the runs it gives.  A step that is not
  enabled has the value \<open>None\<close>, and so does a run that contains one.  A session with its callers
  and the test dispatcher are event systems; what is proved of their runs is proved by the induction
  of this theory, one event at the end of a run at a time.
\<close>

locale event_system =
  fixes step :: "'e \<Rightarrow> 's \<Rightarrow> 's option" and run :: "'e list \<Rightarrow> 's \<Rightarrow> 's option"
  assumes run_Nil: "run [] s = Some s"
    and run_Cons: "run (e # es) s = (case step e s of Some s' \<Rightarrow> run es s' | None \<Rightarrow> None)"
begin

lemma run_append: "run (xs @ ys) s = (case run xs s of Some s1 \<Rightarrow> run ys s1 | None \<Rightarrow> None)"
  by (induction xs arbitrary: s) (simp_all add: run_Nil run_Cons split: option.split)

lemma run_snoc: "run (es @ [e]) s = (case run es s of Some s1 \<Rightarrow> step e s1 | None \<Rightarrow> None)"
  by (simp add: run_append run_Cons run_Nil split: option.split)

text \<open>A property of the run so far and of the state it leads to, by induction on the run.\<close>

lemma run_induct [consumes 1, case_names start step]:
  assumes "run es s = Some s'" "P [] s"
    and "\<And>es e s1 s2. run es s = Some s1 \<Longrightarrow> P es s1 \<Longrightarrow> step e s1 = Some s2 \<Longrightarrow> P (es @ [e]) s2"
  shows "P es s'"
  using assms(1)
proof (induction es arbitrary: s' rule: rev_induct)
  case Nil
  then show ?case using assms(2) by (simp add: run_Nil)
next
  case (snoc e es)
  from snoc.prems obtain s1 where s1: "run es s = Some s1" "step e s1 = Some s'"
    by (auto simp: run_snoc split: option.splits)
  show ?case by (rule assms(3) [OF s1(1) snoc.IH [OF s1(1)] s1(2)])
qed

lemma run_invariant:
  assumes "run es s = Some s'" "I s" "\<And>e s1 s2. I s1 \<Longrightarrow> step e s1 = Some s2 \<Longrightarrow> I s2"
  shows "I s'"
  using assms(1) by (induction rule: run_induct) (use assms(2,3) in blast)+

lemma run_constant:
  assumes "run es s = Some s'" "\<And>e s1 s2. step e s1 = Some s2 \<Longrightarrow> f s2 = f s1"
  shows "f s' = f s"
  using assms(1) by (induction rule: run_induct) (use assms(2) in auto)

end

end
