(* ===== verification/Sessions.thy ===== *)
theory Sessions
  imports Connection_Laws Event_Systems
begin

text \<open>
  A session with all its callers (\<open>src/src/connection/mod.rs\<close> and \<open>src/src/connection/driver.rs\<close>): any
  number of calls of \<open>execute\<close> and of \<open>close\<close> in progress through clones of one handle, the driver task,
  the submit channel between them and the semaphore that bounds admission.

  A call advances from one await to the next in one step, a close from one critical section to the
  next, the driver by one arm of its select loop, and a step can be taken whenever what it waits for
  is there, so a run is any interleaving.  A caller may also drop its future, of a call or of a close,
  at any await.  The state and the admission source are shared with
  the driver: they are copied into it before an arm and back afterwards.  Each call brings its own
  one-shot channel, numbered in order.
\<close>

section \<open>The semaphore\<close>

text \<open>Acquiring a permit: \<open>None\<close> while it waits, an error once the semaphore is closed.\<close>

definition sem_acquire :: "semaphore \<Rightarrow> (unit + semaphore) option" where
  "sem_acquire s =
     (if sem_closed s then Some (Inl ())
      else if sem_permits s = 0 then None
      else Some (Inr (s\<lparr>sem_permits := sem_permits s - 1\<rparr>)))"

definition sem_release :: "semaphore \<Rightarrow> semaphore" where
  "sem_release s = s\<lparr>sem_permits := sem_permits s + 1\<rparr>"

section \<open>The state of a session\<close>

text \<open>Where a call is: waiting for a permit, for room in the submit channel, or for its answer.\<close>

datatype call =
    Needs_Permit channel u16 bytes
  | Sends submit
  | Awaits u64 channel

fun holds_permit :: "call \<Rightarrow> bool" where
  "holds_permit (Needs_Permit _ _ _) = False"
| "holds_permit (Sends _) = True"
| "holds_permit (Awaits _ _) = True"

fun call_channel :: "call \<Rightarrow> channel" where
  "call_channel (Needs_Permit c _ _) = c"
| "call_channel (Sends sub) = sub_completion sub"
| "call_channel (Awaits _ c) = c"

text \<open>
  Where a close is: past the terminal check, past \<open>begin_closing\<close>, past closing admission, past
  \<open>has_driver\<close>, past sending the shutdown signal, or joining the driver, which is where it awaits.
\<close>

datatype closing = Checked | Marked | Begun | Signalling | Taking | Joining

datatype task = Running | Ended driver_exit | Aborted

record 't live_session =
  ls_shared :: "'t shared"
  ls_limits :: limits
  ls_driver :: "'t driver"
  ls_task :: task
  ls_handles :: bool
  ls_signal :: bool
  ls_queue :: "submit list"
  ls_calls :: "call list"
  ls_closers :: "closing list"
  ls_next :: channel
  ls_results :: "(channel \<times> (command_error + (u64 \<times> bytes))) list"
  ls_closed :: "(io_error + unit) list"

definition SUBMIT_CHANNEL :: usize where
  "SUBMIT_CHANNEL = 64"

text \<open>A session as establishing it hands it out, when it has a driver.\<close>

definition session_of :: "'t established \<Rightarrow> 't live_session option" where
  "session_of e =
     (case est_driver e of
        None \<Rightarrow> None
      | Some (lim, d) \<Rightarrow>
          Some \<lparr>ls_shared = est_shared e, ls_limits = lim, ls_driver = d, ls_task = Running, ls_handles = True, ls_signal = False,
                ls_queue = [], ls_calls = [], ls_closers = [], ls_next = 0, ls_results = [], ls_closed = []\<rparr>)"

section \<open>Calls\<close>

definition remove_nth :: "nat \<Rightarrow> 'a list \<Rightarrow> 'a list" where
  "remove_nth k xs = take k xs @ drop (Suc k) xs"

definition release_permit :: "'t shared \<Rightarrow> 't shared" where
  "release_permit sh = sh\<lparr>sh_admission := sem_release (sh_admission sh)\<rparr>"

text \<open>The call at position \<open>k\<close> returns; a permit it holds is dropped with it.\<close>

definition call_returns :: "nat \<Rightarrow> command_error + (u64 \<times> bytes) \<Rightarrow> 't live_session \<Rightarrow> 't live_session" where
  "call_returns k r s =
     (let c = ls_calls s ! k in
      s\<lparr>ls_calls := remove_nth k (ls_calls s), ls_results := ls_results s @ [(call_channel c, r)],
        ls_shared := if holds_permit c then release_permit (ls_shared s) else ls_shared s\<rparr>)"

text \<open>\<open>execute\<close> up to the wait for a permit.\<close>

definition call_starts :: "u16 \<Rightarrow> bytes \<Rightarrow> 't live_session \<Rightarrow> 't live_session" where
  "call_starts opcode payload s =
     (let c = ls_next s;
          s = s\<lparr>ls_next := Suc c\<rparr>;
          (effective_frame, effective_metadata) = effective_limits (sh_negotiated (ls_shared s));
          size = wire_size (length payload) in
      case check_usable (sh_state (ls_shared s)) of
        Inl e \<Rightarrow> s\<lparr>ls_results := ls_results s @ [(c, Inl e)]\<rparr>
      | Inr _ \<Rightarrow>
          if effective_frame < size
          then s\<lparr>ls_results := ls_results s @ [(c, Inl (LocalLimitExceeded size effective_frame))]\<rparr>
          else s\<lparr>ls_calls := ls_calls s @ [Needs_Permit c opcode payload]\<rparr>)"

text \<open>The wait for a permit ends: \<open>execute\<close> goes on to the wait for room in the submit channel.\<close>

definition call_admitted :: "nat \<Rightarrow> 't live_session \<Rightarrow> 't live_session option" where
  "call_admitted k s =
     (if k < length (ls_calls s) then
        (case ls_calls s ! k of
           Needs_Permit c opcode payload \<Rightarrow>
             (case sem_acquire (sh_admission (ls_shared s)) of
                None \<Rightarrow> None
              | Some (Inl _) \<Rightarrow> Some (call_returns k (Inl (completion_lost (sh_state (ls_shared s)))) s)
              | Some (Inr adm) \<Rightarrow>
                  (let (effective_frame, effective_metadata) = effective_limits (sh_negotiated (ls_shared s)) in
                   case allocate_id (ls_shared s) of
                     (Inl e, sh) \<Rightarrow> Some (call_returns k (Inl e) (s\<lparr>ls_shared := sh\<rparr>))
                   | (Inr ident, sh) \<Rightarrow>
                       (case encode_request opcode payload ident effective_frame effective_metadata of
                          Inl e \<Rightarrow> Some (call_returns k (Inl e) (s\<lparr>ls_shared := sh\<rparr>))
                        | Inr bs \<Rightarrow>
                            if \<not> sh_submit_tx sh then Some (call_returns k (Inl Cmd_Unusable) (s\<lparr>ls_shared := sh\<rparr>))
                            else Some (s\<lparr>ls_shared := sh\<lparr>sh_admission := adm\<rparr>,
                              ls_calls := (ls_calls s)
                                [k := Sends \<lparr>sub_id = ident, sub_bytes = bs, sub_completion = c\<rparr>]\<rparr>))))
         | _ \<Rightarrow> None)
      else None)"

definition call_sent :: "nat \<Rightarrow> 't live_session \<Rightarrow> 't live_session option" where
  "call_sent k s =
     (if k < length (ls_calls s) then
        (case ls_calls s ! k of
           Sends sub \<Rightarrow>
             if ls_task s \<noteq> Running
             then Some (call_returns k (Inl (completion_lost (sh_state (ls_shared s)))) s)
             else if length (ls_queue s) < SUBMIT_CHANNEL
             then Some (s\<lparr>ls_queue := ls_queue s @ [sub],
                          ls_calls := (ls_calls s)[k := Awaits (sub_id sub) (sub_completion sub)]\<rparr>)
             else None
         | _ \<Rightarrow> None)
      else None)"

definition call_completed :: "nat \<Rightarrow> 't live_session \<Rightarrow> 't live_session option" where
  "call_completed k s =
     (if k < length (ls_calls s) then
        (case ls_calls s ! k of
           Awaits i c \<Rightarrow>
             (case map_of (ses_log (drv_session (ls_driver s))) c of
                Some (Inr frame_bytes) \<Rightarrow> Some (call_returns k (Inr (i, frame_bytes)) s)
              | Some (Inl e) \<Rightarrow> Some (call_returns k (Inl (from_driver e)) s)
              | None \<Rightarrow>
                  if ls_task s \<noteq> Running
                  then Some (call_returns k (Inl (completion_lost (sh_state (ls_shared s)))) s)
                  else None)
         | _ \<Rightarrow> None)
      else None)"

text \<open>A caller drops its future: the call is gone without a result, and its permit with it.\<close>

definition call_cancelled :: "nat \<Rightarrow> 't live_session \<Rightarrow> 't live_session option" where
  "call_cancelled k s =
     (if k < length (ls_calls s)
      then Some (s\<lparr>ls_calls := remove_nth k (ls_calls s),
                   ls_shared := if holds_permit (ls_calls s ! k) then release_permit (ls_shared s) else ls_shared s\<rparr>)
      else None)"

section \<open>The driver\<close>

definition driver_arm :: "'t stream_ops \<Rightarrow> driver_event \<Rightarrow> 't live_session \<Rightarrow> 't live_session" where
  "driver_arm tcp ev s =
     (let sh = ls_shared s in
      case driver_step tcp (ls_limits s) ev
             ((ls_driver s)\<lparr>drv_state := sh_state sh, drv_admission_closed := sem_closed (sh_admission sh)\<rparr>) of
        (x, d) \<Rightarrow>
          s\<lparr>ls_driver := d,
            ls_shared := sh\<lparr>sh_state := drv_state d,
              sh_admission := (sh_admission sh)\<lparr>sem_closed := drv_admission_closed d\<rparr>\<rparr>,
            ls_task := (case x of None \<Rightarrow> Running | Some e \<Rightarrow> Ended e),
            ls_queue := (case x of None \<Rightarrow> ls_queue s | Some _ \<Rightarrow> [])\<rparr>)"

definition driver_receives :: "'t stream_ops \<Rightarrow> 't live_session \<Rightarrow> 't live_session option" where
  "driver_receives tcp s =
     (case ls_queue s of
        [] \<Rightarrow> None
      | sub # rest \<Rightarrow>
          if ls_task s = Running then Some (driver_arm tcp (Ev_Submit sub) (s\<lparr>ls_queue := rest\<rparr>)) else None)"

definition driver_reads :: "'t stream_ops \<Rightarrow> 't live_session \<Rightarrow> 't live_session option" where
  "driver_reads tcp s = (if ls_task s = Running then Some (driver_arm tcp Ev_Read s) else None)"

definition driver_stops :: "'t stream_ops \<Rightarrow> 't live_session \<Rightarrow> 't live_session option" where
  "driver_stops tcp s =
     (if ls_task s = Running \<and> ls_signal s then Some (driver_arm tcp Ev_Shutdown s) else None)"

section \<open>Closing and dropping\<close>

definition close_starts :: "'t live_session \<Rightarrow> 't live_session" where
  "close_starts s =
     (if close_check (ls_shared s) then s\<lparr>ls_closed := ls_closed s @ [Inr ()]\<rparr>
      else s\<lparr>ls_closers := ls_closers s @ [Checked]\<rparr>)"

definition close_returns :: "nat \<Rightarrow> (io_error + unit) \<times> 't shared \<Rightarrow> 't live_session \<Rightarrow> 't live_session" where
  "close_returns k r s =
     s\<lparr>ls_closers := remove_nth k (ls_closers s), ls_shared := snd r, ls_closed := ls_closed s @ [fst r]\<rparr>"

text \<open>The two critical sections in which \<open>close_with_driver\<close> takes the shutdown sender and the handle.\<close>

definition take_signal :: "'t shared \<Rightarrow> bool \<times> 't shared" where
  "take_signal sh = (sh_shutdown_tx sh, sh\<lparr>sh_shutdown_tx := False\<rparr>)"

definition take_handle :: "'t shared \<Rightarrow> bool \<times> 't shared" where
  "take_handle sh = (sh_driver sh, sh\<lparr>sh_driver := False\<rparr>)"

definition close_advances :: "'t stream_ops \<Rightarrow> nat \<Rightarrow> 't live_session \<Rightarrow> 't live_session option" where
  "close_advances tcp k s =
     (if k < length (ls_closers s) then
        (case ls_closers s ! k of
           Checked \<Rightarrow>
             Some (s\<lparr>ls_shared := (ls_shared s)\<lparr>sh_state := begin_closing (sh_state (ls_shared s))\<rparr>,
                     ls_closers := (ls_closers s)[k := Marked]\<rparr>)
         | Marked \<Rightarrow>
             Some (s\<lparr>ls_shared := close_admission (ls_shared s), ls_closers := (ls_closers s)[k := Begun]\<rparr>)
         | Begun \<Rightarrow>
             if has_driver (ls_shared s) then Some (s\<lparr>ls_closers := (ls_closers s)[k := Signalling]\<rparr>)
             else Some (close_returns k (close_without_driver tcp (ls_shared s)) s)
         | Signalling \<Rightarrow>
             (case take_signal (ls_shared s) of
                (signal, sh) \<Rightarrow>
                  Some (s\<lparr>ls_signal := ls_signal s \<or> signal, ls_shared := sh, ls_closers := (ls_closers s)[k := Taking]\<rparr>))
         | Taking \<Rightarrow>
             (case take_handle (ls_shared s) of
                (handle, sh) \<Rightarrow>
                  if handle then Some (s\<lparr>ls_shared := sh, ls_closers := (ls_closers s)[k := Joining]\<rparr>)
                  else Some (close_returns k (Inr (), sh) s))
         | Joining \<Rightarrow>
             (case ls_task s of
                Running \<Rightarrow> None
              | Ended e \<Rightarrow> Some (close_returns k (close_join (Inr e) (ls_shared s)) s)
              | Aborted \<Rightarrow> Some (close_returns k (close_join (Inl Join_Error) (ls_shared s)) s)))
      else None)"

text \<open>A caller drops its close while it waits: the handle it took is gone with it and the task runs on.\<close>

definition close_dropped :: "nat \<Rightarrow> 't live_session \<Rightarrow> 't live_session option" where
  "close_dropped k s =
     (if k < length (ls_closers s) \<and> ls_closers s ! k = Joining
      then Some (s\<lparr>ls_closers := remove_nth k (ls_closers s)\<rparr>) else None)"

text \<open>The last handle is dropped, when nothing is in progress: a driver still held is aborted.\<close>

definition handles_dropped :: "'t live_session \<Rightarrow> 't live_session option" where
  "handles_dropped s =
     (if ls_handles s \<and> ls_calls s = [] \<and> ls_closers s = [] then
        Some (if sh_driver (ls_shared s)
              then s\<lparr>ls_handles := False, ls_shared := (ls_shared s)\<lparr>sh_driver := False\<rparr>,
                     ls_task := if ls_task s = Running then Aborted else ls_task s, ls_queue := []\<rparr>
              else s\<lparr>ls_handles := False\<rparr>)
      else None)"

section \<open>Runs\<close>

datatype session_event =
    Start u16 bytes
  | Admit nat
  | Send nat
  | Complete nat
  | Cancel nat
  | Receive
  | Read
  | Stop
  | Close
  | Close_Step nat
  | Close_Drop nat
  | Drop_Handles

definition session_step :: "'t stream_ops \<Rightarrow> session_event \<Rightarrow> 't live_session \<Rightarrow> 't live_session option" where
  "session_step tcp ev s =
     (case ev of
        Start opcode payload \<Rightarrow> if ls_handles s then Some (call_starts opcode payload s) else None
      | Admit k \<Rightarrow> call_admitted k s
      | Send k \<Rightarrow> call_sent k s
      | Complete k \<Rightarrow> call_completed k s
      | Cancel k \<Rightarrow> call_cancelled k s
      | Receive \<Rightarrow> driver_receives tcp s
      | Read \<Rightarrow> driver_reads tcp s
      | Stop \<Rightarrow> driver_stops tcp s
      | Close \<Rightarrow> if ls_handles s then Some (close_starts s) else None
      | Close_Step k \<Rightarrow> close_advances tcp k s
      | Close_Drop k \<Rightarrow> close_dropped k s
      | Drop_Handles \<Rightarrow> handles_dropped s)"

primrec session_run :: "'t stream_ops \<Rightarrow> session_event list \<Rightarrow> 't live_session \<Rightarrow> 't live_session option" where
  "session_run tcp [] s = Some s"
| "session_run tcp (ev # evs) s = (case session_step tcp ev s of Some s' \<Rightarrow> session_run tcp evs s' | None \<Rightarrow> None)"

interpretation ses: event_system "session_step tcp" "session_run tcp" for tcp
  by unfold_locales simp_all

end
