(* ===== verification/Sessions_Laws.thy ===== *)
theory Sessions_Laws
  imports Sessions
begin

text \<open>
  What holds in every state a session reaches, whatever its callers do: the permits account for the
  calls in progress, what a call returns answers its own request, the identifiers of requests in
  flight are distinct, and, as long as no caller drops its call, the requests in flight stay within
  the bound of the configuration.
\<close>

section \<open>Positions\<close>

lemma mset_remove_nth: "k < length xs \<Longrightarrow> mset xs = add_mset (xs ! k) (mset (remove_nth k xs))"
  unfolding remove_nth_def by (subst id_take_nth_drop, assumption) simp

lemma set_remove_nth: "set (remove_nth k xs) \<subseteq> set xs"
  unfolding remove_nth_def using set_take_subset [of k xs] set_drop_subset [of "Suc k" xs] by auto

lemma distinct_fewer:
  assumes "distinct xs" "mset ys \<subseteq># mset xs"
  shows "distinct ys"
proof -
  have "count (mset ys) a \<le> count (mset xs) a" for a using assms(2) by (rule mset_subset_eq_count)
  then have "count (mset ys) a \<le> 1" for a
    using assms(1) unfolding distinct_count_atmost_1 by (metis le_trans le_refl zero_le_one)
  then show ?thesis
    unfolding distinct_count_atmost_1 by (metis One_nat_def Suc_leI count_greater_zero_iff le_antisym not_in_iff set_mset_mset)
qed

section \<open>Permits\<close>

definition permits_held :: "'t live_session \<Rightarrow> nat" where
  "permits_held s = size (filter_mset holds_permit (mset (ls_calls s)))"

definition permits_ok :: "'t live_session \<Rightarrow> bool" where
  "permits_ok s \<longleftrightarrow>
     sem_permits (sh_admission (ls_shared s)) + permits_held s = sh_maximum_in_flight (ls_shared s)"

lemma held_remove:
  "k < length xs \<Longrightarrow> size (filter_mset holds_permit (mset xs)) =
     (if holds_permit (xs ! k) then 1 else 0) + size (filter_mset holds_permit (mset (remove_nth k xs)))"
  using mset_remove_nth [of k xs] by simp

lemma held_update:
  assumes "k < length xs"
  shows "size (filter_mset holds_permit (mset (xs[k := c]))) + (if holds_permit (xs ! k) then 1 else 0) =
     size (filter_mset holds_permit (mset xs)) + (if holds_permit c then 1 else 0)"
proof -
  have "mset (xs[k := c]) = add_mset c (mset xs - {#xs ! k#})" using assms by (simp add: mset_update)
  then show ?thesis using held_remove [OF assms] mset_remove_nth [OF assms] by simp
qed

text \<open>The operations on the shared state that leave the permits and the limits alone.\<close>

definition same_bounds :: "'t shared \<Rightarrow> 't shared \<Rightarrow> bool" where
  "same_bounds sh sh' \<longleftrightarrow>
     sem_permits (sh_admission sh') = sem_permits (sh_admission sh) \<and> sh_maximum_in_flight sh' = sh_maximum_in_flight sh \<and>
     sh_negotiated sh' = sh_negotiated sh"

lemma same_bounds_refl: "same_bounds sh sh"
  by (simp add: same_bounds_def)

lemma permits_ok_shared:
  "permits_ok s \<Longrightarrow> same_bounds (ls_shared s) (ls_shared s') \<Longrightarrow> ls_calls s' = ls_calls s \<Longrightarrow> permits_ok s'"
  by (simp add: permits_ok_def same_bounds_def permits_held_def)

lemma call_returns_permits:
  "permits_ok s \<Longrightarrow> k < length (ls_calls s) \<Longrightarrow> permits_ok (call_returns k r s)"
  using held_remove [of k "ls_calls s"]
  by (cases "holds_permit (ls_calls s ! k)")
     (simp_all add: permits_ok_def permits_held_def call_returns_def Let_def release_permit_def sem_release_def)

lemma allocate_id_permits: "allocate_id sh = (x, sh') \<Longrightarrow> same_bounds sh sh'"
  by (auto simp: allocate_id_def same_bounds_def split: prod.splits)

lemma call_starts_cases:
  obtains (refused) e where "call_starts opcode payload s =
      s\<lparr>ls_next := Suc (ls_next s), ls_results := ls_results s @ [(ls_next s, Inl e)]\<rparr>"
  | (waiting) "call_starts opcode payload s =
      s\<lparr>ls_next := Suc (ls_next s), ls_calls := ls_calls s @ [Needs_Permit (ls_next s) opcode payload]\<rparr>"
proof -
  have "(\<exists>e. call_starts opcode payload s =
      s\<lparr>ls_next := Suc (ls_next s), ls_results := ls_results s @ [(ls_next s, Inl e)]\<rparr>) \<or>
    call_starts opcode payload s =
      s\<lparr>ls_next := Suc (ls_next s), ls_calls := ls_calls s @ [Needs_Permit (ls_next s) opcode payload]\<rparr>"
    unfolding call_starts_def Let_def by (simp split: prod.split sum.split) blast
  then show thesis using that by blast
qed

lemma call_admitted_cases:
  assumes "call_admitted k s = Some s'"
  obtains (returned) e sh where "k < length (ls_calls s)" "\<not> holds_permit (ls_calls s ! k)"
      "s' = call_returns k (Inl e) (s\<lparr>ls_shared := sh\<rparr>)" "sh = ls_shared s \<or> (\<exists>x. allocate_id (ls_shared s) = (x, sh))"
  | (admitted) c opcode payload i a bs where "k < length (ls_calls s)" "ls_calls s ! k = Needs_Permit c opcode payload"
      "\<not> sem_closed (sh_admission (ls_shared s))" "0 < sem_permits (sh_admission (ls_shared s))"
      "allocate (sh_allocator (ls_shared s)) = (i, a)" "i \<noteq> 0"
      "s' = s\<lparr>ls_shared := (ls_shared s)\<lparr>sh_allocator := a, sh_admission :=
          (sh_admission (ls_shared s))\<lparr>sem_permits := sem_permits (sh_admission (ls_shared s)) - 1\<rparr>\<rparr>,
        ls_calls := (ls_calls s)[k := Sends \<lparr>sub_id = i, sub_bytes = bs, sub_completion = c\<rparr>]\<rparr>"
proof -
  have k: "k < length (ls_calls s)" using assms by (simp add: call_admitted_def split: if_splits)
  then obtain c opcode payload where c: "ls_calls s ! k = Needs_Permit c opcode payload"
    using assms by (auto simp: call_admitted_def split: call.splits)
  obtain r where r: "sem_acquire (sh_admission (ls_shared s)) = Some r"
    using assms k c by (auto simp: call_admitted_def split: option.splits)
  obtain ef em where lim: "effective_limits (sh_negotiated (ls_shared s)) = (ef, em)"
    by (cases "effective_limits (sh_negotiated (ls_shared s))")
  obtain i a where a: "allocate (sh_allocator (ls_shared s)) = (i, a)"
    by (cases "allocate (sh_allocator (ls_shared s))")
  have i: "i \<noteq> 0" using allocate_nonzero [of "sh_allocator (ls_shared s)"] a by simp
  define sh where "sh = (ls_shared s)\<lparr>sh_allocator := a\<rparr>"
  have al: "allocate_id (ls_shared s) = (Inr i, sh)" using a i by (simp add: allocate_id_def sh_def)
  show thesis
  proof (cases r)
    case (Inl u)
    then have "s' = call_returns k (Inl (completion_lost (sh_state (ls_shared s)))) (s\<lparr>ls_shared := ls_shared s\<rparr>)"
      using assms k c r by (simp add: call_admitted_def)
    then show thesis using returned k c by (metis holds_permit.simps(1))
  next
    case (Inr adm)
    then have adm: "\<not> sem_closed (sh_admission (ls_shared s))" "0 < sem_permits (sh_admission (ls_shared s))"
      "adm = (sh_admission (ls_shared s))\<lparr>sem_permits := sem_permits (sh_admission (ls_shared s)) - 1\<rparr>"
      using r by (auto simp: sem_acquire_def split: if_splits)
    show thesis
    proof (cases "\<exists>e. s' = call_returns k (Inl e) (s\<lparr>ls_shared := sh\<rparr>)")
      case True
      then show thesis using returned [of _ sh] k c al by auto
    next
      case False
      then obtain bs where "s' = s\<lparr>ls_shared := sh\<lparr>sh_admission := adm\<rparr>,
          ls_calls := (ls_calls s)[k := Sends \<lparr>sub_id = i, sub_bytes = bs, sub_completion = c\<rparr>]\<rparr>"
        using assms k c r Inr lim al by (auto simp: call_admitted_def split: sum.splits if_splits)
      then show thesis using admitted [OF k c adm(1,2) a i] adm(3) by (simp add: sh_def)
    qed
  qed
qed

lemma call_sent_cases:
  assumes "call_sent k s = Some s'"
  obtains (returned) e sub where "k < length (ls_calls s)" "ls_calls s ! k = Sends sub" "s' = call_returns k (Inl e) s"
  | (sent) sub where "k < length (ls_calls s)" "ls_calls s ! k = Sends sub" "ls_task s = Running"
      "s' = s\<lparr>ls_queue := ls_queue s @ [sub], ls_calls := (ls_calls s)[k := Awaits (sub_id sub) (sub_completion sub)]\<rparr>"
  using assms by (auto simp: call_sent_def split: if_splits call.splits)

lemma call_completed_cases:
  assumes "call_completed k s = Some s'"
  obtains r i c where "k < length (ls_calls s)" "ls_calls s ! k = Awaits i c" "s' = call_returns k r s"
    "\<And>j fb. r = Inr (j, fb) \<Longrightarrow> j = i \<and> map_of (ses_log (drv_session (ls_driver s))) c = Some (Inr fb)"
    "c \<in> fst ` set (ses_log (drv_session (ls_driver s))) \<or> ls_task s \<noteq> Running"
  using assms
  by (auto simp: call_completed_def dest!: map_of_SomeD split: if_splits call.splits option.splits sum.splits) force+

lemma driver_arm_shared: "same_bounds (ls_shared s) (ls_shared (driver_arm tcp ev s))"
  by (simp add: driver_arm_def same_bounds_def Let_def split: prod.splits)

lemma driver_arm_calls [simp]: "ls_calls (driver_arm tcp ev s) = ls_calls s" "ls_results (driver_arm tcp ev s) = ls_results s"
  "ls_next (driver_arm tcp ev s) = ls_next s" "ls_limits (driver_arm tcp ev s) = ls_limits s"
  by (simp_all add: driver_arm_def Let_def split: prod.splits)

text \<open>Closing touches the lifecycle state, the handles and whether admission is closed, and nothing of the calls.\<close>

lemma close_advances_keeps:
  assumes "close_advances tcp k s = Some s'"
  shows "same_bounds (ls_shared s) (ls_shared s')" "ls_calls s' = ls_calls s" "ls_queue s' = ls_queue s"
    "ls_driver s' = ls_driver s" "ls_task s' = ls_task s" "ls_results s' = ls_results s" "ls_next s' = ls_next s"
    "ls_limits s' = ls_limits s" "sh_allocator (ls_shared s') = sh_allocator (ls_shared s)"
  using assms
  by (auto simp: close_advances_def close_admission_def take_signal_def take_handle_def close_returns_def close_join_def
      close_without_driver_def same_bounds_def
      split: if_splits closing.splits task.splits option.splits sum.splits driver_exit.splits prod.splits)

lemma close_droppedD: "close_dropped k s = Some s' \<Longrightarrow> s' = s\<lparr>ls_closers := remove_nth k (ls_closers s)\<rparr>"
  by (simp add: close_dropped_def split: if_splits)

lemma permits_step:
  assumes "permits_ok s" "session_step tcp ev s = Some s'"
  shows "permits_ok s'"
proof (cases ev)
  case (Start opcode payload)
  then have s': "s' = call_starts opcode payload s" using assms(2) by (simp add: session_step_def split: if_splits)
  show ?thesis
    by (cases rule: call_starts_cases [of opcode payload s])
       (use assms(1) s' in \<open>simp_all add: permits_ok_def permits_held_def\<close>)
next
  case (Admit k)
  with assms(2) have "call_admitted k s = Some s'" by (simp add: session_step_def)
  then show ?thesis
  proof (cases rule: call_admitted_cases)
    case (returned e sh)
    have "same_bounds (ls_shared s) sh" using returned(4) allocate_id_permits same_bounds_refl by metis
    then have "permits_ok (s\<lparr>ls_shared := sh\<rparr>)" using permits_ok_shared [OF assms(1)] by simp
    then show ?thesis using call_returns_permits [of "s\<lparr>ls_shared := sh\<rparr>" k "Inl e"] returned(1,3) by simp
  next
    case (admitted c opcode payload i a bs)
    then show ?thesis
      using assms(1) held_update [OF admitted(1), of "Sends \<lparr>sub_id = i, sub_bytes = bs, sub_completion = c\<rparr>"]
      by (simp add: permits_ok_def permits_held_def)
  qed
next
  case (Send k)
  with assms(2) have "call_sent k s = Some s'" by (simp add: session_step_def)
  then show ?thesis
  proof (cases rule: call_sent_cases)
    case (sent sub)
    then show ?thesis
      using assms(1) held_update [OF sent(1), of "Awaits (sub_id sub) (sub_completion sub)"]
      by (simp add: permits_ok_def permits_held_def)
  qed (use assms(1) call_returns_permits in simp)
next
  case (Complete k)
  with assms(2) have "call_completed k s = Some s'" by (simp add: session_step_def)
  then show ?thesis by (rule call_completed_cases) (use assms(1) call_returns_permits in simp)
next
  case (Cancel k)
  with assms show ?thesis
    using held_remove [of k "ls_calls s"]
    by (cases "holds_permit (ls_calls s ! k)") (auto simp: session_step_def call_cancelled_def permits_ok_def permits_held_def release_permit_def sem_release_def
        split: if_splits)
next
  case Receive
  then obtain sub rest where "ls_queue s = sub # rest" "s' = driver_arm tcp (Ev_Submit sub) (s\<lparr>ls_queue := rest\<rparr>)"
    using assms(2) by (auto simp: session_step_def driver_receives_def split: list.splits if_splits)
  then show ?thesis
    using assms(1) driver_arm_shared [of "s\<lparr>ls_queue := rest\<rparr>" tcp "Ev_Submit sub"]
    by (auto intro: permits_ok_shared [of s])
next
  case (Close_Step k)
  then have c: "close_advances tcp k s = Some s'" using assms(2) by (simp add: session_step_def)
  show ?thesis by (rule permits_ok_shared [OF assms(1) close_advances_keeps(1,2) [OF c]])
next
  case Drop_Handles
  with assms show ?thesis
    by (auto simp: session_step_def handles_dropped_def same_bounds_def intro!: permits_ok_shared [of s] split: if_splits)
qed (use assms in
    \<open>auto simp: session_step_def driver_reads_def driver_stops_def close_starts_def close_dropped_def driver_arm_shared same_bounds_refl
      intro!: permits_ok_shared [of s] split: if_splits\<close>)

section \<open>Calls, submissions and answers\<close>

primrec exit_of :: "task \<Rightarrow> driver_exit option" where
  "exit_of Running = None"
| "exit_of (Ended e) = Some e"
| "exit_of Aborted = None"

text \<open>What was handed to the driver: the submissions it received and those still in its channel.\<close>

definition sent_pairs :: "driver_event list \<Rightarrow> 't live_session \<Rightarrow> (u64 \<times> channel) list" where
  "sent_pairs evs s = submitted evs @ map (\<lambda>sub. (sub_id sub, sub_completion sub)) (ls_queue s)"

text \<open>A call that was not submitted has a channel nobody else knows; one that was is alone on it.\<close>

fun call_link :: "(u64 \<times> channel) list \<Rightarrow> call \<Rightarrow> bool" where
  "call_link pairs (Needs_Permit c _ _) \<longleftrightarrow> c \<notin> snd ` set pairs"
| "call_link pairs (Sends sub) \<longleftrightarrow> sub_completion sub \<notin> snd ` set pairs"
| "call_link pairs (Awaits i c) \<longleftrightarrow> (\<forall>j. (j, c) \<in> set pairs \<longrightarrow> j = i)"

definition own_answer :: "limits \<Rightarrow> channel \<times> (command_error + (u64 \<times> bytes)) \<Rightarrow> bool" where
  "own_answer lim r \<longleftrightarrow> (\<forall>i fb. snd r = Inr (i, fb) \<longrightarrow> answers lim i (Inr fb))"

definition calls_ok :: "(u64 \<times> channel) list \<Rightarrow> channel \<Rightarrow> call list \<Rightarrow> bool" where
  "calls_ok pairs next_channel calls \<longleftrightarrow>
     distinct (map snd pairs) \<and> (\<forall>c \<in> set (map snd pairs). c < next_channel) \<and>
     distinct (map call_channel calls) \<and>
     (\<forall>call \<in> set calls. call_channel call < next_channel \<and> call_link pairs call)"

definition links_ok :: "driver_event list \<Rightarrow> 't live_session \<Rightarrow> bool" where
  "links_ok evs s \<longleftrightarrow>
     trace_inv (ls_limits s) evs (exit_of (ls_task s)) (ls_driver s) \<and> \<not> drv_submit_closed (ls_driver s) \<and>
     calls_ok (sent_pairs evs s) (ls_next s) (ls_calls s) \<and> list_all (own_answer (ls_limits s)) (ls_results s)"

lemma call_link_mono: "call_link pairs c \<Longrightarrow> set pairs' \<subseteq> set pairs \<Longrightarrow> call_link pairs' c"
  by (cases c) auto

lemma calls_ok_fewer:
  assumes "calls_ok pairs n calls" "mset pairs' \<subseteq># mset pairs" "mset calls' \<subseteq># mset calls"
  shows "calls_ok pairs' n calls'"
proof -
  have sub: "set pairs' \<subseteq> set pairs" "set calls' \<subseteq> set calls"
    using set_mset_mono [OF assms(2)] set_mset_mono [OF assms(3)] by simp_all
  have "mset (map snd pairs') \<subseteq># mset (map snd pairs)" "mset (map call_channel calls') \<subseteq># mset (map call_channel calls)"
    using image_mset_subseteq_mono [OF assms(2)] image_mset_subseteq_mono [OF assms(3)] by simp_all
  then have "distinct (map snd pairs')" "distinct (map call_channel calls')"
    using assms(1) unfolding calls_ok_def by (blast intro: distinct_fewer)+
  then show ?thesis using assms(1) sub call_link_mono [OF _ sub(1)] by (auto simp: calls_ok_def)
qed

lemma calls_ok_starts:
  assumes "calls_ok pairs n calls"
  shows "calls_ok pairs (Suc n) (calls @ [Needs_Permit n opcode payload])" "calls_ok pairs (Suc n) calls"
  using assms by (force simp: calls_ok_def less_Suc_eq)+

lemma calls_ok_replaced:
  assumes ok: "calls_ok pairs n calls" and k: "k < length calls"
    and c: "call_channel call = call_channel (calls ! k)"
    and pairs': "mset pairs' = mset (new @ pairs)"
    and new: "new = [] \<or> (\<exists>i. new = [(i, call_channel call)] \<and> call_channel call \<notin> snd ` set pairs)"
    and link: "call_link pairs' call"
  shows "calls_ok pairs' n (calls[k := call])"
proof -
  have ch: "map call_channel (calls[k := call]) = map call_channel calls"
    using c k by (simp add: map_update list_update_same_conv)
  have own: "call_channel call < n" using ok k c by (simp add: calls_ok_def)
  have p: "set pairs' = set new \<union> set pairs" "mset (map snd pairs') = mset (map snd (new @ pairs))"
    using pairs' mset_eq_setD [OF pairs'] by simp_all
  have "distinct (map snd (new @ pairs))" using new ok by (force simp: calls_ok_def)
  then have d: "distinct (map snd pairs')" using p(2) mset_eq_imp_distinct_iff by blast
  have "call_link pairs' x" if "x \<in> set (calls[k := call])" for x
  proof -
    from that obtain j where j: "j < length calls" "x = calls[k := call] ! j" by (auto simp: in_set_conv_nth)
    show ?thesis
    proof (cases "j = k")
      case False
      then have x: "x = calls ! j" "x \<in> set calls" using j by simp_all
      have "call_channel x \<noteq> call_channel call"
        using False j k c x ok by (simp add: calls_ok_def distinct_conv_nth)
      moreover have "call_link pairs x" using ok x by (simp add: calls_ok_def)
      ultimately show ?thesis using new p(1) by (cases x) auto
    qed (use j k link in simp)
  qed
  moreover have "call_channel x < n" if "x \<in> set (calls[k := call])" for x
    using that ok own set_update_subset_insert [of calls k call] by (auto simp: calls_ok_def)
  moreover have "\<forall>c \<in> set (map snd pairs'). c < n" using ok own new p(1) by (auto simp: calls_ok_def)
  ultimately show ?thesis using d ch ok by (simp add: calls_ok_def)
qed

lemma call_linked: "links_ok evs s \<Longrightarrow> k < length (ls_calls s) \<Longrightarrow> call_link (sent_pairs evs s) (ls_calls s ! k)"
  by (simp add: links_ok_def calls_ok_def)

lemma links_returned:
  assumes "links_ok evs s" "k < length (ls_calls s)" "own_answer (ls_limits s) (call_channel (ls_calls s ! k), r)"
  shows "links_ok evs (call_returns k r s)"
proof -
  have "mset (remove_nth k (ls_calls s)) \<subseteq># mset (ls_calls s)" using mset_remove_nth [OF assms(2)] by simp
  then have "calls_ok (sent_pairs evs s) (ls_next s) (remove_nth k (ls_calls s))"
    using assms(1) calls_ok_fewer [of "sent_pairs evs s" "ls_next s" "ls_calls s" "sent_pairs evs s"]
    by (simp add: links_ok_def)
  then show ?thesis
    using assms(1,3) by (simp add: links_ok_def call_returns_def sent_pairs_def Let_def)
qed

lemma links_shared: "links_ok evs (s\<lparr>ls_shared := sh\<rparr>) = links_ok evs s"
  by (simp add: links_ok_def sent_pairs_def)

lemma own_answer_error [simp]: "own_answer lim (c, Inl e)"
  by (simp add: own_answer_def)

lemma trace_inv_session:
  "drv_session d' = drv_session d \<Longrightarrow> trace_inv lim evs x d' = trace_inv lim evs x d"
  by (simp add: trace_inv_def)

lemma driver_step_open:
  "driver_step tcp lim ev d = (x, d') \<Longrightarrow> ev \<noteq> Ev_Submit_Closed \<Longrightarrow> drv_submit_closed d' = drv_submit_closed d"
  by (cases ev)
     (auto simp: driver_step_def on_shutdown_def on_submit_def on_read_def loop_end_def Let_def
      split: prod.splits sum.splits option.splits if_splits)

lemma driver_arm_links:
  fixes s :: "'t live_session" and tcp :: "'t stream_ops"
  assumes inv: "trace_inv (ls_limits s) evs None (ls_driver s)" "\<not> drv_submit_closed (ls_driver s)"
    and ev: "ev \<noteq> Ev_Submit_Closed" "\<And>sub. ev = Ev_Submit sub \<Longrightarrow> sub_completion sub \<notin> snd ` set (submitted evs)"
    and run: "ls_task s = Running"
  defines "s' \<equiv> driver_arm tcp ev s"
  shows "trace_inv (ls_limits s) (evs @ [ev]) (exit_of (ls_task s')) (ls_driver s')"
    "\<not> drv_submit_closed (ls_driver s')" "ls_queue s' = ls_queue s \<or> ls_queue s' = []"
    "set (ses_completions (drv_session (ls_driver s'))) \<subseteq>
       set (ses_completions (drv_session (ls_driver s))) \<union> set (added ev)"
    "ls_task s' \<noteq> Running \<Longrightarrow> ls_queue s' = [] \<and> ses_completions (drv_session (ls_driver s')) = []"
    "sh_allocator (ls_shared s') = sh_allocator (ls_shared s)"
proof -
  let ?sh = "ls_shared s"
  define d where "d = (ls_driver s)\<lparr>drv_state := sh_state ?sh, drv_admission_closed := sem_closed (sh_admission ?sh)\<rparr>"
  obtain x d' where st: "driver_step tcp (ls_limits s) ev d = (x, d')" by (cases "driver_step tcp (ls_limits s) ev d")
  have s': "ls_driver s' = d'" "ls_task s' = (case x of None \<Rightarrow> Running | Some e \<Rightarrow> Ended e)"
    "ls_queue s' = (case x of None \<Rightarrow> ls_queue s | Some _ \<Rightarrow> [])" "sh_allocator (ls_shared s') = sh_allocator ?sh"
    using st by (simp_all add: s'_def driver_arm_def d_def Let_def)
  have d: "drv_session d = drv_session (ls_driver s)" "drv_submit_closed d = drv_submit_closed (ls_driver s)"
    by (simp_all add: d_def)
  have t: "trace_inv (ls_limits s) evs None d" using inv(1) trace_inv_session [OF d(1)] by blast
  then have "session_inv (drv_session d)" "channels (drv_session d) = mset (map snd (submitted evs))"
    by (simp_all add: trace_inv_def)
  moreover from this(2) have "enabled d ev" using ev inv(2) d(2) by (cases ev) auto
  ultimately have arm: "arm_ok (ls_limits s) ev d x d'" using driver_step_ok [OF _ _ st] by simp
  show "trace_inv (ls_limits s) (evs @ [ev]) (exit_of (ls_task s')) (ls_driver s')"
    using trace_inv_step [OF t arm] s' by (cases x) simp_all
  show "\<not> drv_submit_closed (ls_driver s')" using driver_step_open [OF st ev(1)] inv(2) d(2) s'(1) by simp
  show "ls_queue s' = ls_queue s \<or> ls_queue s' = []" using s'(3) by (cases x) simp_all
  show "set (ses_completions (drv_session (ls_driver s'))) \<subseteq>
       set (ses_completions (drv_session (ls_driver s))) \<union> set (added ev)"
    using arm s'(1) d(1) by (simp add: arm_ok_def step_ok_def)
  show "ls_task s' \<noteq> Running \<Longrightarrow> ls_queue s' = [] \<and> ses_completions (drv_session (ls_driver s')) = []"
    using arm s' by (cases x) (simp_all add: arm_ok_def)
  show "sh_allocator (ls_shared s') = sh_allocator (ls_shared s)" using s'(4) .
qed

lemma links_arm:
  assumes ok: "links_ok evs s" and run: "ls_task s = Running" and ev: "ev \<in> {Ev_Read, Ev_Shutdown}"
  shows "links_ok (evs @ [ev]) (driver_arm tcp ev s)"
proof -
  have inv: "trace_inv (ls_limits s) evs None (ls_driver s)" "\<not> drv_submit_closed (ls_driver s)"
    using ok run by (simp_all add: links_ok_def)
  note a = driver_arm_links [OF inv, of ev tcp]
  have sub: "submitted (evs @ [ev]) = submitted evs" using ev by (auto simp: submitted_def)
  have "mset (sent_pairs (evs @ [ev]) (driver_arm tcp ev s)) \<subseteq># mset (sent_pairs evs s)"
    using a(3) ev run by (auto simp: sent_pairs_def sub)
  then have "calls_ok (sent_pairs (evs @ [ev]) (driver_arm tcp ev s)) (ls_next s) (ls_calls s)"
    using ok calls_ok_fewer by (auto simp: links_ok_def)
  then show ?thesis using a(1,2) ok ev run by (auto simp: links_ok_def)
qed

lemma links_receive:
  assumes ok: "links_ok evs s" and run: "ls_task s = Running" and q: "ls_queue s = sub # rest"
  shows "links_ok (evs @ [Ev_Submit sub]) (driver_arm tcp (Ev_Submit sub) (s\<lparr>ls_queue := rest\<rparr>))"
proof -
  let ?s = "s\<lparr>ls_queue := rest\<rparr>" and ?ev = "Ev_Submit sub"
  have inv: "trace_inv (ls_limits ?s) evs None (ls_driver ?s)" "\<not> drv_submit_closed (ls_driver ?s)"
    using ok run by (simp_all add: links_ok_def)
  have c: "calls_ok (sent_pairs evs s) (ls_next s) (ls_calls s)" using ok by (simp add: links_ok_def)
  then have "sub_completion sub \<notin> snd ` set (submitted evs)" using q by (auto simp: calls_ok_def sent_pairs_def)
  then have a: "trace_inv (ls_limits s) (evs @ [?ev]) (exit_of (ls_task (driver_arm tcp ?ev ?s))) (ls_driver (driver_arm tcp ?ev ?s))"
    "\<not> drv_submit_closed (ls_driver (driver_arm tcp ?ev ?s))"
    "ls_queue (driver_arm tcp ?ev ?s) = rest \<or> ls_queue (driver_arm tcp ?ev ?s) = []"
    using driver_arm_links(1-3) [OF inv, of ?ev tcp] run by simp_all
  have "submitted (evs @ [?ev]) = submitted evs @ [(sub_id sub, sub_completion sub)]" by (simp add: submitted_def)
  then have "mset (sent_pairs (evs @ [?ev]) (driver_arm tcp ?ev ?s)) \<subseteq># mset (sent_pairs evs s)"
    using a(3) q by (auto simp: sent_pairs_def)
  then have "calls_ok (sent_pairs (evs @ [?ev]) (driver_arm tcp ?ev ?s)) (ls_next s) (ls_calls s)"
    using c calls_ok_fewer by blast
  then show ?thesis using a(1,2) ok by (simp add: links_ok_def)
qed

lemma links_completed:
  assumes ok: "links_ok evs s" and "call_completed k s = Some s'"
  shows "links_ok evs s'"
  using assms(2)
proof (rule call_completed_cases)
  fix r i c
  assume k: "k < length (ls_calls s)" "ls_calls s ! k = Awaits i c" "s' = call_returns k r s"
    and r: "\<And>j fb. r = Inr (j, fb) \<Longrightarrow> j = i \<and> map_of (ses_log (drv_session (ls_driver s))) c = Some (Inr fb)"
  have link: "call_link (sent_pairs evs s) (Awaits i c)"
    using call_linked [OF ok k(1)] k(2) by simp
  have "answers (ls_limits s) i (Inr fb)" if "map_of (ses_log (drv_session (ls_driver s))) c = Some (Inr fb)" for fb
  proof -
    have "(c, Inr fb) \<in> set (ses_log (drv_session (ls_driver s)))" using that by (rule map_of_SomeD)
    then obtain j where "(j, c) \<in> set (submitted evs)" "answers (ls_limits s) j (Inr fb)"
      using ok by (fastforce simp: links_ok_def trace_inv_def list_all_iff entry_ok_def session_error_def)
    then show ?thesis using link by (auto simp: sent_pairs_def)
  qed
  then have "own_answer (ls_limits s) (call_channel (ls_calls s ! k), r)"
    unfolding own_answer_def using r by (metis snd_conv)
  then show "links_ok evs s'" using links_returned [OF ok k(1)] k(3) by simp
qed

lemma links_step:
  assumes ok: "links_ok evs s" and st: "session_step tcp ev s = Some s'"
  shows "\<exists>evs'. links_ok evs' s'"
proof (cases ev)
  case (Start opcode payload)
  then have s': "s' = call_starts opcode payload s" using st by (simp add: session_step_def split: if_splits)
  have "links_ok evs s'"
    by (cases rule: call_starts_cases [of opcode payload s])
       (use ok s' calls_ok_starts [of "sent_pairs evs s" "ls_next s" "ls_calls s"] in
         \<open>simp_all add: links_ok_def sent_pairs_def\<close>)
  then show ?thesis by blast
next
  case (Admit k)
  then have "call_admitted k s = Some s'" using st by (simp add: session_step_def)
  then have "links_ok evs s'"
  proof (cases rule: call_admitted_cases)
    case (returned e sh)
    then show ?thesis using links_returned [of evs "s\<lparr>ls_shared := sh\<rparr>" k "Inl e"] ok by (simp add: links_shared)
  next
    case (admitted c opcode payload i a bs)
    let ?call = "Sends \<lparr>sub_id = i, sub_bytes = bs, sub_completion = c\<rparr>"
    have c: "calls_ok (sent_pairs evs s) (ls_next s) (ls_calls s)" using ok by (simp add: links_ok_def)
    have "call_link (sent_pairs evs s) ?call" using call_linked [OF ok admitted(1)] admitted(2) by simp
    then have "calls_ok (sent_pairs evs s) (ls_next s) ((ls_calls s)[k := ?call])"
      using calls_ok_replaced [OF c admitted(1), of ?call "sent_pairs evs s" "[]"] admitted(2) by simp
    then show ?thesis using ok admitted(7) by (simp add: links_ok_def sent_pairs_def)
  qed
  then show ?thesis by blast
next
  case (Send k)
  then have "call_sent k s = Some s'" using st by (simp add: session_step_def)
  then have "links_ok evs s'"
  proof (cases rule: call_sent_cases)
    case (returned e sub)
    then show ?thesis using links_returned [OF ok] by simp
  next
    case (sent sub)
    let ?call = "Awaits (sub_id sub) (sub_completion sub)"
      and ?pairs = "sent_pairs evs s @ [(sub_id sub, sub_completion sub)]"
    have c: "calls_ok (sent_pairs evs s) (ls_next s) (ls_calls s)" using ok by (simp add: links_ok_def)
    have "sub_completion sub \<notin> snd ` set (sent_pairs evs s)" using call_linked [OF ok sent(1)] sent(2) by simp
    then have "calls_ok ?pairs (ls_next s) ((ls_calls s)[k := ?call])"
      using sent(2) by (intro calls_ok_replaced [OF c sent(1), of ?call ?pairs "[(sub_id sub, sub_completion sub)]"]) force+
    then show ?thesis using ok sent(4) by (simp add: links_ok_def sent_pairs_def)
  qed
  then show ?thesis by blast
next
  case (Complete k)
  then show ?thesis using st links_completed [OF ok] by (auto simp: session_step_def)
next
  case (Cancel k)
  then have k: "k < length (ls_calls s)" and s': "ls_calls s' = remove_nth k (ls_calls s)" "ls_queue s' = ls_queue s"
    "ls_limits s' = ls_limits s" "ls_driver s' = ls_driver s" "ls_task s' = ls_task s" "ls_next s' = ls_next s"
    "ls_results s' = ls_results s"
    using st by (auto simp: session_step_def call_cancelled_def split: if_splits)
  have "mset (remove_nth k (ls_calls s)) \<subseteq># mset (ls_calls s)" using mset_remove_nth [OF k] by simp
  then have "links_ok evs s'"
    using ok s' calls_ok_fewer [of "sent_pairs evs s" "ls_next s" "ls_calls s" "sent_pairs evs s"]
    by (simp add: links_ok_def sent_pairs_def)
  then show ?thesis by blast
next
  case Receive
  then show ?thesis
    using st links_receive [OF ok] by (auto simp: session_step_def driver_receives_def split: list.splits if_splits)
next
  case Read
  then show ?thesis
    using st links_arm [OF ok, of Ev_Read] by (auto simp: session_step_def driver_reads_def split: if_splits)
next
  case Stop
  then show ?thesis
    using st links_arm [OF ok, of Ev_Shutdown] by (auto simp: session_step_def driver_stops_def split: if_splits)
next
  case Close
  then show ?thesis
    using st ok by (auto simp: session_step_def close_starts_def links_ok_def sent_pairs_def split: if_splits)
next
  case (Close_Drop k)
  then have "s' = s\<lparr>ls_closers := remove_nth k (ls_closers s)\<rparr>"
    using st by (simp add: session_step_def close_droppedD)
  then have "links_ok evs s'" using ok by (simp add: links_ok_def sent_pairs_def)
  then show ?thesis by blast
next
  case (Close_Step k)
  then have c: "close_advances tcp k s = Some s'" using st by (simp add: session_step_def)
  show ?thesis using ok close_advances_keeps [OF c] by (auto simp: links_ok_def sent_pairs_def)
next
  case Drop_Handles
  then have s': "ls_queue s' = ls_queue s \<or> ls_queue s' = []" "ls_calls s' = ls_calls s"
    "ls_limits s' = ls_limits s" "ls_driver s' = ls_driver s" "exit_of (ls_task s') = exit_of (ls_task s)" "ls_next s' = ls_next s"
    "ls_results s' = ls_results s"
    using st by (auto simp: session_step_def handles_dropped_def split: if_splits)
  then have "mset (sent_pairs evs s') \<subseteq># mset (sent_pairs evs s)" by (auto simp: sent_pairs_def)
  then have "links_ok evs s'"
    using ok s'(2-7) calls_ok_fewer [of "sent_pairs evs s" "ls_next s" "ls_calls s" "sent_pairs evs s'"]
    by (simp add: links_ok_def)
  then show ?thesis by blast
qed

section \<open>Requests in flight\<close>

abbreviation waiting_callers :: "'t live_session \<Rightarrow> (u64 \<times> channel) list" where
  "waiting_callers s \<equiv> ses_completions (drv_session (ls_driver s))"

definition known_channels :: "'t live_session \<Rightarrow> channel set" where
  "known_channels s = set (map sub_completion (ls_queue s)) \<union> snd ` set (waiting_callers s)"

text \<open>While the driver runs, whoever it or its channel knows is a call that still waits.\<close>

definition flight_ok :: "'t live_session \<Rightarrow> bool" where
  "flight_ok s \<longleftrightarrow> (ls_task s = Running \<longrightarrow> (\<forall>c \<in> known_channels s. \<exists>i. Awaits i c \<in> set (ls_calls s)))"

lemma flight_mono:
  assumes "flight_ok s" "ls_task s' = Running \<Longrightarrow> ls_task s = Running" "known_channels s' \<subseteq> known_channels s \<union> new"
    and "\<And>c. c \<in> new \<Longrightarrow> \<exists>i. Awaits i c \<in> set (ls_calls s')"
    and "\<And>i c. Awaits i c \<in> set (ls_calls s) \<Longrightarrow> c \<in> known_channels s' \<Longrightarrow> Awaits i c \<in> set (ls_calls s')"
  shows "flight_ok s'"
  using assms unfolding flight_ok_def by blast

lemma kept_nth:
  assumes "x \<in> set xs" "x \<noteq> xs ! k"
  shows "x \<in> set (remove_nth k xs)" "x \<in> set (xs[k := y])"
proof -
  obtain j where j: "j < length xs" "x = xs ! j" using assms(1) by (auto simp: in_set_conv_nth)
  then have "j \<noteq> k" using assms(2) by auto
  then show "x \<in> set (xs[k := y])" using j by (metis length_list_update nth_list_update_neq nth_mem)
  show "x \<in> set (remove_nth k xs)"
  proof (cases "k < length xs")
    case True
    have "x \<in># mset xs" using assms(1) by simp
    then show ?thesis using assms(2) unfolding mset_remove_nth [OF True] by simp
  qed (use assms(1) in \<open>simp add: remove_nth_def\<close>)
qed

lemma flight_returned:
  assumes "flight_ok s" "\<And>i c. ls_calls s ! k \<noteq> Awaits i c"
  shows "flight_ok (call_returns k r (s\<lparr>ls_shared := sh\<rparr>))"
proof (rule flight_mono [OF assms(1), of _ "{}"])
  show "Awaits i c \<in> set (ls_calls (call_returns k r (s\<lparr>ls_shared := sh\<rparr>)))" if "Awaits i c \<in> set (ls_calls s)" for i c
    using kept_nth(1) [OF that, of k] assms(2) by (simp add: call_returns_def Let_def eq_commute)
qed (simp_all add: call_returns_def known_channels_def Let_def)

lemma completed_unknown:
  assumes "links_ok evs s" "c \<in> fst ` set (ses_log (drv_session (ls_driver s)))"
  shows "c \<notin> known_channels s"
proof -
  have t: "trace_inv (ls_limits s) evs (exit_of (ls_task s)) (ls_driver s)" using assms(1) by (simp add: links_ok_def)
  then have "distinct (map snd (waiting_callers s) @ map fst (ses_log (drv_session (ls_driver s))))"
    by (simp add: trace_inv_def session_inv_def)
  then have "c \<notin> snd ` set (waiting_callers s)" using assms(2) by auto
  moreover have "c \<in> set_mset (channels (drv_session (ls_driver s)))" using assms(2) by (auto simp: channels_def)
  then have "c \<in> set (map snd (submitted evs))" using t by (simp add: trace_inv_def)
  then have "c \<notin> set (map sub_completion (ls_queue s))"
    using assms(1) by (fastforce simp: links_ok_def calls_ok_def sent_pairs_def)
  ultimately show ?thesis by (simp add: known_channels_def)
qed

lemma flight_completed:
  assumes "links_ok evs s" "flight_ok s" "call_completed k s = Some s'"
  shows "flight_ok s'"
  using assms(3)
proof (rule call_completed_cases)
  fix r i c
  assume k: "ls_calls s ! k = Awaits i c" "s' = call_returns k r s"
    and c: "c \<in> fst ` set (ses_log (drv_session (ls_driver s))) \<or> ls_task s \<noteq> Running"
  show "flight_ok s'"
  proof (cases "ls_task s = Running")
    case True
    then have n: "c \<notin> known_channels s" using completed_unknown [OF assms(1)] c by blast
    show ?thesis
    proof (rule flight_mono [OF assms(2), of _ "{}"])
      show "Awaits j c' \<in> set (ls_calls s')" if "Awaits j c' \<in> set (ls_calls s)" "c' \<in> known_channels s'" for j c'
        using kept_nth(1) [OF that(1), of k] that(2) n k by (auto simp: call_returns_def known_channels_def Let_def)
    qed (simp_all add: k(2) call_returns_def known_channels_def Let_def)
  qed (simp add: flight_ok_def k(2) call_returns_def Let_def)
qed

lemma flight_arm:
  assumes "flight_ok s" "ls_task s = Running"
    and "set (waiting_callers (driver_arm tcp ev s1)) \<subseteq> set (waiting_callers s) \<union> set (added ev)"
    and "ls_queue (driver_arm tcp ev s1) = ls_queue s1 \<or> ls_queue (driver_arm tcp ev s1) = []"
    and "ls_queue s = queue @ ls_queue s1" "snd ` set (added ev) \<subseteq> set (map sub_completion queue)" "ls_calls s1 = ls_calls s"
  shows "flight_ok (driver_arm tcp ev s1)"
proof (rule flight_mono [OF assms(1), of _ "{}"])
  have "snd ` set (waiting_callers (driver_arm tcp ev s1)) \<subseteq> snd ` set (waiting_callers s) \<union> set (map sub_completion queue)"
    using image_mono [OF assms(3), of snd] assms(6) unfolding image_Un by blast
  then show "known_channels (driver_arm tcp ev s1) \<subseteq> known_channels s \<union> {}"
    unfolding known_channels_def using assms(4,5) by (elim disjE) (simp, blast)+
qed (use assms(2,7) in simp_all)

lemma flight_same:
  "ls_task s' = ls_task s \<Longrightarrow> ls_queue s' = ls_queue s \<Longrightarrow> ls_driver s' = ls_driver s \<Longrightarrow> ls_calls s' = ls_calls s \<Longrightarrow>
   flight_ok s' = flight_ok s"
  by (simp add: flight_ok_def known_channels_def)

lemma no_permit_no_await: "\<not> holds_permit call \<Longrightarrow> call \<noteq> Awaits i c"
  by auto

lemma flight_step:
  assumes ok: "links_ok evs s" "flight_ok s" and st: "session_step tcp ev s = Some s'" and ev: "\<And>k. ev \<noteq> Cancel k"
  shows "flight_ok s'"
proof (cases ev)
  case (Start opcode payload)
  then have s': "s' = call_starts opcode payload s" using st by (simp add: session_step_def split: if_splits)
  show ?thesis
    by (cases rule: call_starts_cases [of opcode payload s]) (use ok(2) s' in \<open>auto simp: flight_ok_def known_channels_def\<close>)
next
  case (Admit k)
  then have "call_admitted k s = Some s'" using st by (simp add: session_step_def)
  then show ?thesis
  proof (cases rule: call_admitted_cases)
    case (returned e sh)
    then show ?thesis using flight_returned [OF ok(2) no_permit_no_await] by simp
  next
    case (admitted c opcode payload i a bs)
    show ?thesis
    proof (rule flight_mono [OF ok(2), of _ "{}"])
      show "Awaits j c' \<in> set (ls_calls s')" if "Awaits j c' \<in> set (ls_calls s)" for j c'
        using kept_nth(2) [OF that, of k] admitted(2,7) by simp
    qed (simp_all add: admitted(7) known_channels_def)
  qed
next
  case (Send k)
  then have "call_sent k s = Some s'" using st by (simp add: session_step_def)
  then show ?thesis
  proof (cases rule: call_sent_cases)
    case (returned e sub)
    then show ?thesis using flight_returned [OF ok(2), of k "Inl e" "ls_shared s"] by simp
  next
    case (sent sub)
    show ?thesis
    proof (rule flight_mono [OF ok(2), of _ "{sub_completion sub}"])
      show "\<exists>i. Awaits i c' \<in> set (ls_calls s')" if "c' \<in> {sub_completion sub}" for c'
        using that sent(4) set_update_memI [OF sent(1)] by auto
      show "Awaits j c' \<in> set (ls_calls s')" if "Awaits j c' \<in> set (ls_calls s)" for j c'
        using kept_nth(2) [OF that, of k] sent(2,4) by simp
    qed (use sent(3) in \<open>simp_all add: sent(4) known_channels_def\<close>)
  qed
next
  case (Complete k)
  then show ?thesis using st flight_completed [OF ok] by (simp add: session_step_def)
next
  case Receive
  then obtain sub rest where q: "ls_queue s = sub # rest" "ls_task s = Running"
    "s' = driver_arm tcp (Ev_Submit sub) (s\<lparr>ls_queue := rest\<rparr>)"
    using st by (auto simp: session_step_def driver_receives_def split: list.splits if_splits)
  let ?s = "s\<lparr>ls_queue := rest\<rparr>"
  have inv: "trace_inv (ls_limits ?s) evs None (ls_driver ?s)" "\<not> drv_submit_closed (ls_driver ?s)"
    "sub_completion sub \<notin> snd ` set (submitted evs)"
    using ok(1) q by (auto simp: links_ok_def calls_ok_def sent_pairs_def)
  note a = driver_arm_links(3,4) [OF inv(1,2), of "Ev_Submit sub" tcp]
  show ?thesis
    unfolding q(3)
    by (rule flight_arm [OF ok(2) q(2), of tcp "Ev_Submit sub" ?s "[sub]"]) (use q(1,2) a inv(3) in \<open>simp_all add: added_def\<close>)
next
  case (Close_Drop k)
  then have "s' = s\<lparr>ls_closers := remove_nth k (ls_closers s)\<rparr>"
    using st by (simp add: session_step_def close_droppedD)
  then show ?thesis using ok(2) flight_same [of s' s] by simp
next
  case (Close_Step k)
  then have c: "close_advances tcp k s = Some s'" using st by (simp add: session_step_def)
  show ?thesis using ok(2) close_advances_keeps(2-5) [OF c] flight_same by metis
next
  case Close
  then have "s' = close_starts s" using st by (simp add: session_step_def split: if_splits)
  then show ?thesis using ok(2) flight_same [of s' s] by (simp add: close_starts_def)
next
  case Drop_Handles
  then have "ls_task s' \<noteq> Running \<or> flight_ok s' = flight_ok s"
    using st flight_same [of s' s] by (auto simp: session_step_def handles_dropped_def split: if_splits)
  then show ?thesis using ok(2) by (auto simp: flight_ok_def)
next
  case (Cancel k)
  then show ?thesis using ev by simp
next
  case Read
  then have q: "ls_task s = Running" "s' = driver_arm tcp Ev_Read s"
    using st by (auto simp: session_step_def driver_reads_def split: if_splits)
  have inv: "trace_inv (ls_limits s) evs None (ls_driver s)" "\<not> drv_submit_closed (ls_driver s)"
    using ok(1) q(1) by (simp_all add: links_ok_def)
  show ?thesis
    unfolding q(2) by (rule flight_arm [OF ok(2) q(1), of tcp Ev_Read s "[]"])
      (use q(1) driver_arm_links(3,4) [OF inv, of Ev_Read tcp] in \<open>simp_all add: added_def\<close>)
next
  case Stop
  then have q: "ls_task s = Running" "s' = driver_arm tcp Ev_Shutdown s"
    using st by (auto simp: session_step_def driver_stops_def split: if_splits)
  have inv: "trace_inv (ls_limits s) evs None (ls_driver s)" "\<not> drv_submit_closed (ls_driver s)"
    using ok(1) q(1) by (simp_all add: links_ok_def)
  show ?thesis
    unfolding q(2) by (rule flight_arm [OF ok(2) q(1), of tcp Ev_Shutdown s "[]"])
      (use q(1) driver_arm_links(3,4) [OF inv, of Ev_Shutdown tcp] in \<open>simp_all add: added_def\<close>)
qed

end
