(* ===== verification/Sessions_Bounds.thy ===== *)
theory Sessions_Bounds
  imports Sessions_Laws
begin

text \<open>
  The identifiers and the number of requests in flight of a session, and what every run of it keeps.
  As long as fewer calls are admitted than there are identifiers, no identifier is given to two
  requests at once; without dropped calls the requests in flight stay within the bound of the
  configuration.
\<close>

section \<open>Identifiers\<close>

fun pending_id :: "call \<Rightarrow> u64 list" where
  "pending_id (Needs_Permit _ _ _) = []"
| "pending_id (Sends sub) = [sub_id sub]"
| "pending_id (Awaits _ _) = []"

text \<open>The identifiers allocated that the driver has not seen, and those it waits for.\<close>

definition unseen_ids :: "'t live_session \<Rightarrow> u64 list" where
  "unseen_ids s = concat (map pending_id (ls_calls s)) @ map sub_id (ls_queue s)"

definition waiting_ids :: "'t live_session \<Rightarrow> u64 set" where
  "waiting_ids s = fst ` set (waiting_callers s)"

abbreviation next_id :: "'t live_session \<Rightarrow> u64" where
  "next_id s \<equiv> alloc_next (sh_allocator (ls_shared s))"

definition ids_ok :: "'t live_session \<Rightarrow> bool" where
  "ids_ok s \<longleftrightarrow>
     distinct (unseen_ids s) \<and> set (unseen_ids s) \<inter> waiting_ids s = {} \<and>
     (\<forall>i \<in> set (unseen_ids s) \<union> waiting_ids s. i < next_id s) \<and> 0 \<notin> set (unseen_ids s) \<and>
     next_id s \<noteq> 0"

lemma concat_remove_nth:
  "k < length xs \<Longrightarrow> mset (concat (map f xs)) = mset (f (xs ! k)) + mset (concat (map f (remove_nth k xs)))"
  unfolding remove_nth_def by (subst id_take_nth_drop [of k xs], assumption) simp

lemma concat_update_nth:
  "k < length xs \<Longrightarrow> mset (concat (map f (xs[k := y]))) = mset (f y) + mset (concat (map f (remove_nth k xs)))"
  unfolding remove_nth_def by (simp add: upd_conv_take_nth_drop)

lemma ids_fewer:
  assumes "ids_ok s" "mset (unseen_ids s') \<subseteq># mset (unseen_ids s)" "waiting_ids s' \<subseteq> waiting_ids s"
    and "next_id s' = next_id s"
  shows "ids_ok s'"
proof -
  have "set (unseen_ids s') \<subseteq> set (unseen_ids s)" using set_mset_mono [OF assms(2)] by simp
  moreover have "distinct (unseen_ids s')" using assms(1) distinct_fewer [OF _ assms(2)] by (simp add: ids_ok_def)
  ultimately show ?thesis using assms(1,3,4) by (auto simp: ids_ok_def)
qed

lemma unseen_returned:
  assumes "k < length (ls_calls s)"
  shows "mset (unseen_ids (call_returns k r s)) \<subseteq># mset (unseen_ids s)"
  using concat_remove_nth [OF assms, of pending_id] by (simp add: unseen_ids_def call_returns_def Let_def)

lemma next_returned [simp]: "next_id (call_returns k r s) = next_id s" "ls_driver (call_returns k r s) = ls_driver s"
  by (simp_all add: call_returns_def release_permit_def Let_def)

lemma ids_returned: "ids_ok s \<Longrightarrow> k < length (ls_calls s) \<Longrightarrow> ids_ok (call_returns k r s)"
  by (rule ids_fewer [OF _ unseen_returned]) (simp_all add: waiting_ids_def)

text \<open>Allocating moves the next identifier forward as long as it has not come round.\<close>

lemma allocate_forward:
  assumes "allocate a = (i, a')" "alloc_next a \<noteq> 0" "unat (alloc_next a) < 18446744073709551615"
  shows "i = alloc_next a" "unat (alloc_next a') = unat (alloc_next a) + 1" "i < alloc_next a'" "alloc_next a' \<noteq> 0"
proof -
  have u: "unat (alloc_next a + 1) = unat (alloc_next a) + 1"
    using assms(3) by (subst unat_add_lem [THEN iffD1]) simp_all
  then have "alloc_next a + 1 \<noteq> 0" by (metis Suc_eq_plus1 nat.distinct(1) unat_0)
  then have "i = alloc_next a \<and> a' = a\<lparr>alloc_next := alloc_next a + 1\<rparr>"
    using assms(1,2) by (auto simp: allocate_alt Let_def)
  then show "i = alloc_next a" "unat (alloc_next a') = unat (alloc_next a) + 1" "i < alloc_next a'" "alloc_next a' \<noteq> 0"
    using u \<open>alloc_next a + 1 \<noteq> 0\<close> by (simp_all add: word_less_nat_alt)
qed

lemma shared_free [simp]:
  "unseen_ids (s\<lparr>ls_shared := sh\<rparr>) = unseen_ids s" "waiting_ids (s\<lparr>ls_shared := sh\<rparr>) = waiting_ids s"
  by (simp_all add: unseen_ids_def waiting_ids_def)

lemma ids_allocated:
  assumes "ids_ok s" "unat (next_id s) < 18446744073709551615" "allocate (sh_allocator (ls_shared s)) = (i, a)"
  shows "ids_ok (s\<lparr>ls_shared := (ls_shared s)\<lparr>sh_allocator := a\<rparr>\<rparr>)"
proof -
  note f = allocate_forward [OF assms(3) _ assms(2)]
  have "next_id s \<noteq> 0" using assms(1) by (simp add: ids_ok_def)
  then have "next_id s < alloc_next a" "alloc_next a \<noteq> 0" using f(1,3,4) by simp_all
  then show ?thesis using assms(1) by (auto simp: ids_ok_def dest: bspec intro: order_less_trans)
qed

lemma ids_admitted:
  assumes ok: "ids_ok s" and small: "unat (next_id s) < 18446744073709551615" and k: "call_admitted k s = Some s'"
  shows "ids_ok s' \<and> unat (next_id s') \<le> unat (next_id s) + 1"
  using k
proof (cases rule: call_admitted_cases)
  case (returned e sh)
  obtain i a where a: "allocate (sh_allocator (ls_shared s)) = (i, a)" by (cases "allocate (sh_allocator (ls_shared s))")
  have n: "next_id s \<noteq> 0" using ok by (simp add: ids_ok_def)
  have "sh = ls_shared s \<or> sh = (ls_shared s)\<lparr>sh_allocator := a\<rparr>"
    using returned(4) a by (auto simp: allocate_id_def split: if_splits)
  then have "ids_ok (s\<lparr>ls_shared := sh\<rparr>)" "unat (next_id (s\<lparr>ls_shared := sh\<rparr>)) \<le> unat (next_id s) + 1"
    using ok ids_allocated [OF ok small a] allocate_forward(2) [OF a n small] by auto
  then show ?thesis using ids_returned [of "s\<lparr>ls_shared := sh\<rparr>" k "Inl e"] returned(1,3) by simp
next
  case (admitted c opcode payload i a bs)
  have n: "next_id s \<noteq> 0" using ok by (simp add: ids_ok_def)
  note f = allocate_forward [OF admitted(5) n small]
  have m: "mset (unseen_ids s') = add_mset i (mset (unseen_ids s))"
    using concat_update_nth [OF admitted(1), of pending_id] concat_remove_nth [OF admitted(1), of pending_id] admitted(2,7)
    by (simp add: unseen_ids_def)
  have fresh: "i \<notin> set (unseen_ids s) \<union> waiting_ids s" using ok f(1) by (auto simp: ids_ok_def)
  have s': "set (unseen_ids s') = insert i (set (unseen_ids s))" "waiting_ids s' = waiting_ids s" "next_id s' = alloc_next a"
    using mset_eq_setD [of "unseen_ids s'" "i # unseen_ids s"] m admitted(7) by (simp_all add: waiting_ids_def)
  have "distinct (i # unseen_ids s)" using fresh ok by (simp add: ids_ok_def)
  then have "distinct (unseen_ids s')" using m mset_eq_imp_distinct_iff [of "unseen_ids s'" "i # unseen_ids s"] by simp
  moreover have "\<forall>j \<in> set (unseen_ids s') \<union> waiting_ids s'. j < next_id s'"
    using ok f(1,3) unfolding s' ids_ok_def by (auto intro: order_less_trans)
  ultimately show ?thesis using ok fresh admitted(6) f(2,4) unfolding ids_ok_def s' by auto
qed

lemma ids_arm:
  assumes ok: "ids_ok s" and links: "links_ok evs s" and run: "ls_task s = Running" and ev: "ev \<in> {Ev_Read, Ev_Shutdown}"
  shows "ids_ok (driver_arm tcp ev s) \<and> next_id (driver_arm tcp ev s) = next_id s"
proof -
  have inv: "trace_inv (ls_limits s) evs None (ls_driver s)" "\<not> drv_submit_closed (ls_driver s)"
    using links run by (simp_all add: links_ok_def)
  have n: "ev \<noteq> Ev_Submit_Closed" "\<And>sub. ev \<noteq> Ev_Submit sub" using ev by auto
  have "added ev = []" using ev by (auto simp: added_def)
  then have a: "set (waiting_callers (driver_arm tcp ev s)) \<subseteq> set (waiting_callers s)"
    using driver_arm_links(4) [OF inv n(1), of tcp] n(2) run by simp
  have q: "ls_queue (driver_arm tcp ev s) = ls_queue s \<or> ls_queue (driver_arm tcp ev s) = []"
    using driver_arm_links(3) [OF inv n(1), of tcp] n(2) run by simp
  have "sh_allocator (ls_shared (driver_arm tcp ev s)) = sh_allocator (ls_shared s)"
    using driver_arm_links(6) [OF inv n(1), of tcp] n(2) run by simp
  moreover have "mset (unseen_ids (driver_arm tcp ev s)) \<subseteq># mset (unseen_ids s)"
    using q by (auto simp: unseen_ids_def)
  ultimately show ?thesis using ids_fewer [OF ok, of "driver_arm tcp ev s"] image_mono [OF a, of fst] by (simp add: waiting_ids_def)
qed

lemma ids_received:
  assumes ok: "ids_ok s" and links: "links_ok evs s" and run: "ls_task s = Running" and q: "ls_queue s = sub # rest"
  defines "s1 \<equiv> s\<lparr>ls_queue := rest\<rparr>"
  shows "ids_ok (driver_arm tcp (Ev_Submit sub) s1) \<and> next_id (driver_arm tcp (Ev_Submit sub) s1) = next_id s"
proof -
  let ?s' = "driver_arm tcp (Ev_Submit sub) s1"
  have inv: "trace_inv (ls_limits s1) evs None (ls_driver s1)" "\<not> drv_submit_closed (ls_driver s1)" "ls_task s1 = Running"
    "sub_completion sub \<notin> snd ` set (submitted evs)"
    using links run q by (auto simp: links_ok_def calls_ok_def sent_pairs_def s1_def)
  note a = driver_arm_links(3,4,6) [OF inv(1,2), of "Ev_Submit sub" tcp]
  have w: "set (waiting_callers ?s') \<subseteq> insert (sub_id sub, sub_completion sub) (set (waiting_callers s))"
    using a(2) inv(3,4) by (auto simp: added_def s1_def)
  have al: "next_id ?s' = next_id s" using a(3) inv(3,4) by (simp add: s1_def)
  have "mset (unseen_ids s) = add_mset (sub_id sub) (mset (unseen_ids s1))" using q by (simp add: unseen_ids_def s1_def)
  moreover have "mset (unseen_ids ?s') \<subseteq># mset (unseen_ids s1)" using a(1) inv(3,4) by (auto simp: unseen_ids_def)
  ultimately have m: "mset (sub_id sub # unseen_ids ?s') \<subseteq># mset (unseen_ids s)" by simp
  then have d: "distinct (sub_id sub # unseen_ids ?s')" using ok distinct_fewer [OF _ m] by (simp add: ids_ok_def)
  have st: "insert (sub_id sub) (set (unseen_ids ?s')) \<subseteq> set (unseen_ids s)" using set_mset_mono [OF m] by simp
  have "waiting_ids ?s' \<subseteq> insert (sub_id sub) (waiting_ids s)" using image_mono [OF w, of fst] by (simp add: waiting_ids_def)
  then show ?thesis using ok d st al unfolding ids_ok_def by auto
qed

lemma ids_step:
  assumes ok: "ids_ok s" and links: "links_ok evs s" and small: "unat (next_id s) < 18446744073709551615"
    and st: "session_step tcp ev s = Some s'"
  shows "ids_ok s' \<and> unat (next_id s') \<le> unat (next_id s) + 1"
proof (cases ev)
  case (Start opcode payload)
  then have s': "s' = call_starts opcode payload s" using st by (simp add: session_step_def split: if_splits)
  have same: "unseen_ids s' = unseen_ids s" "ls_driver s' = ls_driver s" "next_id s' = next_id s"
    by (cases rule: call_starts_cases [of opcode payload s]; simp add: s' unseen_ids_def)+
  then show ?thesis using ids_fewer [OF ok, of s'] by (simp add: waiting_ids_def)
next
  case (Admit k)
  then show ?thesis using ids_admitted [OF ok small] st by (simp add: session_step_def)
next
  case (Send k)
  then have "call_sent k s = Some s'" using st by (simp add: session_step_def)
  then show ?thesis
  proof (cases rule: call_sent_cases)
    case (returned e sub)
    then show ?thesis using ids_returned [OF ok] by simp
  next
    case (sent sub)
    have "mset (unseen_ids s') = mset (unseen_ids s)"
      using concat_update_nth [OF sent(1), of pending_id] concat_remove_nth [OF sent(1), of pending_id] sent(2,4)
      by (simp add: unseen_ids_def)
    then show ?thesis using ids_fewer [OF ok, of s'] sent(4) by (simp add: waiting_ids_def)
  qed
next
  case (Complete k)
  then have "call_completed k s = Some s'" using st by (simp add: session_step_def)
  then show ?thesis by (rule call_completed_cases) (use ids_returned [OF ok] in simp)
next
  case (Cancel k)
  then have k: "k < length (ls_calls s)" and s': "ls_calls s' = remove_nth k (ls_calls s)" "ls_queue s' = ls_queue s"
      "ls_driver s' = ls_driver s" "next_id s' = next_id s"
    using st by (auto simp: session_step_def call_cancelled_def release_permit_def split: if_splits)
  have "mset (unseen_ids s') \<subseteq># mset (unseen_ids s)"
    using concat_remove_nth [OF k, of pending_id] s' by (simp add: unseen_ids_def)
  then show ?thesis using ids_fewer [OF ok, of s'] s' by (simp add: waiting_ids_def)
next
  case Receive
  then obtain sub rest where "ls_queue s = sub # rest" "ls_task s = Running"
    "s' = driver_arm tcp (Ev_Submit sub) (s\<lparr>ls_queue := rest\<rparr>)"
    using st by (auto simp: session_step_def driver_receives_def split: list.splits if_splits)
  then show ?thesis using ids_received [OF ok links] by simp
next
  case Read
  then show ?thesis using st ids_arm [OF ok links, of Ev_Read tcp] by (auto simp: session_step_def driver_reads_def split: if_splits)
next
  case Stop
  then show ?thesis using st ids_arm [OF ok links, of Ev_Shutdown tcp] by (auto simp: session_step_def driver_stops_def split: if_splits)
next
  case Close
  then have "s' = close_starts s" using st by (simp add: session_step_def split: if_splits)
  then show ?thesis using ids_fewer [OF ok, of s'] by (simp add: close_starts_def unseen_ids_def waiting_ids_def)
next
  case (Close_Drop k)
  then have "s' = s\<lparr>ls_closers := remove_nth k (ls_closers s)\<rparr>"
    using st by (simp add: session_step_def close_droppedD)
  then show ?thesis using ids_fewer [OF ok, of s'] by (simp add: unseen_ids_def waiting_ids_def)
next
  case (Close_Step k)
  then have c: "close_advances tcp k s = Some s'" using st by (simp add: session_step_def)
  show ?thesis
    using ids_fewer [OF ok, of s'] close_advances_keeps [OF c] by (simp add: unseen_ids_def waiting_ids_def)
next
  case Drop_Handles
  then have "ls_calls s' = ls_calls s" "ls_queue s' = ls_queue s \<or> ls_queue s' = []" "ls_driver s' = ls_driver s" "next_id s' = next_id s"
    using st by (auto simp: session_step_def handles_dropped_def split: if_splits)
  moreover from this have "mset (unseen_ids s') \<subseteq># mset (unseen_ids s)" by (auto simp: unseen_ids_def)
  ultimately show ?thesis using ids_fewer [OF ok, of s'] by (simp add: waiting_ids_def)
qed

section \<open>Runs\<close>

definition never_cancels :: "session_event list \<Rightarrow> bool" where
  "never_cancels evs \<longleftrightarrow> list_all (\<lambda>ev. case ev of Cancel _ \<Rightarrow> False | _ \<Rightarrow> True) evs"

lemma run_invariants:
  assumes "session_run tcp evs s = Some s'" "permits_ok s" "links_ok tr s"
  shows "permits_ok s' \<and> (\<exists>tr'. links_ok tr' s') \<and> (never_cancels evs \<longrightarrow> flight_ok s \<longrightarrow> flight_ok s') \<and>
    (ids_ok s \<longrightarrow> unat (next_id s) + length evs \<le> 18446744073709551615 \<longrightarrow>
     ids_ok s' \<and> unat (next_id s') \<le> unat (next_id s) + length evs)"
  using assms(1)
proof (induction rule: ses.run_induct)
  case start
  then show ?case using assms(2,3) by auto
next
  case (step evs ev s1 s2)
  from step.IH obtain tr1 where tr1: "links_ok tr1 s1" by blast
  have "permits_ok s2" "\<exists>tr'. links_ok tr' s2"
    using step.IH step.hyps(2) permits_step links_step [OF tr1 step.hyps(2)] by blast+
  moreover have "flight_ok s2" if "never_cancels (evs @ [ev])" "flight_ok s"
    by (rule flight_step [OF tr1 _ step.hyps(2)]) (use that step.IH in \<open>auto simp: never_cancels_def\<close>)
  moreover have "ids_ok s2 \<and> unat (next_id s2) \<le> unat (next_id s) + length (evs @ [ev])"
    if "ids_ok s" "unat (next_id s) + length (evs @ [ev]) \<le> 18446744073709551615"
    using ids_step [OF _ tr1 _ step.hyps(2)] step.IH that by fastforce
  ultimately show ?case by blast
qed

text \<open>The limits and the bound are those the session was started with.\<close>

lemma fixed_returned [simp]: "ls_limits (call_returns k r s) = ls_limits s"
  "sh_maximum_in_flight (ls_shared (call_returns k r s)) = sh_maximum_in_flight (ls_shared s)"
  "sh_negotiated (ls_shared (call_returns k r s)) = sh_negotiated (ls_shared s)"
  by (simp_all add: call_returns_def release_permit_def Let_def)

lemma fixed_arm [simp]: "sh_maximum_in_flight (ls_shared (driver_arm tcp ev s)) = sh_maximum_in_flight (ls_shared s)"
  "sh_negotiated (ls_shared (driver_arm tcp ev s)) = sh_negotiated (ls_shared s)"
  using driver_arm_shared [of s tcp ev] by (simp_all add: same_bounds_def)

lemma fixed_step:
  assumes "session_step tcp ev s = Some s'"
  shows "ls_limits s' = ls_limits s \<and> sh_maximum_in_flight (ls_shared s') = sh_maximum_in_flight (ls_shared s) \<and>
    sh_negotiated (ls_shared s') = sh_negotiated (ls_shared s)"
proof (cases ev)
  case (Start opcode payload)
  then have s': "s' = call_starts opcode payload s" using assms by (simp add: session_step_def split: if_splits)
  show ?thesis by (cases rule: call_starts_cases [of opcode payload s]) (simp_all add: s')
next
  case (Admit k)
  then have "call_admitted k s = Some s'" using assms by (simp add: session_step_def)
  then show ?thesis
  proof (cases rule: call_admitted_cases)
    case (returned e sh)
    then show ?thesis using allocate_id_permits [of "ls_shared s" _ sh] by (auto simp: same_bounds_def)
  qed simp
next
  case (Send k)
  then have "call_sent k s = Some s'" using assms by (simp add: session_step_def)
  then show ?thesis by (cases rule: call_sent_cases) simp_all
next
  case (Complete k)
  then have "call_completed k s = Some s'" using assms by (simp add: session_step_def)
  then show ?thesis by (rule call_completed_cases) simp
next
  case (Close_Step k)
  then have "close_advances tcp k s = Some s'" using assms by (simp add: session_step_def)
  then show ?thesis using close_advances_keeps [of tcp k s s'] by (simp add: same_bounds_def)
qed (use assms in
    \<open>auto simp: session_step_def call_cancelled_def release_permit_def driver_receives_def driver_reads_def driver_stops_def
      close_starts_def close_dropped_def handles_dropped_def split: if_splits list.splits\<close>)

lemma fixed_run:
  "session_run tcp evs s = Some s' \<Longrightarrow>
     ls_limits s' = ls_limits s \<and> sh_maximum_in_flight (ls_shared s') = sh_maximum_in_flight (ls_shared s) \<and>
     sh_negotiated (ls_shared s') = sh_negotiated (ls_shared s)"
  using ses.run_constant [of tcp evs s s' "\<lambda>s. (ls_limits s, sh_maximum_in_flight (ls_shared s), sh_negotiated (ls_shared s))"]
    fixed_step by fastforce

lemma session_of_start:
  assumes "session_of (start_session tr config n) = Some s"
  shows "permits_ok s" "links_ok [] s" "flight_ok s" "ids_ok s" "unat (next_id s) = 2"
    "sh_maximum_in_flight (ls_shared s) = cfg_maximum_in_flight config"
    "ls_limits s = \<lparr>frame_size = min (neg_maximum_frame_size n) (cfg_local_maximum_frame_size config),
       metadata_size = min (neg_maximum_metadata_size n) (cfg_local_maximum_metadata_size config)\<rparr>"
  using assms
  by (auto simp: session_of_def start_session_def Let_def permits_ok_def permits_held_def links_ok_def trace_inv_def
      session_inv_def registry_inv_def session_new_def registry_new_def live_ids_def channels_def submitted_def submissions.simps
      driver_new_def calls_ok_def sent_pairs_def flight_ok_def known_channels_def ids_ok_def unseen_ids_def waiting_ids_def
      allocate_alt allocator_new_def split: any_transport.splits)

lemma live_waiting: "links_ok tr s \<Longrightarrow> registry_len (ses_live (drv_session (ls_driver s))) = length (waiting_callers s)"
  using distinct_card [of "live (ses_live (drv_session (ls_driver s)))"] distinct_card [of "map fst (waiting_callers s)"]
  by (simp add: links_ok_def trace_inv_def session_inv_def registry_inv_def live_ids_def registry_len_def)

lemma head_fresh:
  assumes "links_ok tr s" "ids_ok s" "ls_queue s = sub # rest"
  shows "registry_insert (ses_live (drv_session (ls_driver s))) (sub_id sub) =
    Inr ((ses_live (drv_session (ls_driver s)))\<lparr>live := sub_id sub # live (ses_live (drv_session (ls_driver s)))\<rparr>)"
proof -
  have "set (live (ses_live (drv_session (ls_driver s)))) = waiting_ids s"
    using assms(1) by (simp add: links_ok_def trace_inv_def session_inv_def live_ids_def waiting_ids_def)
  moreover have "sub_id sub \<in> set (unseen_ids s)" using assms(3) by (simp add: unseen_ids_def)
  ultimately show ?thesis using assms(2) by (auto simp: registry_insert_def ids_ok_def)
qed

text \<open>What the driver and its channel know is at most the calls that hold permits.\<close>

lemma flight_bounded:
  assumes links: "links_ok tr s" and permits: "permits_ok s" and flight: "flight_ok s" and run: "ls_task s = Running"
  shows "length (ls_queue s) + registry_len (ses_live (drv_session (ls_driver s))) \<le> sh_maximum_in_flight (ls_shared s)"
proof -
  let ?w = "waiting_callers s" and ?live = "ses_live (drv_session (ls_driver s))"
  let ?known = "map snd ?w @ map sub_completion (ls_queue s)"
  let ?holders = "filter holds_permit (ls_calls s)"
  have inv: "session_inv (drv_session (ls_driver s))" "set ?w \<subseteq> set (submitted tr)" "distinct (map snd (sent_pairs tr s))"
    using links by (simp_all add: links_ok_def trace_inv_def calls_ok_def)
  have d: "distinct ?known"
    using inv by (auto simp: session_inv_def sent_pairs_def comp_def image_iff subset_iff)
  have "length (ls_queue s) + registry_len ?live = length ?known" using live_waiting [OF links] by simp
  also have "\<dots> = card (set ?known)" using distinct_card [OF d] by simp
  also have "\<dots> \<le> card (call_channel ` set ?holders)"
  proof (rule card_mono)
    show "set ?known \<subseteq> call_channel ` set ?holders"
      using flight run by (fastforce simp: flight_ok_def known_channels_def image_iff)
  qed simp
  also have "\<dots> \<le> length ?holders" by (metis card_length list.set_map length_map)
  also have "\<dots> = permits_held s" by (simp add: permits_held_def flip: mset_filter)
  also have "\<dots> \<le> sh_maximum_in_flight (ls_shared s)" using permits by (simp add: permits_ok_def)
  finally show ?thesis .
qed

end
