(* ===== verification/Sessions_Runs.thy ===== *)
theory Sessions_Runs
  imports Sessions_Bounds
begin

text \<open>
  Properties of the runs of a session: what a call returns answers its own request, admission is
  bounded, no submission is refused, and no call is left waiting once the driver has ended.  Two
  runs show what the code does not give: the bound does not cover requests whose callers dropped
  their calls, and a second close returns while the first still waits for the driver.
\<close>

section \<open>The end of a session\<close>

text \<open>Once the driver has ended admission is closed, and once it was aborted nobody calls any more.\<close>

definition ended_ok :: "'t live_session \<Rightarrow> bool" where
  "ended_ok s \<longleftrightarrow>
     (case ls_task s of
        Running \<Rightarrow> True
      | Ended _ \<Rightarrow> sem_closed (sh_admission (ls_shared s))
      | Aborted \<Rightarrow> ls_calls s = [] \<and> \<not> ls_handles s)"

lemma driver_exit_closes:
  "driver_step tcp lim ev d = (Some e, d') \<Longrightarrow> ev \<noteq> Ev_Submit_Closed \<Longrightarrow> \<not> drv_submit_closed d \<Longrightarrow> drv_admission_closed d'"
  by (cases ev)
     (auto simp: driver_step_def on_shutdown_def on_submit_def on_read_def loop_end_def end_session_def Let_def
      split: prod.splits sum.splits option.splits if_splits)

lemma ended_arm:
  assumes "ev \<noteq> Ev_Submit_Closed" "\<not> drv_submit_closed (ls_driver s)"
  shows "ended_ok (driver_arm tcp ev s)"
proof -
  define d where "d = (ls_driver s)\<lparr>drv_state := sh_state (ls_shared s),
    drv_admission_closed := sem_closed (sh_admission (ls_shared s))\<rparr>"
  obtain x d' where st: "driver_step tcp (ls_limits s) ev d = (x, d')" by (cases "driver_step tcp (ls_limits s) ev d")
  have "\<not> drv_submit_closed d" using assms(2) by (simp add: d_def)
  then have "x \<noteq> None \<Longrightarrow> drv_admission_closed d'" using driver_exit_closes [OF _ assms(1)] st by auto
  then show ?thesis using st by (cases x) (simp_all add: ended_ok_def driver_arm_def Let_def d_def)
qed

lemma ended_mono:
  assumes "ended_ok s" "ls_task s' = ls_task s" "ls_task s = Aborted \<Longrightarrow> ls_calls s' = [] \<and> \<not> ls_handles s'"
    and "sem_closed (sh_admission (ls_shared s)) \<Longrightarrow> sem_closed (sh_admission (ls_shared s'))"
  shows "ended_ok s'"
  using assms by (auto simp: ended_ok_def split: task.splits)

lemma close_advances_more:
  assumes "close_advances tcp k s = Some s'"
  shows "ls_handles s' = ls_handles s"
    "sem_closed (sh_admission (ls_shared s)) \<Longrightarrow> sem_closed (sh_admission (ls_shared s'))"
  using assms
  by (auto simp: close_advances_def close_admission_def take_signal_def take_handle_def close_returns_def close_join_def
      close_without_driver_def
      split: if_splits closing.splits task.splits option.splits sum.splits driver_exit.splits prod.splits)

lemma call_step_shared:
  "allocate_id sh = (x, sh') \<Longrightarrow> sh_admission sh' = sh_admission sh"
  by (auto simp: allocate_id_def split: prod.splits)

lemma returns_ended [simp]: "ls_task (call_returns k r s) = ls_task s" "ls_handles (call_returns k r s) = ls_handles s"
  "sem_closed (sh_admission (ls_shared (call_returns k r s))) = sem_closed (sh_admission (ls_shared s))"
  by (simp_all add: call_returns_def release_permit_def sem_release_def Let_def)

lemma ended_step:
  assumes ok: "ended_ok s" and links: "links_ok tr s" and st: "session_step tcp ev s = Some s'"
  shows "ended_ok s'"
proof (cases ev)
  case (Start opcode payload)
  then have s': "s' = call_starts opcode payload s" "ls_handles s" using st by (auto simp: session_step_def split: if_splits)
  show ?thesis
    by (cases rule: call_starts_cases [of opcode payload s]; rule ended_mono [OF ok])
       (use ok s' in \<open>simp_all add: ended_ok_def\<close>)
next
  case (Admit k)
  then have "call_admitted k s = Some s'" using st by (simp add: session_step_def)
  then show ?thesis
  proof (cases rule: call_admitted_cases)
    case (returned e sh)
    then have "sh_admission sh = sh_admission (ls_shared s)" using call_step_shared by auto
    then show ?thesis using returned(1,3) ok by (intro ended_mono [OF ok]) (simp_all add: ended_ok_def)
  next
    case (admitted c opcode payload i a bs)
    then show ?thesis using ok by (intro ended_mono [OF ok]) (simp_all add: ended_ok_def)
  qed
next
  case (Send k)
  then have "call_sent k s = Some s'" using st by (simp add: session_step_def)
  then show ?thesis
    by (cases rule: call_sent_cases; intro ended_mono [OF ok]) (use ok in \<open>simp_all add: ended_ok_def\<close>)
next
  case (Complete k)
  then have "call_completed k s = Some s'" using st by (simp add: session_step_def)
  then show ?thesis by (rule call_completed_cases; intro ended_mono [OF ok]) (use ok in \<open>simp_all add: ended_ok_def\<close>)
next
  case (Close_Step k)
  then have c: "close_advances tcp k s = Some s'" using st by (simp add: session_step_def)
  show ?thesis
    by (rule ended_mono [OF ok close_advances_keeps(5) [OF c] _ close_advances_more(2) [OF c]])
       (use ok close_advances_keeps(2) [OF c] close_advances_more(1) [OF c] in \<open>simp_all add: ended_ok_def\<close>)
next
  case Receive
  then obtain sub rest where "s' = driver_arm tcp (Ev_Submit sub) (s\<lparr>ls_queue := rest\<rparr>)"
    using st by (auto simp: session_step_def driver_receives_def split: list.splits if_splits)
  then show ?thesis using ended_arm [of "Ev_Submit sub" "s\<lparr>ls_queue := rest\<rparr>"] links by (simp add: links_ok_def)
next
  case Read
  then show ?thesis
    using st ended_arm [of Ev_Read] links by (auto simp: session_step_def driver_reads_def links_ok_def split: if_splits)
next
  case Stop
  then show ?thesis
    using st ended_arm [of Ev_Shutdown] links by (auto simp: session_step_def driver_stops_def links_ok_def split: if_splits)
qed (use ok st in
    \<open>auto simp: session_step_def call_cancelled_def release_permit_def sem_release_def close_starts_def close_dropped_def
      handles_dropped_def ended_ok_def split: if_splits task.splits\<close>)

lemma ended_run:
  assumes "session_run tcp evs s = Some s'" "ended_ok s" "links_ok tr s"
  shows "ended_ok s'"
  using assms(1)
proof (rule ses.run_invariant [where I = "\<lambda>s. ended_ok s \<and> (\<exists>tr. links_ok tr s)", THEN conjunct1])
  show "ended_ok s2 \<and> (\<exists>tr. links_ok tr s2)"
    if "ended_ok s1 \<and> (\<exists>tr. links_ok tr s1)" "session_step tcp ev s1 = Some s2" for ev s1 s2
    using that ended_step links_step by blast
qed (use assms(2,3) in blast)

lemma call_returns_once: "ls_calls (call_returns k r s) = remove_nth k (ls_calls s)"
  "ls_results (call_returns k r s) = ls_results s @ [(call_channel (ls_calls s ! k), r)]"
  by (simp_all add: call_returns_def Let_def)

lemma ended_returns:
  assumes "ended_ok s" "ls_task s \<noteq> Running" "k < length (ls_calls s)"
  shows "\<exists>ev s'. session_step tcp ev s = Some s' \<and> ls_calls s' = remove_nth k (ls_calls s) \<and>
    (\<exists>r. ls_results s' = ls_results s @ [(call_channel (ls_calls s ! k), r)])"
proof (cases "ls_calls s ! k")
  case (Needs_Permit c opcode payload)
  have "sem_closed (sh_admission (ls_shared s))" using assms by (auto simp: ended_ok_def split: task.splits)
  then have "call_admitted k s = Some (call_returns k (Inl (completion_lost (sh_state (ls_shared s)))) s)"
    using assms(3) Needs_Permit by (simp add: call_admitted_def sem_acquire_def)
  then show ?thesis by (intro exI [of _ "Admit k"]) (auto simp: session_step_def call_returns_once)
next
  case (Sends sub)
  then have "call_sent k s = Some (call_returns k (Inl (completion_lost (sh_state (ls_shared s)))) s)"
    using assms(2,3) by (simp add: call_sent_def)
  then show ?thesis by (intro exI [of _ "Send k"]) (auto simp: session_step_def call_returns_once)
next
  case (Awaits i c)
  then have "\<exists>r. call_completed k s = Some (call_returns k r s)"
    using assms(2,3) by (auto simp: call_completed_def split: option.splits sum.splits)
  then show ?thesis by (intro exI [of _ "Complete k"]) (auto simp: session_step_def call_returns_once)
qed

section \<open>Concrete sessions\<close>

text \<open>A caller that starts a request, waits until the driver has written it and drops its call.\<close>

definition queueing :: "session_event list" where
  "queueing = [Start PING_OPCODE encode_ping, Admit 0, Send 0]"

definition abandoning :: "session_event list" where
  "abandoning = queueing @ [Receive, Cancel 0]"

definition quiet :: "nat \<Rightarrow> nat \<Rightarrow> in_memory_transport live_session \<Rightarrow> bool" where
  "quiet bound n s \<longleftrightarrow>
     ls_calls s = [] \<and> ls_queue s = [] \<and> ls_handles s \<and> ls_task s = Running \<and> sh_state (ls_shared s) = Usable \<and>
     sh_negotiated (ls_shared s) = sample_negotiated \<and> sh_submit_tx (ls_shared s) \<and>
     sh_admission (ls_shared s) = \<lparr>sem_permits = bound, sem_closed = False\<rparr> \<and>
     (\<exists>m. drv_transport (ls_driver s) = Tcp m \<and> \<not> mem_closed m \<and> mem_write_step m = 64) \<and>
     sh_maximum_in_flight (ls_shared s) = bound \<and> unat (next_id s) = n + 2 \<and> length (waiting_callers s) = n \<and>
     ls_closers s = [] \<and> ls_closed s = [] \<and> sh_driver (ls_shared s) \<and> sh_shutdown_tx (ls_shared s) \<and> sh_transport (ls_shared s) = None"

lemma ping_request:
  obtains bs where "encode_request PING_OPCODE encode_ping i 65536 4096 = Inr bs" "length bs = 20"
proof -
  obtain bs where bs: "encode_request PING_OPCODE encode_ping i 65536 4096 = Inr bs"
    using encode_request_fits [of PING_OPCODE encode_ping i 65536 4096] by (auto simp: encode_ping_def)
  then have "length bs = 20" by (auto simp: encode_request_ok encode_with_max_ok encode_payload_def encode_ping_def)
  with bs show thesis by (rule that)
qed

text \<open>Submitting one request from a quiet session: the submission is queued, then the driver writes it.\<close>

lemma request_queued:
  assumes q: "quiet bound n s" and bound: "0 < bound" and a: "allocate (sh_allocator (ls_shared s)) = (i, a)"
  obtains bs where "length bs = 20" "session_run memory_ops queueing s = Some
    (s\<lparr>ls_next := Suc (ls_next s), ls_queue := [\<lparr>sub_id = i, sub_bytes = bs, sub_completion = ls_next s\<rparr>],
       ls_calls := [Awaits i (ls_next s)],
       ls_shared := (ls_shared s)\<lparr>sh_allocator := a, sh_admission := \<lparr>sem_permits = bound - 1, sem_closed = False\<rparr>\<rparr>\<rparr>)"
proof -
  have i: "i \<noteq> 0" using allocate_nonzero [of "sh_allocator (ls_shared s)"] a by simp
  obtain bs where bs: "encode_request PING_OPCODE encode_ping i 65536 4096 = Inr bs" "length bs = 20"
    by (rule ping_request)
  have w: "\<not> (65536 :: u64) < wire_size (length encode_ping)"
    using wire_size_eq [of "length encode_ping"] by (simp add: encode_ping_def word_less_nat_alt)
  define sub where "sub = \<lparr>sub_id = i, sub_bytes = bs, sub_completion = ls_next s\<rparr>"
  define sh where "sh = (ls_shared s)\<lparr>sh_allocator := a, sh_admission := \<lparr>sem_permits = bound - 1, sem_closed = False\<rparr>\<rparr>"
  define s1 where "s1 = s\<lparr>ls_next := Suc (ls_next s), ls_calls := [Needs_Permit (ls_next s) PING_OPCODE encode_ping]\<rparr>"
  define s2 where "s2 = s1\<lparr>ls_shared := sh, ls_calls := [Sends sub]\<rparr>"
  have "session_step memory_ops (Start PING_OPCODE encode_ping) s = Some s1"
    using q w by (auto simp: quiet_def session_step_def call_starts_def effective_limits_def check_usable_def
        state_is_usable_def Let_def s1_def)
  moreover have "session_step memory_ops (Admit 0) s1 = Some s2"
    using q w a i bs(1) bound by (auto simp: quiet_def session_step_def call_admitted_def effective_limits_def sem_acquire_def
        allocate_id_def s1_def s2_def sh_def sub_def)
  moreover have "session_step memory_ops (Send 0) s2 = Some (s2\<lparr>ls_queue := [sub], ls_calls := [Awaits i (ls_next s)]\<rparr>)"
    using q by (auto simp: quiet_def session_step_def call_sent_def SUBMIT_CHANNEL_def s1_def s2_def sub_def)
  ultimately show thesis using that [OF bs(2)] by (simp add: queueing_def s1_def s2_def sub_def sh_def)
qed

lemma driver_arm_writes:
  assumes "drv_transport (ls_driver s) = Tcp m" "\<not> mem_closed m" "length (sub_bytes sub) = 20" "20 \<le> mem_write_step m"
    and "registry_insert (ses_live (drv_session (ls_driver s))) (sub_id sub) = Inr l"
    and "\<not> drv_submit_closed (ls_driver s)"
  defines "s' \<equiv> driver_arm memory_ops (Ev_Submit sub) s"
  shows "ls_queue s' = ls_queue s" "ls_handles s' = ls_handles s" "ls_closers s' = ls_closers s" "ls_closed s' = ls_closed s"
    "ls_task s' = Running"
    "drv_transport (ls_driver s') = Tcp (m\<lparr>mem_written := mem_written m @ sub_bytes sub\<rparr>)"
    "drv_session (ls_driver s') = (drv_session (ls_driver s))\<lparr>ses_live := l,
       ses_completions := AList.update (sub_id sub) (sub_completion sub) (waiting_callers s)\<rparr>"
    "ls_shared s' = ls_shared s" "drv_submit_closed (ls_driver s') = drv_submit_closed (ls_driver s)"
proof -
  have "sub_bytes sub \<noteq> []" using assms(3) by auto
  then have wr: "driver_write_all memory_ops (Tcp m) (sub_bytes sub) = (Inr (), Tcp (m\<lparr>mem_written := mem_written m @ sub_bytes sub\<rparr>))"
    using driver_write_all_tcp [OF assms(2), of "sub_bytes sub"] assms(3,4) by simp
  show "ls_queue s' = ls_queue s" "ls_handles s' = ls_handles s" "ls_closers s' = ls_closers s" "ls_closed s' = ls_closed s"
    "ls_task s' = Running"
    "drv_transport (ls_driver s') = Tcp (m\<lparr>mem_written := mem_written m @ sub_bytes sub\<rparr>)"
    "drv_session (ls_driver s') = (drv_session (ls_driver s))\<lparr>ses_live := l,
       ses_completions := AList.update (sub_id sub) (sub_completion sub) (waiting_callers s)\<rparr>"
    "ls_shared s' = ls_shared s" "drv_submit_closed (ls_driver s') = drv_submit_closed (ls_driver s)"
    using assms(1,5,6) wr by (simp_all add: s'_def driver_arm_def driver_step_def on_submit_def loop_end_def Let_def)
qed

lemma request_written:
  assumes q: "quiet bound n s" and bound: "0 < bound" and links: "links_ok tr s" and ids: "ids_ok s"
    and small: "n + 7 \<le> 18446744073709551615"
  obtains i s' m m' where "session_run memory_ops (queueing @ [Receive]) s = Some s'" "ls_calls s' = [Awaits i (ls_next s)]"
    "ls_results s' = ls_results s" "i = next_id s" "drv_transport (ls_driver s) = Tcp m" "drv_transport (ls_driver s') = Tcp m'" "mem_inbound m' = mem_inbound m"
    "mem_read_step m' = mem_read_step m"
    "drv_session (ls_driver s') = (drv_session (ls_driver s))\<lparr>
       ses_live := (ses_live (drv_session (ls_driver s)))\<lparr>live := i # live (ses_live (drv_session (ls_driver s)))\<rparr>,
       ses_completions := waiting_callers s @ [(i, ls_next s)]\<rparr>"
    "quiet bound (Suc n) (s'\<lparr>ls_calls := [], ls_shared := release_permit (ls_shared s')\<rparr>)"
proof -
  obtain m where m: "drv_transport (ls_driver s) = Tcp m" "\<not> mem_closed m" "mem_write_step m = 64"
    using q by (auto simp: quiet_def)
  obtain i a where a: "allocate (sh_allocator (ls_shared s)) = (i, a)" by (cases "allocate (sh_allocator (ls_shared s))")
  have n: "unat (alloc_next a) = n + 3" "i = next_id s"
    using allocate_forward(1,2) [OF a] ids q small by (simp_all add: ids_ok_def quiet_def)
  obtain bs where bs: "length bs = 20" and run: "session_run memory_ops queueing s = Some
    (s\<lparr>ls_next := Suc (ls_next s), ls_queue := [\<lparr>sub_id = i, sub_bytes = bs, sub_completion = ls_next s\<rparr>],
       ls_calls := [Awaits i (ls_next s)],
       ls_shared := (ls_shared s)\<lparr>sh_allocator := a, sh_admission := \<lparr>sem_permits = bound - 1, sem_closed = False\<rparr>\<rparr>\<rparr>)"
    (is "_ = Some ?s1") by (rule request_queued [OF q bound a])
  let ?sub = "\<lparr>sub_id = i, sub_bytes = bs, sub_completion = ls_next s\<rparr>"
  have "permits_ok s" using q by (simp add: quiet_def permits_ok_def permits_held_def)
  then have inv: "\<exists>tr. links_ok tr ?s1" "ids_ok ?s1"
    using run_invariants [OF run _ links] ids q small by (auto simp: quiet_def queueing_def)
  then obtain tr1 where links1: "links_ok tr1 ?s1" by blast
  have fresh: "i \<notin> fst ` set (waiting_callers s)" using inv(2) by (simp add: ids_ok_def unseen_ids_def waiting_ids_def)
  have ins: "registry_insert (ses_live (drv_session (ls_driver s))) i =
      Inr ((ses_live (drv_session (ls_driver s)))\<lparr>live := i # live (ses_live (drv_session (ls_driver s)))\<rparr>)"
    using head_fresh [OF links1 inv(2), of ?sub "[]"] by simp
  let ?s' = "driver_arm memory_ops (Ev_Submit ?sub) (?s1\<lparr>ls_queue := []\<rparr>)"
  have "ls_task s = Running" "\<not> drv_submit_closed (ls_driver s)" using q links by (simp_all add: quiet_def links_ok_def)
  note w = driver_arm_writes [of "?s1\<lparr>ls_queue := []\<rparr>" m ?sub, simplified, OF m(1,2) bs _ ins this(2)]
  have "session_run memory_ops (queueing @ [Receive]) s = Some ?s'"
    using run \<open>ls_task s = Running\<close> by (simp add: ses.run_append session_step_def driver_receives_def)
  moreover have "quiet bound (Suc n) (?s'\<lparr>ls_calls := [], ls_shared := release_permit (ls_shared ?s')\<rparr>)"
    using q m bound n w update_fresh [OF fresh] by (auto simp: quiet_def release_permit_def sem_release_def)
  ultimately show thesis using that [of ?s' i m] w m n(2) update_fresh [OF fresh] by simp
qed

lemma abandoned_rounds:
  assumes "quiet bound k s" "0 < bound" "links_ok tr s" "ids_ok s" "n + k + 7 \<le> 18446744073709551615"
  shows "\<exists>s'. session_run memory_ops (concat (replicate n abandoning)) s = Some s' \<and> quiet bound (n + k) s'"
  using assms
proof (induction n arbitrary: k s tr)
  case (Suc n)
  have small: "k + 7 \<le> 18446744073709551615" using Suc.prems(5) by simp
  obtain i s1 where s1: "session_run memory_ops (queueing @ [Receive]) s = Some s1" "ls_calls s1 = [Awaits i (ls_next s)]"
    and q: "quiet bound (Suc k) (s1\<lparr>ls_calls := [], ls_shared := release_permit (ls_shared s1)\<rparr>)" (is "quiet _ _ ?s2")
    by (rule request_written [OF Suc.prems(1-4) small]) blast
  have run: "session_run memory_ops abandoning s = Some ?s2"
    using ses.run_append [of memory_ops "queueing @ [Receive]" "[Cancel 0]" s] s1
    by (simp add: abandoning_def session_step_def call_cancelled_def remove_nth_def)
  have "permits_ok s" using Suc.prems(1) by (simp add: quiet_def permits_ok_def permits_held_def)
  then obtain tr2 where "links_ok tr2 ?s2" "ids_ok ?s2"
    using run_invariants [OF run _ Suc.prems(3)] Suc.prems(1,4,5) by (auto simp: quiet_def abandoning_def queueing_def)
  then show ?case using Suc.IH [OF q Suc.prems(2)] run Suc.prems(5) by (simp add: ses.run_append)
qed simp

text \<open>A close up to its wait for the driver.\<close>

definition closing_once :: "session_event list" where
  "closing_once = [Close, Close_Step 0, Close_Step 0, Close_Step 0, Close_Step 0, Close_Step 0]"

lemmas closing_defs = session_step_def close_starts_def close_check_def is_terminal_def close_advances_def begin_closing_def
  close_admission_def has_driver_def take_signal_def take_handle_def closing_once_def

lemma shutdown_ends: "ls_task (driver_arm tcp Ev_Shutdown s) \<noteq> Running"
  by (simp add: driver_arm_def driver_step_def on_shutdown_def Let_def split: prod.split sum.split)

text \<open>A session over the in-memory transport, and one request with its answer.\<close>

definition sample_start :: "nat \<Rightarrow> bytes \<Rightarrow> in_memory_transport live_session option" where
  "sample_start bound bs =
     session_of (start_session (Tcp (memory_new bs 64 64)) (config_default\<lparr>cfg_maximum_in_flight := bound\<rparr>) sample_negotiated)"

lemma sample_started:
  obtains s where "sample_start bound bs = Some s" "quiet bound 0 s" "links_ok [] s" "ids_ok s" "next_id s = 2" "permits_ok s"
    "ls_limits s = \<lparr>frame_size = 65536, metadata_size = 4096\<rparr>" "drv_session (ls_driver s) = session_new"
    "drv_transport (ls_driver s) = Tcp (memory_new bs 64 64)" "ls_results s = []" "ls_next s = 0"
proof -
  obtain s where s: "sample_start bound bs = Some s"
    by (simp add: sample_start_def session_of_def start_session_def Let_def)
  note st = session_of_start [OF s [unfolded sample_start_def]]
  have s': "ls_limits s = \<lparr>frame_size = 65536, metadata_size = 4096\<rparr>" "drv_session (ls_driver s) = session_new"
    "drv_transport (ls_driver s) = Tcp (memory_new bs 64 64)" "ls_results s = []" "ls_next s = 0"
    using s by (auto simp: sample_start_def session_of_def start_session_def Let_def driver_new_def config_default_def
        config_new_def sample_negotiated_def DEFAULT_LOCAL_MAXIMUM_FRAME_SIZE_def DEFAULT_LOCAL_MAXIMUM_METADATA_SIZE_def
        MINIMUM_NEGOTIATED_FRAME_SIZE_def MINIMUM_NEGOTIATED_METADATA_SIZE_def)
  have "next_id s = 2" using st(5) by (simp add: word_unat_eq_iff)
  moreover have "quiet bound 0 s"
    using s st(5) by (auto simp: sample_start_def session_of_def start_session_def Let_def quiet_def driver_new_def
        session_new_def memory_new_def)
  ultimately show thesis using that [OF s] st(1,2,4) s' by blast
qed

lemma sample_answer_drained:
  "drain_frames \<lparr>frame_size = 65536, metadata_size = 4096\<rparr> \<lparr>ses_buffer = sample_response, ses_completions = [(2, 0)],
     ses_live = \<lparr>live = [2]\<rparr>, ses_log = []\<rparr> =
   (None, \<lparr>ses_buffer = [], ses_completions = [], ses_live = \<lparr>live = []\<rparr>, ses_log = [(0, Inr sample_response)]\<rparr>)"
proof -
  have len: "length sample_response = 20" by (simp add: sample_response_def)
  have v: "verdict_of \<lparr>frame_size = 65536, metadata_size = 4096\<rparr> [] [] = Wait" by (simp add: verdict_of_def decode_short)
  have "verdict_of \<lparr>frame_size = 65536, metadata_size = 4096\<rparr> [2] sample_response = Deliver 2 (Inr sample_response) 20"
    by (simp add: verdict_of_def client_admission_def decode_eval sample_response_def frame_total_def)
  then show ?thesis
    by (subst drain_frames_eq, simp add: live_ids_def, subst drain_frames_eq)
       (simp add: resolve_def keep_def send_def retire_live_def forget_def registry_retire_def len v live_ids_def)
qed

lemma sample_in_flight:
  assumes "bs \<noteq> []" "length bs \<le> 64"
  obtains s s1 tr where "sample_start 1 bs = Some s" "session_run memory_ops (queueing @ [Receive]) s = Some s1"
    "ls_calls s1 = [Awaits 2 0]" "ls_results s1 = []" "ls_task s1 = Running" "\<not> drv_submit_closed (ls_driver s1)"
    "ls_limits s1 = \<lparr>frame_size = 65536, metadata_size = 4096\<rparr>"
    "read_chunk memory_ops (drv_transport (ls_driver s1)) = (Inr (Some bs), tr)"
    "drv_session (ls_driver s1) = \<lparr>ses_buffer = [], ses_completions = [(2, 0)], ses_live = \<lparr>live = [2]\<rparr>, ses_log = []\<rparr>"
proof -
  obtain s where s: "sample_start 1 bs = Some s" "quiet 1 0 s" "links_ok [] s" "ids_ok s" "next_id s = 2"
    "permits_ok s" "ls_limits s = \<lparr>frame_size = 65536, metadata_size = 4096\<rparr>" "drv_session (ls_driver s) = session_new"
    "drv_transport (ls_driver s) = Tcp (memory_new bs 64 64)" "ls_results s = []" "ls_next s = 0"
    by (rule sample_started)
  obtain i s1 m m' where w: "session_run memory_ops (queueing @ [Receive]) s = Some s1" "ls_calls s1 = [Awaits i (ls_next s)]"
    "ls_results s1 = ls_results s" "i = next_id s" "drv_transport (ls_driver s) = Tcp m" "drv_transport (ls_driver s1) = Tcp m'" "mem_inbound m' = mem_inbound m"
    "mem_read_step m' = mem_read_step m"
    "drv_session (ls_driver s1) = (drv_session (ls_driver s))\<lparr>
       ses_live := (ses_live (drv_session (ls_driver s)))\<lparr>live := i # live (ses_live (drv_session (ls_driver s)))\<rparr>,
       ses_completions := waiting_callers s @ [(i, ls_next s)]\<rparr>"
    "quiet 1 (Suc 0) (s1\<lparr>ls_calls := [], ls_shared := release_permit (ls_shared s1)\<rparr>)"
    by (rule request_written [OF s(2) _ s(3,4)]) simp_all
  have m': "\<not> mem_closed m'" "mem_inbound m' = bs" "mem_read_step m' = 64"
    using w(5-8,10) s(9) by (auto simp: quiet_def memory_new_def)
  have rd: "read_chunk memory_ops (Tcp m') = (Inr (Some bs), Tcp (m'\<lparr>mem_inbound := []\<rparr>))"
    using read_chunk_tcp [OF m'(1) refl] m'(2,3) assms by (simp add: READ_CHUNK_def)
  have open_submit: "\<not> drv_submit_closed (ls_driver s1)"
    using run_invariants [OF w(1) s(6,3)] by (auto simp: links_ok_def)
  have ses: "drv_session (ls_driver s1) = \<lparr>ses_buffer = [], ses_completions = [(2, 0)], ses_live = \<lparr>live = [2]\<rparr>, ses_log = []\<rparr>"
    using w(4,9) s(5,8,11) by (simp add: session_new_def registry_new_def)
  show thesis
    by (rule that [OF s(1) w(1)])
       (use w s ses rd open_submit fixed_run [OF w(1)] in \<open>simp_all add: quiet_def\<close>)
qed

lemma sample_written:
  obtains s s1 tr where "sample_start 1 sample_response = Some s" "session_run memory_ops (queueing @ [Receive]) s = Some s1"
    "ls_calls s1 = [Awaits 2 0]" "ls_results s1 = []" "ls_task s1 = Running" "\<not> drv_submit_closed (ls_driver s1)"
    "ls_limits s1 = \<lparr>frame_size = 65536, metadata_size = 4096\<rparr>"
    "read_chunk memory_ops (drv_transport (ls_driver s1)) = (Inr (Some sample_response), tr)"
    "drv_session (ls_driver s1) = \<lparr>ses_buffer = [], ses_completions = [(2, 0)], ses_live = \<lparr>live = [2]\<rparr>, ses_log = []\<rparr>"
  by (rule sample_in_flight [of sample_response]) (simp_all add: sample_response_def)

lemma sample_answered:
  obtains s s' where "sample_start 1 sample_response = Some s"
    "session_run memory_ops (queueing @ [Receive, Read, Complete 0]) s = Some s'"
    "ls_results s' = [(0, Inr (2, sample_response))]"
proof -
  obtain s s1 tr where s: "sample_start 1 sample_response = Some s" "session_run memory_ops (queueing @ [Receive]) s = Some s1"
    "ls_calls s1 = [Awaits 2 0]" "ls_results s1 = []" "ls_task s1 = Running" "\<not> drv_submit_closed (ls_driver s1)"
    "ls_limits s1 = \<lparr>frame_size = 65536, metadata_size = 4096\<rparr>"
    "read_chunk memory_ops (drv_transport (ls_driver s1)) = (Inr (Some sample_response), tr)"
    "drv_session (ls_driver s1) = \<lparr>ses_buffer = [], ses_completions = [(2, 0)], ses_live = \<lparr>live = [2]\<rparr>, ses_log = []\<rparr>"
    by (rule sample_written)
  let ?s2 = "driver_arm memory_ops Ev_Read s1"
  have s2: "ls_task ?s2 = Running" "ses_log (drv_session (ls_driver ?s2)) = [(0, Inr sample_response)]"
    using s(6-9) sample_answer_drained
    by (simp_all add: driver_arm_def driver_step_def on_read_def loop_end_def Let_def)
  have "session_run memory_ops (queueing @ [Receive, Read, Complete 0]) s = Some (call_returns 0 (Inr (2, sample_response)) ?s2)"
    using ses.run_append [of memory_ops "queueing @ [Receive]" "[Read, Complete 0]" s] s(2,3,5) s2
    by (simp add: session_step_def driver_reads_def call_completed_def)
  then show thesis using that [OF s(1)] s(3,4) by (simp add: call_returns_def Let_def)
qed

section \<open>Properties of the runs of a session\<close>

text \<open>
  C1: a call returns the answer to its own request.  Whatever calls, closes, abandoned calls and arms
  of the driver are interleaved, and whatever the peer and the transport do, what a call returns with
  the identifier it allocated decodes, within the limits of the session, to a frame answering that
  identifier.
\<close>

theorem session_answers_own:
  assumes "session_of (start_session tr config n) = Some s" "session_run tcp evs s = Some s'"
    and "(c, Inr (i, fb)) \<in> set (ls_results s')"
  shows "answers \<lparr>frame_size = min (neg_maximum_frame_size n) (cfg_local_maximum_frame_size config),
    metadata_size = min (neg_maximum_metadata_size n) (cfg_local_maximum_metadata_size config)\<rparr> i (Inr fb)"
proof -
  note st = session_of_start [OF assms(1)]
  obtain tr' where "links_ok tr' s'" using run_invariants [OF assms(2) st(1,2)] by blast
  then have "own_answer (ls_limits s') (c, Inr (i, fb))"
    using assms(3) unfolding links_ok_def list_all_iff by blast
  then show ?thesis using fixed_run [OF assms(2)] st(7) by (simp add: own_answer_def)
qed

theorem session_answers_own_witness:
  "\<exists>s s'. sample_start 1 sample_response = Some s \<and>
     session_run memory_ops (queueing @ [Receive, Read, Complete 0]) s = Some s' \<and>
     ls_results s' = [(0, Inr (2, sample_response))] \<and>
     answers \<lparr>frame_size = 65536, metadata_size = 4096\<rparr> 2 (Inr sample_response)"
proof -
  obtain s s' where s: "sample_start 1 sample_response = Some s"
    "session_run memory_ops (queueing @ [Receive, Read, Complete 0]) s = Some s'"
    "ls_results s' = [(0, Inr (2, sample_response))]" by (rule sample_answered)
  then show ?thesis
    using session_answers_own [OF s(1) [unfolded sample_start_def] s(2), of 0 2 sample_response]
    by (simp add: config_default_def config_new_def sample_negotiated_def DEFAULT_LOCAL_MAXIMUM_FRAME_SIZE_def
        DEFAULT_LOCAL_MAXIMUM_METADATA_SIZE_def MINIMUM_NEGOTIATED_FRAME_SIZE_def MINIMUM_NEGOTIATED_METADATA_SIZE_def)
qed

text \<open>
  C9: admission is bounded.  In every reachable state the permits left and the calls that hold one
  add up to the bound of the configuration; and as long as no caller drops its call before it
  returned and the driver runs, the requests in flight and those in the channel to the driver are
  together no more than the bound.
\<close>

theorem session_bounded:
  assumes "session_of (start_session tr config n) = Some s" "session_run tcp evs s = Some s'"
  shows "sem_permits (sh_admission (ls_shared s')) + length (filter holds_permit (ls_calls s')) = cfg_maximum_in_flight config \<and>
    (never_cancels evs \<longrightarrow> ls_task s' = Running \<longrightarrow>
     length (ls_queue s') + registry_len (ses_live (drv_session (ls_driver s'))) \<le> cfg_maximum_in_flight config)"
proof -
  note st = session_of_start [OF assms(1)]
  note inv = run_invariants [OF assms(2) st(1,2)]
  have b: "sh_maximum_in_flight (ls_shared s') = cfg_maximum_in_flight config" using fixed_run [OF assms(2)] st(6) by simp
  have "permits_held s' = length (filter holds_permit (ls_calls s'))" by (simp add: permits_held_def flip: mset_filter)
  then show ?thesis using inv st(3) b flight_bounded [of _ s'] by (auto simp: permits_ok_def)
qed

theorem session_bounded_witness:
  "\<exists>s s'. sample_start 1 [] = Some s \<and> session_run memory_ops (queueing @ [Receive]) s = Some s' \<and> ls_task s' = Running \<and>
     sem_permits (sh_admission (ls_shared s')) + length (filter holds_permit (ls_calls s')) = 1 \<and>
     length (ls_queue s') + registry_len (ses_live (drv_session (ls_driver s'))) \<le> 1"
proof -
  obtain s where s: "sample_start 1 [] = Some s" "quiet 1 0 s" "links_ok [] s" "ids_ok s" by (rule sample_started)
  obtain s1 where w: "session_run memory_ops (queueing @ [Receive]) s = Some s1"
    "quiet 1 (Suc 0) (s1\<lparr>ls_calls := [], ls_shared := release_permit (ls_shared s1)\<rparr>)"
    by (rule request_written [OF s(2) _ s(3,4)]) simp_all
  have "ls_task s1 = Running" using w(2) by (simp add: quiet_def)
  then show ?thesis
    using session_bounded [OF s(1) [unfolded sample_start_def] w(1)] s(1) w(1)
    by (auto simp: never_cancels_def queueing_def)
qed

text \<open>
  C13: the driver refuses no submission.  In the first 2^64 - 3 steps of a session the identifier of
  the submission the driver would receive next is neither reserved nor in flight, so the arm that
  ends the session because of a reused identifier is not taken.
\<close>

theorem submission_never_refused:
  assumes "session_of (start_session tr config n) = Some s" "session_run tcp evs s = Some s'"
    and "length evs \<le> 18446744073709551613" "ls_queue s' = sub # rest"
  shows "is_ok (registry_insert (ses_live (drv_session (ls_driver s'))) (sub_id sub))"
proof -
  note st = session_of_start [OF assms(1)]
  obtain tr' where "links_ok tr' s'" "ids_ok s'" using run_invariants [OF assms(2) st(1,2)] st(4,5) assms(3) by auto
  then show ?thesis using head_fresh [of tr' s'] assms(4) by simp
qed

theorem submission_never_refused_witness:
  "\<exists>s s' sub. sample_start 1 [] = Some s \<and> session_run memory_ops queueing s = Some s' \<and> ls_queue s' = [sub] \<and>
     is_ok (registry_insert (ses_live (drv_session (ls_driver s'))) (sub_id sub))"
proof -
  obtain s where s: "sample_start 1 [] = Some s" "quiet 1 0 s" by (rule sample_started)
  obtain i a where a: "allocate (sh_allocator (ls_shared s)) = (i, a)" by (cases "allocate (sh_allocator (ls_shared s))")
  obtain s' sub where s': "session_run memory_ops queueing s = Some s'" "ls_queue s' = [sub]"
    by (rule request_queued [OF s(2) _ a]) auto
  then show ?thesis
    using s(1) submission_never_refused [OF s(1) [unfolded sample_start_def] s'(1) _ s'(2)] by (auto simp: queueing_def)
qed

text \<open>
  C10: no call waits for a session that has ended.  Once the driver has ended or was aborted, every
  call still in progress, wherever it waits, returns with its next step.
\<close>

theorem ended_session_returns_calls:
  assumes "session_of (start_session tr config n) = Some s" "session_run tcp evs s = Some s'"
    and "ls_task s' \<noteq> Running" "k < length (ls_calls s')"
  shows "\<exists>ev s''. session_step tcp ev s' = Some s'' \<and> ls_calls s'' = remove_nth k (ls_calls s') \<and>
    (\<exists>r. ls_results s'' = ls_results s' @ [(call_channel (ls_calls s' ! k), r)])"
proof -
  note st = session_of_start [OF assms(1)]
  have "ls_task s = Running" using assms(1) by (auto simp: session_of_def split: option.splits)
  then have "ended_ok s" by (simp add: ended_ok_def)
  then have "ended_ok s'" by (rule ended_run [OF assms(2) _ st(2)])
  then show ?thesis using assms(3,4) by (rule ended_returns)
qed

theorem ended_session_returns_calls_witness:
  "\<exists>s s' ev s''. sample_start 1 [] = Some s \<and>
     session_run memory_ops (queueing @ [Receive] @ closing_once @ [Stop]) s = Some s' \<and>
     ls_task s' \<noteq> Running \<and> length (ls_calls s') = 1 \<and> session_step memory_ops ev s' = Some s'' \<and> ls_calls s'' = []"
proof -
  obtain s where s: "sample_start 1 [] = Some s" "quiet 1 0 s" "links_ok [] s" "ids_ok s" by (rule sample_started)
  obtain i s1 where w: "session_run memory_ops (queueing @ [Receive]) s = Some s1" "ls_calls s1 = [Awaits i (ls_next s)]"
    "quiet 1 (Suc 0) (s1\<lparr>ls_calls := [], ls_shared := release_permit (ls_shared s1)\<rparr>)"
    by (rule request_written [OF s(2) _ s(3,4)]) simp_all
  obtain s2 where s2: "session_run memory_ops (closing_once @ [Stop]) s1 = Some s2"
    "ls_task s2 \<noteq> Running" "ls_calls s2 = ls_calls s1"
    using w(3) shutdown_ends [of memory_ops]
    by (auto simp: quiet_def release_permit_def driver_stops_def closing_defs)
  have r: "session_run memory_ops (queueing @ [Receive] @ closing_once @ [Stop]) s = Some s2"
    using ses.run_append [of memory_ops "queueing @ [Receive]" "closing_once @ [Stop]" s] w(1) s2(1)
    by simp
  from ended_session_returns_calls [OF s(1) [unfolded sample_start_def] r s2(2), of 0] s(1) r s2(2,3) w(2) show ?thesis
    by (auto simp: remove_nth_def)
qed

text \<open>
  C34: abandoned calls are not bounded.  Whatever the configured bound, a session reaches states with
  any number of requests in flight: a caller that drops its call once the driver has written the
  request gives its permit back, while the request stays in flight until the peer answers it.
\<close>

theorem abandoned_calls_unbounded:
  assumes "0 < bound" "n \<le> 18446744073709551608"
  shows "\<exists>s s'. sample_start bound [] = Some s \<and>
    session_run memory_ops (concat (replicate n abandoning)) s = Some s' \<and>
    ls_task s' = Running \<and> sh_maximum_in_flight (ls_shared s') = bound \<and>
    registry_len (ses_live (drv_session (ls_driver s'))) = n"
proof -
  obtain s where s: "sample_start bound [] = Some s" "quiet bound 0 s" "links_ok [] s" "ids_ok s" "permits_ok s"
    by (rule sample_started)
  obtain s' where s': "session_run memory_ops (concat (replicate n abandoning)) s = Some s'" "quiet bound n s'"
    using abandoned_rounds [OF s(2) assms(1) s(3,4), of n] assms(2) by auto
  obtain tr where "links_ok tr s'" using run_invariants [OF s'(1) s(5,3)] by blast
  then show ?thesis using s(1) s' live_waiting [of tr s'] by (auto simp: quiet_def)
qed

theorem abandoned_calls_unbounded_witness:
  "\<exists>s s'. sample_start 1 [] = Some s \<and> session_run memory_ops (concat (replicate 5 abandoning)) s = Some s' \<and>
     ls_task s' = Running \<and> sh_maximum_in_flight (ls_shared s') = 1 \<and>
     registry_len (ses_live (drv_session (ls_driver s'))) = 5"
  using abandoned_calls_unbounded [of 1 5] by simp

text \<open>Two handles close the session, the second while the first waits for the driver.\<close>

definition closing_twice :: "session_event list" where
  "closing_twice = closing_once @ [Close, Close_Step 1, Close_Step 1, Close_Step 1]"

text \<open>
  C35: a second close does not wait.  While a first close waits for the driver to shut the transport
  down, a close through another handle finds no driver to wait for, records the session as closed and
  returns success, although the driver still runs: its transport is open and its callers still wait.
\<close>

theorem second_close_returns_early:
  assumes "sh_state (ls_shared s) = Usable" "sh_driver (ls_shared s)" "sh_transport (ls_shared s) = None"
    and "ls_handles s" "ls_closers s = []" "ls_task s = Running"
  shows "\<exists>s'. session_run tcp closing_twice s = Some s' \<and> ls_closed s' = ls_closed s @ [Inr ()] \<and>
    ls_closers s' = [Joining] \<and> sh_state (ls_shared s') = Closed \<and> ls_task s' = Running \<and> ls_driver s' = ls_driver s"
  using assms
  by (simp add: closing_twice_def closing_defs close_without_driver_def close_returns_def remove_nth_def)

theorem second_close_returns_early_witness:
  "\<exists>s s'. sample_start 1 [] = Some s \<and> session_run memory_ops (queueing @ [Receive] @ closing_twice) s = Some s' \<and>
     ls_closed s' = [Inr ()] \<and> sh_state (ls_shared s') = Closed \<and> ls_task s' = Running \<and>
     registry_len (ses_live (drv_session (ls_driver s'))) = 1"
proof -
  obtain s where s: "sample_start 1 [] = Some s" "quiet 1 0 s" "links_ok [] s" "ids_ok s" "permits_ok s" by (rule sample_started)
  obtain s1 where w: "session_run memory_ops (queueing @ [Receive]) s = Some s1"
    "quiet 1 (Suc 0) (s1\<lparr>ls_calls := [], ls_shared := release_permit (ls_shared s1)\<rparr>)"
    by (rule request_written [OF s(2) _ s(3,4)]) simp_all
  obtain tr where "links_ok tr s1" using run_invariants [OF w(1) s(5,3)] by blast
  then have n: "registry_len (ses_live (drv_session (ls_driver s1))) = 1" using live_waiting [of tr s1] w(2) by (simp add: quiet_def)
  obtain s' where "session_run memory_ops closing_twice s1 = Some s'" "ls_closed s' = ls_closed s1 @ [Inr ()]"
      "sh_state (ls_shared s') = Closed" "ls_task s' = Running" "ls_driver s' = ls_driver s1"
    using second_close_returns_early [of s1 memory_ops] w(2) by (auto simp: quiet_def release_permit_def)
  then show ?thesis
    using s(1) w n ses.run_append [of memory_ops "queueing @ [Receive]" closing_twice s] by (auto simp: quiet_def)
qed

end
