(* ===== verification/Sessions_Calls.thy ===== *)
theory Sessions_Calls
  imports Sessions_Runs
begin

text \<open>
  The calls of a session against the call on its own.  \<open>execute\<close> of theory \<open>Connection\<close> runs one call
  with everything it awaits as an argument; here every result a call of a session returns is a
  result of \<open>execute\<close> for the arguments the call was started with, so what is proved of \<open>execute\<close> and
  of the commands for all environments holds in every interleaving.
\<close>

section \<open>One call on its own\<close>



section \<open>Where the calls of a session come from\<close>

text \<open>The calls started so far, in the order of their channels.\<close>

definition started :: "session_event list \<Rightarrow> (u16 \<times> bytes) list" where
  "started evs = concat (map (\<lambda>ev. case ev of Start opcode payload \<Rightarrow> [(opcode, payload)] | _ \<Rightarrow> []) evs)"





lemma started_snoc [simp]:
  "started [] = []"
  "started (evs @ [ev]) = started evs @ (case ev of Start opcode payload \<Rightarrow> [(opcode, payload)] | _ \<Rightarrow> [])"
  by (simp_all add: started_def)

section \<open>Every step keeps the origins\<close>

definition usable_copy :: "'t shared \<Rightarrow> 't shared" where
  "usable_copy sh = sh\<lparr>sh_state := Usable\<rparr>"

lemma usable_copy_simps [simp]: "sh_state (usable_copy sh) = Usable" "sh_negotiated (usable_copy sh) = sh_negotiated sh"
  "sh_submit_tx (usable_copy sh) = sh_submit_tx sh" "sh_allocator (usable_copy sh) = sh_allocator sh" "fst (allocate_id (usable_copy sh)) = fst (allocate_id sh)"
  by (simp_all add: usable_copy_def allocate_id_def split: prod.split)

definition waiting_for :: "bool \<Rightarrow> bool \<Rightarrow> outcome option \<Rightarrow> connection_state \<Rightarrow> waits" where
  "waiting_for permit sent answer st = \<lparr>wait_permit = permit, wait_permit_state = st, wait_send = sent, wait_send_state = st,
     wait_completion = answer, wait_completion_state = st\<rparr>"

lemma waiting_for_simps [simp]:
  "wait_permit (waiting_for permit sent answer st) = permit" "wait_permit_state (waiting_for permit sent answer st) = st"
  "wait_send (waiting_for permit sent answer st) = sent" "wait_send_state (waiting_for permit sent answer st) = st"
  "wait_completion (waiting_for permit sent answer st) = answer" "wait_completion_state (waiting_for permit sent answer st) = st"
  by (simp_all add: waiting_for_def)

















end
