(* ===== verification/Driver_Delivery.thy ===== *)
theory Driver_Delivery
  imports Driver_Trace
begin

text \<open>
  That answers reach their callers: whatever the order in which a peer answers the requests in
  flight, the dispatch loop resolves each caller with the frame that answers it.
\<close>

text \<open>An outgoing frame is one a client takes as the answer to the request it names.\<close>

definition answer_for :: "limits \<Rightarrow> outgoing \<Rightarrow> bytes \<Rightarrow> bool" where
  "answer_for lim o' fb \<longleftrightarrow>
     encode_with_max o' (frame_size lim) (metadata_size lim) = Inr fb \<and>
     acceptable (client_admission lim [out_request_id o']) o'"

lemma acceptable_in_flight:
  assumes "acceptable (client_admission lim [out_request_id o']) o'" "out_request_id o' \<in> set ids"
  shows "acceptable (client_admission lim ids) o'"
proof -
  have "correlate k c i ids = correlate k c i [i]" if "i \<in> set ids" for k c i
  proof -
    have "List.member ids i = List.member [i] i" using that by simp
    then show ?thesis by (simp only: correlate_def)
  qed
  then show ?thesis using assms by (simp add: acceptable_def client_admission_def)
qed

lemma answer_verdict:
  assumes "answer_for lim o' fb" "out_request_id o' \<in> set ids"
  shows "verdict_of lim ids (fb @ later) = Deliver (out_request_id o') (Inr fb) (length fb)"
proof -
  from assms obtain f where f: "decode (fb @ later) (client_admission lim ids) = Frame f"
    "outgoing_of f = o'" "frame_total f = length fb"
    using decode_encoded [of o' "frame_size lim" "metadata_size lim" fb "client_admission lim ids" later]
      acceptable_in_flight by (auto simp: answer_for_def client_admission_def)
  then have "request_id_value (hdr_request_id (frm_header f)) = out_request_id o'" by (auto simp: outgoing_of_def)
  then show ?thesis using f by (simp add: verdict_of_def)
qed

lemma dispatch_replies:
  assumes "session_inv s" "ses_buffer s = concat (map snd replies)"
    and "list_all (\<lambda>(o', fb). answer_for lim o' fb \<and> out_request_id o' \<in> fst ` set (ses_completions s)) replies"
    and "distinct (map (\<lambda>(o', fb). out_request_id o') replies)"
  shows "\<exists>s'. drain_frames lim s = (None, s') \<and> session_inv s' \<and> ses_buffer s' = [] \<and>
    ses_log s' = ses_log s @
      map (\<lambda>(o', fb). (the (map_of (ses_completions s) (out_request_id o')), Inr fb)) replies \<and>
    ses_completions s' =
      filter (\<lambda>(i, c). i \<notin> set (map (\<lambda>(o', fb). out_request_id o') replies)) (ses_completions s)"
  using assms
proof (induction replies arbitrary: s)
  case Nil
  have "drain_frames lim s = (None, s)"
    using Nil by (subst drain_frames_eq) (simp add: verdict_of_def decode_short)
  then show ?case using Nil by (simp add: case_prod_unfold)
next
  case (Cons reply replies)
  obtain o' fb where reply: "reply = (o', fb)" by (cases reply)
  let ?i = "out_request_id o'"
  obtain c where c: "map_of (ses_completions s) ?i = Some c"
    using Cons.prems(3) reply by (auto dest!: weak_map_of_SomeI)
  have "?i \<in> set (live_ids (ses_live s))" using Cons.prems(1,3) reply by (auto simp: session_inv_def)
  then have "verdict_of lim (live_ids (ses_live s)) (ses_buffer s) = Deliver ?i (Inr fb) (length fb)"
    using answer_verdict Cons.prems(2,3) reply by simp
  moreover define s1 where "s1 = resolve ?i c (Inr fb) (keep (concat (map snd replies)) s)"
  ultimately have d: "drain_frames lim s = drain_frames lim s1"
    using Cons.prems(2) reply c by (subst drain_frames_eq) (simp add: s1_def)
  have comps: "ses_completions s1 = filter (\<lambda>(i, c). i \<noteq> ?i) (ses_completions s)"
    by (simp add: s1_def session_simps AList.delete_eq case_prod_unfold eq_commute)
  have other: "map_of (ses_completions s1) j = map_of (ses_completions s) j" if "j \<noteq> ?i" for j
    using that by (simp add: s1_def session_simps delete_conv)
  have "session_inv s1" using Cons.prems(1) c by (simp add: s1_def session_inv_resolve session_simps)
  moreover have "ses_buffer s1 = concat (map snd replies)" by (simp add: s1_def session_simps)
  moreover have "list_all (\<lambda>(o', fb). answer_for lim o' fb \<and> out_request_id o' \<in> fst ` set (ses_completions s1)) replies"
    using Cons.prems(3,4) reply unfolding comps list_all_iff by force
  ultimately obtain s' where s': "drain_frames lim s1 = (None, s')" "session_inv s'" "ses_buffer s' = []"
    "ses_log s' = ses_log s1 @
      map (\<lambda>(o', fb). (the (map_of (ses_completions s1) (out_request_id o')), Inr fb)) replies"
    "ses_completions s' =
      filter (\<lambda>(i, c). i \<notin> set (map (\<lambda>(o', fb). out_request_id o') replies)) (ses_completions s1)"
    using Cons.IH [of s1] Cons.prems(4) by auto
  have "map (\<lambda>(o', fb). (the (map_of (ses_completions s1) (out_request_id o')), Inr fb :: outcome)) replies =
      map (\<lambda>(o', fb). (the (map_of (ses_completions s) (out_request_id o')), Inr fb)) replies"
  proof (intro map_cong refl)
    fix r
    assume "r \<in> set replies"
    then have "out_request_id (fst r) \<noteq> ?i" using Cons.prems(4) reply by (force simp: case_prod_unfold)
    then show "(case r of (o', fb) \<Rightarrow> (the (map_of (ses_completions s1) (out_request_id o')), Inr fb :: outcome)) =
        (case r of (o', fb) \<Rightarrow> (the (map_of (ses_completions s) (out_request_id o')), Inr fb))"
      using other by (simp add: case_prod_unfold)
  qed
  then show ?case
    using d s' reply c comps by (simp add: s1_def session_simps case_prod_unfold conj_commute)
qed

text \<open>
  C16: answers reach their callers.  When the buffered stream is a sequence of answers to distinct
  requests in flight, in any order, dispatching it resolves exactly those callers, each with the
  frame that answers it, leaves every other caller waiting and every other identifier live, and keeps
  the session going.
\<close>

theorem responses_delivered:
  assumes "session_inv s" "ses_buffer s = concat (map snd replies)"
    and "list_all (\<lambda>(o', fb). answer_for lim o' fb \<and> out_request_id o' \<in> fst ` set (ses_completions s)) replies"
    and "distinct (map (\<lambda>(o', fb). out_request_id o') replies)"
  shows "\<exists>s'. drain_frames lim s = (None, s') \<and> session_inv s' \<and> ses_buffer s' = [] \<and>
    ses_log s' = ses_log s @
      map (\<lambda>(o', fb). (the (map_of (ses_completions s) (out_request_id o')), Inr fb)) replies \<and>
    ses_completions s' =
      filter (\<lambda>(i, c). i \<notin> set (map (\<lambda>(o', fb). out_request_id o') replies)) (ses_completions s)"
  using assms by (rule dispatch_replies)

text \<open>Two callers wait for requests 2 and 3; the answer to 3 arrives first.\<close>

definition sample_reply :: "u64 \<Rightarrow> outgoing" where
  "sample_reply i = \<lparr>out_kind = Kind_Response, out_code = 0, out_request_id = i, out_metadata = [], out_payload = OutOpaque []\<rparr>"

definition sample_reply_bytes :: "u64 \<Rightarrow> bytes" where
  "sample_reply_bytes i = [0, 2, 0, 0, 0, 0, 0, 0, 0, 0, 0, 0] @ to_le_bytes i"

definition sample_waiting :: session where
  "sample_waiting =
     \<lparr>ses_buffer = sample_reply_bytes 3 @ sample_reply_bytes 2, ses_completions = [(2, 7), (3, 8)],
      ses_live = \<lparr>live = [3, 2]\<rparr>, ses_log = []\<rparr>"

lemma sample_waiting_inv: "session_inv sample_waiting"
  by (auto simp: sample_waiting_def session_inv_def registry_inv_def live_ids_def)

lemma sample_reply_answer: "i \<noteq> 0 \<Longrightarrow> answer_for PRE_NEGOTIATION (sample_reply i) (sample_reply_bytes i)"
  by (simp add: answer_for_def encode_with_max_ok encode_payload_def u16_try_from_def sample_reply_def
      sample_reply_bytes_def header_bytes_def to_le_bytes_def PRE_NEGOTIATION_def MAX_FRAME_SIZE_def MAX_METADATA_SIZE_def
      acceptable_def client_admission_def check_connection_state_def correlate_def result_code_from_wire_def)

theorem responses_delivered_witness:
  "\<exists>s'. drain_frames PRE_NEGOTIATION sample_waiting = (None, s') \<and>
     ses_log s' = [(8, Inr (sample_reply_bytes 3)), (7, Inr (sample_reply_bytes 2))] \<and> ses_completions s' = []"
  using responses_delivered [OF sample_waiting_inv, of "[(sample_reply 3, sample_reply_bytes 3), (sample_reply 2, sample_reply_bytes 2)]"
      PRE_NEGOTIATION] sample_reply_answer [of 3] sample_reply_answer [of 2]
  by (auto simp: sample_waiting_def sample_reply_def)

end
