(* ===== verification/Sessions_Shutdown.thy ===== *)
theory Sessions_Shutdown
  imports Sessions_Calls Driver_Delivery
begin

text \<open>
  How a session ends and what it delivers before: the driver is told to stop before its handle is
  taken, so it never outlives the handles of its session; a session stays well formed under every
  operation; and an answer that arrives for a waiting call is what the call returns.
\<close>

section \<open>Stopping the driver\<close>

text \<open>
  The shutdown sender is there until the signal is sent, whoever took the driver's handle sent the
  signal before, and once the handles are gone the driver has the signal or does not run.
\<close>

definition signal_ok :: "'t live_session \<Rightarrow> bool" where
  "signal_ok s \<longleftrightarrow>
     (sh_shutdown_tx (ls_shared s) \<or> ls_signal s) \<and>
     (Taking \<in> set (ls_closers s) \<or> Joining \<in> set (ls_closers s) \<longrightarrow> ls_signal s) \<and>
     (sh_driver (ls_shared s) \<and> ls_handles s \<or> ls_signal s \<or> ls_task s \<noteq> Running)"

lemma signal_same:
  assumes "signal_ok s" "sh_shutdown_tx (ls_shared s') = sh_shutdown_tx (ls_shared s)" "ls_signal s' = ls_signal s"
    and "ls_closers s' = ls_closers s" "sh_driver (ls_shared s') = sh_driver (ls_shared s)" "ls_handles s' = ls_handles s"
    and "ls_task s \<noteq> Running \<Longrightarrow> ls_task s' \<noteq> Running"
  shows "signal_ok s'"
  using assms by (auto simp: signal_ok_def)

lemma signal_returned [simp]:
  "ls_closers (call_returns k r s) = ls_closers s" "ls_signal (call_returns k r s) = ls_signal s"
  "sh_shutdown_tx (ls_shared (call_returns k r s)) = sh_shutdown_tx (ls_shared s)"
  "sh_driver (ls_shared (call_returns k r s)) = sh_driver (ls_shared s)"
  by (simp_all add: call_returns_def release_permit_def Let_def)

lemma signal_arm [simp]:
  "ls_closers (driver_arm tcp ev s) = ls_closers s" "ls_signal (driver_arm tcp ev s) = ls_signal s"
  "ls_handles (driver_arm tcp ev s) = ls_handles s"
  "sh_shutdown_tx (ls_shared (driver_arm tcp ev s)) = sh_shutdown_tx (ls_shared s)"
  "sh_driver (ls_shared (driver_arm tcp ev s)) = sh_driver (ls_shared s)"
  by (simp_all add: driver_arm_def Let_def split: prod.split)

lemma signal_moved:
  assumes "signal_ok s" "set (ls_closers s') \<subseteq> insert c (set (ls_closers s))" "ls_signal s \<Longrightarrow> ls_signal s'"
    and "c = Taking \<or> c = Joining \<Longrightarrow> ls_signal s'" "sh_shutdown_tx (ls_shared s') = sh_shutdown_tx (ls_shared s) \<or> ls_signal s'"
    and "sh_driver (ls_shared s') = sh_driver (ls_shared s) \<or> ls_signal s'" "ls_handles s' = ls_handles s" "ls_task s' = ls_task s"
  shows "signal_ok s'"
proof -
  have "ls_signal s'" if "Taking \<in> set (ls_closers s') \<or> Joining \<in> set (ls_closers s')"
    using that assms(1-4) unfolding signal_ok_def by blast
  then show ?thesis using assms(1,3,5-8) unfolding signal_ok_def by metis
qed

lemma close_returns_signal:
  assumes "signal_ok s" "sh_shutdown_tx (snd r) = sh_shutdown_tx (ls_shared s)" "sh_driver (snd r) = sh_driver (ls_shared s) \<or> ls_signal s"
  shows "signal_ok (close_returns k r s)"
  by (rule signal_moved [OF assms(1), of _ Checked])
     (use assms(2,3) set_remove_nth [of k "ls_closers s"] in \<open>auto simp: close_returns_def\<close>)

lemma signal_closing:
  assumes ok: "signal_ok s" and st: "close_advances tcp k s = Some s'"
  shows "signal_ok s'"
proof -
  have k: "k < length (ls_closers s)" using st by (simp add: close_advances_def split: if_splits)
  have "ls_closers s ! k \<in> set (ls_closers s)" using k by simp
  then have sig: "ls_closers s ! k = Taking \<Longrightarrow> ls_signal s" using ok by (auto simp: signal_ok_def)
  note upd = set_update_subset_insert [of "ls_closers s" k]
  have tx: "\<not> sh_shutdown_tx (ls_shared s) \<Longrightarrow> ls_signal s" using ok by (simp add: signal_ok_def)
  show ?thesis
  proof (cases "ls_closers s ! k")
    case Begun
    show ?thesis
    proof (cases "has_driver (ls_shared s)")
      case True
      then show ?thesis
        using st k Begun upd [of Signalling] by (intro signal_moved [OF ok, of _ Signalling]) (auto simp: close_advances_def)
    next
      case False
      then show ?thesis
        using st k Begun close_returns_signal [OF ok, of "close_without_driver tcp (ls_shared s)" k]
        by (auto simp: close_advances_def close_without_driver_def split: option.splits sum.splits)
    qed
  next
    case Taking
    then show ?thesis
      using st k sig upd [of Joining] close_returns_signal [OF ok, of "(Inr (), snd (take_handle (ls_shared s)))" k]
      by (cases "sh_driver (ls_shared s)")
         (auto simp: close_advances_def take_handle_def intro!: signal_moved [OF ok, of _ Joining])
  next
    case Joining
    then obtain r where "s' = close_returns k (close_join r (ls_shared s)) s"
      using st k by (auto simp: close_advances_def split: task.splits)
    then show ?thesis
      using close_returns_signal [OF ok, of "close_join r (ls_shared s)" k]
      by (auto simp: close_join_def split: sum.splits driver_exit.splits)
  next
    case Checked
    then show ?thesis
      using st k upd [of Marked] by (intro signal_moved [OF ok, of _ Marked]) (auto simp: close_advances_def)
  next
    case Marked
    then show ?thesis
      using st k upd [of Begun]
      by (intro signal_moved [OF ok, of _ Begun]) (auto simp: close_advances_def close_admission_def)
  next
    case Signalling
    then show ?thesis
      using st k tx upd [of Taking]
      by (intro signal_moved [OF ok, of _ Taking]) (auto simp: close_advances_def take_signal_def)
  qed
qed

lemma signal_step:
  assumes ok: "signal_ok s" and st: "session_step tcp ev s = Some s'"
  shows "signal_ok s'"
proof (cases ev)
  case (Start opcode payload)
  then have s': "s' = call_starts opcode payload s" using st by (simp add: session_step_def split: if_splits)
  show ?thesis
    by (cases rule: call_starts_cases [of opcode payload s]; rule signal_same [OF ok]) (simp_all add: s')
next
  case (Admit k)
  then have "call_admitted k s = Some s'" using st by (simp add: session_step_def)
  then show ?thesis
  proof (cases rule: call_admitted_cases)
    case (returned e sh)
    then have "sh_shutdown_tx sh = sh_shutdown_tx (ls_shared s)" "sh_driver sh = sh_driver (ls_shared s)"
      by (auto simp: allocate_id_def split: prod.splits)
    then show ?thesis by (intro signal_same [OF ok]) (simp_all add: returned(3))
  next
    case (admitted c opcode payload i a bs)
    then show ?thesis by (intro signal_same [OF ok]) simp_all
  qed
next
  case (Send k)
  then have "call_sent k s = Some s'" using st by (simp add: session_step_def)
  then show ?thesis by (cases rule: call_sent_cases; intro signal_same [OF ok]) simp_all
next
  case (Complete k)
  then have "call_completed k s = Some s'" using st by (simp add: session_step_def)
  then show ?thesis by (rule call_completed_cases; intro signal_same [OF ok]) simp_all
next
  case (Close_Step k)
  then show ?thesis using signal_closing [OF ok] st by (simp add: session_step_def)
next
  case (Close_Drop k)
  then have s': "s' = s\<lparr>ls_closers := remove_nth k (ls_closers s)\<rparr>" using st by (simp add: session_step_def close_droppedD)
  show ?thesis using ok set_remove_nth [of k "ls_closers s"] by (auto simp: signal_ok_def s')
qed (use ok st in
    \<open>auto simp: session_step_def call_cancelled_def release_permit_def driver_receives_def driver_reads_def driver_stops_def
      close_starts_def handles_dropped_def signal_ok_def split: if_splits list.splits\<close>)

lemma session_of_signal: "session_of (start_session tr config n) = Some s \<Longrightarrow> signal_ok s \<and> ended_ok s"
  by (auto simp: session_of_def start_session_def Let_def signal_ok_def ended_ok_def split: any_transport.splits)

text \<open>
  C12: no driver outlives its handles.  Once the last handle of a session is dropped, whatever closes
  were dropped before, the driver has ended, was aborted, or has the shutdown signal, and the arm that
  takes it ends it.
\<close>

theorem dropped_session_stops:
  assumes "session_of (start_session tr config n) = Some s" "session_run tcp evs s = Some s'" "\<not> ls_handles s'"
  shows "ls_task s' \<noteq> Running \<or> (\<exists>s'' e. session_step tcp Stop s' = Some s'' \<and> ls_task s'' = Ended e)"
proof -
  have "signal_ok s'"
    by (rule ses.run_invariant [OF assms(2), of signal_ok]) (use session_of_signal [OF assms(1)] signal_step in blast)+
  then have "ls_task s' = Running \<Longrightarrow> ls_signal s'" using assms(3) by (auto simp: signal_ok_def)
  moreover have "\<exists>e. ls_task (driver_arm tcp Ev_Shutdown s') = Ended e"
    by (simp add: driver_arm_def driver_step_def on_shutdown_def Let_def split: prod.split sum.split)
  ultimately show ?thesis by (auto simp: session_step_def driver_stops_def)
qed

theorem dropped_session_stops_witness:
  "\<exists>s s' s'' e. sample_start 1 [] = Some s \<and>
     session_run memory_ops (closing_once @ [Close_Drop 0, Drop_Handles]) s = Some s' \<and> ls_task s' = Running \<and>
     session_step memory_ops Stop s' = Some s'' \<and> ls_task s'' = Ended e"
proof -
  obtain s where s: "sample_start 1 [] = Some s" "quiet 1 0 s" by (rule sample_started)
  obtain s' where s': "session_run memory_ops (closing_once @ [Close_Drop 0, Drop_Handles]) s = Some s'"
    "ls_task s' = Running" "\<not> ls_handles s'"
    using s(2) by (auto simp: quiet_def closing_defs close_dropped_def remove_nth_def handles_dropped_def)
  with dropped_session_stops [OF s(1) [unfolded sample_start_def] s'(1,3)] s(1) show ?thesis by auto
qed

section \<open>Well-formed sessions\<close>

text \<open>
  A session is well formed when its permits add up, its calls, submissions and answers belong
  together as in some trace of the driver, an end of the driver closed admission, and whoever took
  the driver's handle told it to stop.
\<close>

definition session_ok :: "'t live_session \<Rightarrow> bool" where
  "session_ok s \<longleftrightarrow> permits_ok s \<and> (\<exists>tr. links_ok tr s) \<and> ended_ok s \<and> signal_ok s"

text \<open>
  C11: sessions stay well formed.  Establishing hands out a well-formed session, and whichever
  operation of a caller, of a close or of the driver is enabled in a well-formed session takes it to a
  well-formed one.
\<close>

theorem session_well_formed:
  "(session_of (start_session tr config n) = Some s \<longrightarrow> session_ok s) \<and>
   (session_ok s \<longrightarrow> session_step tcp ev s = Some s' \<longrightarrow> session_ok s')"
  using session_of_start(1,2) [of tr config n s] session_of_signal [of tr config n s] permits_step [of s tcp ev s']
    links_step [of _ s tcp ev s'] ended_step [of s _ tcp ev s'] signal_step [of s tcp ev s']
  unfolding session_ok_def by blast

theorem session_well_formed_witness:
  "\<exists>s s'. sample_start 1 [] = Some s \<and> session_ok s \<and> session_step memory_ops Close s = Some s' \<and> session_ok s'"
proof -
  obtain s where s: "sample_start 1 [] = Some s" "quiet 1 0 s" by (rule sample_started)
  obtain s' where s': "session_step memory_ops Close s = Some s'" using s(2) by (auto simp: quiet_def closing_defs)
  from session_well_formed [THEN conjunct1, rule_format, OF s(1) [unfolded sample_start_def]] have "session_ok s" .
  with session_well_formed [THEN conjunct2, rule_format, OF _ s'] s(1) s' show ?thesis by blast
qed

section \<open>Delivery\<close>

text \<open>
  C8: an answer that arrives is returned.  When a running session reads a chunk that completes
  answers to distinct requests in flight, in any order, the call that waits for one of them returns
  it with its next step, and the session goes on.
\<close>

theorem session_answer_returned:
  assumes "session_of (start_session tr config n) = Some s" "session_run tcp evs s = Some s'" "ls_task s' = Running"
    and call: "k < length (ls_calls s')" "ls_calls s' ! k = Awaits i c" "(i, c) \<in> set (waiting_callers s')"
    and read: "read_chunk tcp (drv_transport (ls_driver s')) = (Inr (Some chunk), tr')"
    and stream: "ses_buffer (drv_session (ls_driver s')) @ chunk = concat (map snd replies)"
    and replies: "list_all (\<lambda>(o', fb). answer_for (ls_limits s') o' fb \<and> out_request_id o' \<in> fst ` set (waiting_callers s')) replies"
      "distinct (map (\<lambda>(o', fb). out_request_id o') replies)" "(o', fb) \<in> set replies" "out_request_id o' = i"
  shows "\<exists>s''. session_run tcp [Read, Complete k] s' = Some s'' \<and> ls_task s'' = Running \<and>
    ls_results s'' = ls_results s' @ [(c, Inr (i, fb))]"
proof -
  note st = session_of_start [OF assms(1)]
  obtain evs' where links: "links_ok evs' s'" using run_invariants [OF assms(2) st(1,2)] by blast
  let ?d = "drv_session (ls_driver s')"
  have inv: "session_inv ?d" "\<not> drv_submit_closed (ls_driver s')" using links by (simp_all add: links_ok_def trace_inv_def)
  then have inv': "session_inv (?d\<lparr>ses_buffer := ses_buffer ?d @ chunk\<rparr>)" by (simp add: session_inv_def)
  obtain d' where d': "drain_frames (ls_limits s') (?d\<lparr>ses_buffer := ses_buffer ?d @ chunk\<rparr>) = (None, d')" "session_inv d'"
    "ses_log d' = ses_log ?d @ map (\<lambda>(o', fb). (the (map_of (waiting_callers s') (out_request_id o')), Inr fb)) replies"
    using dispatch_replies [OF inv', of replies "ls_limits s'"] stream replies(1,2) by auto
  let ?s1 = "driver_arm tcp Ev_Read s'"
  have s1: "drv_session (ls_driver ?s1) = d'" "ls_task ?s1 = Running"
    using read d'(1) inv(2) by (simp_all add: driver_arm_def driver_step_def on_read_def loop_end_def Let_def)
  have "map_of (waiting_callers s') i = Some c" using call(3) inv(1) by (simp add: session_inv_def)
  then have "(c, Inr fb) \<in> set (ses_log d')" using d'(3) replies(3,4) by (force simp: image_iff)
  moreover have "distinct (map fst (ses_log d'))" using d'(2) by (simp add: session_inv_def)
  ultimately have "map_of (ses_log d') c = Some (Inr fb)" by (rule map_of_is_SomeI [rotated])
  then have "call_completed k ?s1 = Some (call_returns k (Inr (i, fb)) ?s1)"
    using call(1,2) s1(1) by (simp add: call_completed_def)
  then show ?thesis
    using assms(3) s1(2) call(2) by (simp add: session_step_def driver_reads_def call_returns_def Let_def)
qed

theorem session_answer_returned_witness:
  "\<exists>s s' s''. sample_start 1 sample_response = Some s \<and> session_run memory_ops (queueing @ [Receive]) s = Some s' \<and>
     session_run memory_ops [Read, Complete 0] s' = Some s'' \<and> ls_results s'' = [(0, Inr (2, sample_response))]"
proof -
  obtain s s1 tr where s: "sample_start 1 sample_response = Some s" "session_run memory_ops (queueing @ [Receive]) s = Some s1"
    "ls_calls s1 = [Awaits 2 0]" "ls_results s1 = []" "ls_task s1 = Running" "\<not> drv_submit_closed (ls_driver s1)"
    "ls_limits s1 = \<lparr>frame_size = 65536, metadata_size = 4096\<rparr>"
    "read_chunk memory_ops (drv_transport (ls_driver s1)) = (Inr (Some sample_response), tr)"
    "drv_session (ls_driver s1) = \<lparr>ses_buffer = [], ses_completions = [(2, 0)], ses_live = \<lparr>live = [2]\<rparr>, ses_log = []\<rparr>"
    by (rule sample_written)
  have "answer_for (ls_limits s1) (sample_reply 2) sample_response"
    by (simp add: s(7) answer_for_def encode_with_max_ok encode_payload_def u16_try_from_def sample_reply_def sample_response_def
        header_bytes_def to_le_bytes_def acceptable_def client_admission_def check_connection_state_def correlate_def
        result_code_from_wire_def)
  then obtain s'' where "session_run memory_ops [Read, Complete 0] s1 = Some s''" "ls_results s'' = ls_results s1 @ [(0, Inr (2, sample_response))]"
    using session_answer_returned [OF s(1) [unfolded sample_start_def] s(2,5) _ _ _ s(8), of 0 2 0 "[(sample_reply 2, sample_response)]"
        "sample_reply 2" sample_response] s(3,9) by (auto simp: sample_reply_def)
  then show ?thesis using s(1,2,4) by auto
qed

end
