(* ===== verification/Sessions_Edges.thy ===== *)
theory Sessions_Edges
  imports Sessions_Shutdown
begin

text \<open>
  Sessions at the edges of what is documented, in whichever state a run has brought them to: an error
  frame of a connection-fatal class, the end of the stream while nobody waits, a transport whose
  shutdown fails, and a close that overlaps with the end of the session.
\<close>

section \<open>One read\<close>

lemma no_transport_step:
  assumes "sh_transport (ls_shared s) = None" "session_step tcp ev s = Some s'"
  shows "sh_transport (ls_shared s') = None"
proof (cases ev)
  case (Start opcode payload)
  then have "s' = call_starts opcode payload s" using assms(2) by (simp add: session_step_def split: if_splits)
  then show ?thesis using assms(1) by (cases rule: call_starts_cases [of opcode payload s]) simp_all
next
  case (Admit k)
  then have "call_admitted k s = Some s'" using assms(2) by (simp add: session_step_def)
  then show ?thesis
  proof (cases rule: call_admitted_cases)
    case (returned e sh)
    then have "sh_transport sh = sh_transport (ls_shared s)" by (auto simp: allocate_id_def split: prod.splits)
    then show ?thesis using returned(3) assms(1) by (simp add: call_returns_def release_permit_def Let_def)
  next
    case (admitted c opcode payload i a bs)
    then show ?thesis using assms(1) by simp
  qed
qed (use assms in
    \<open>auto simp: session_step_def call_cancelled_def call_sent_def call_completed_def call_returns_def release_permit_def
      driver_receives_def driver_reads_def driver_stops_def driver_arm_def close_starts_def close_advances_def close_returns_def
      close_join_def close_without_driver_def close_admission_def take_signal_def take_handle_def close_dropped_def
      handles_dropped_def Let_def
      split: if_splits list.splits call.splits option.splits sum.splits closing.splits task.splits driver_exit.splits prod.splits\<close>)

lemma no_transport_run:
  assumes "session_of (start_session tr config n) = Some s" "session_run tcp evs s = Some s'"
  shows "sh_transport (ls_shared s') = None"
proof (rule ses.run_invariant [OF assms(2), of "\<lambda>s. sh_transport (ls_shared s) = None"])
  show "sh_transport (ls_shared s) = None"
    using assms(1) by (auto simp: session_of_def start_session_def Let_def split: any_transport.splits)
qed (rule no_transport_step)

lemma reached_driver:
  assumes "session_of (start_session tr config n) = Some s" "session_run tcp evs s = Some s'"
  shows "session_inv (drv_session (ls_driver s'))" "\<not> drv_submit_closed (ls_driver s')" "signal_ok s'"
proof -
  note st = session_of_start [OF assms(1)]
  obtain evs' where "links_ok evs' s'" using run_invariants [OF assms(2) st(1,2)] by blast
  then show "session_inv (drv_session (ls_driver s'))" "\<not> drv_submit_closed (ls_driver s')"
    by (simp_all add: links_ok_def trace_inv_def)
  show "signal_ok s'"
    by (rule ses.run_invariant [OF assms(2), of signal_ok]) (use session_of_signal [OF assms(1)] signal_step in blast)+
qed

lemma read_chunk_step:
  assumes "ls_task s = Running" "\<not> drv_submit_closed (ls_driver s)"
    and "read_chunk tcp (drv_transport (ls_driver s)) = (Inr (Some chunk), tr)"
    and "drain_frames (ls_limits s) ((drv_session (ls_driver s))
      \<lparr>ses_buffer := ses_buffer (drv_session (ls_driver s)) @ chunk\<rparr>) = (x, d)"
  shows "\<exists>s'. session_step tcp Read s = Some s' \<and>
    (case x of
       None \<Rightarrow> ls_task s' = Running \<and> ls_shared s' = ls_shared s \<and> drv_session (ls_driver s') = d
     | Some y \<Rightarrow> ls_task s' = Ended Exit_Unusable \<and> sh_state (ls_shared s') = mark_state (sh_state (ls_shared s)) Unusable \<and>
         drv_session (ls_driver s') = fail_all (FatalFailure y) d)"
  using assms
  by (cases x) (simp_all add: session_step_def driver_reads_def driver_arm_def driver_step_def on_read_def loop_end_def
      end_session_def Let_def)

section \<open>Error frames of a connection-fatal class\<close>

definition error_reply :: "error_class \<Rightarrow> u64 \<Rightarrow> (u16 \<times> bytes) list \<Rightarrow> bytes \<Rightarrow> bytes \<Rightarrow> outgoing" where
  "error_reply c i md detail txt =
     \<lparr>out_kind = Kind_Error, out_code = error_class_value c, out_request_id = i, out_metadata = md,
      out_payload = OutError detail txt\<rparr>"

lemma error_reply_acceptable:
  assumes "list_all (\<lambda>(j, v). j < 0x8000) md" "error_class_scope c = ConnectionFatal \<or> i \<noteq> 0 \<and> i \<in> set ids"
  shows "acceptable (client_admission lim ids) (error_reply c i md detail txt)"
  using assms
  by (auto simp: acceptable_def client_admission_def check_connection_state_def correlate_def error_reply_def Let_def)

lemma live_nonzero:
  assumes "session_inv s" "(i, c) \<in> set (ses_completions s)"
  shows "i \<noteq> 0"
proof -
  have "i \<in> set (live (ses_live s))" using assms by (auto simp: session_inv_def live_ids_def intro: rev_image_eqI)
  then show ?thesis using assms(1) by (auto simp: session_inv_def registry_inv_def)
qed

lemma fatal_unattributed:
  assumes "encode_with_max (error_reply c i md detail txt) (frame_size lim) (metadata_size lim) = Inr fb"
    and "list_all (\<lambda>(j, v). j < 0x8000) md" "error_class_scope c = ConnectionFatal"
    and "ses_buffer s = fb" "i \<notin> fst ` set (ses_completions s)"
  shows "fst (drain_frames lim s) = Some protocol_violation"
proof -
  let ?adm = "client_admission lim (live_ids (ses_live s))"
  obtain f where f: "decode fb ?adm = Frame f" "outgoing_of f = error_reply c i md detail txt"
    using decode_encoded [OF assms(1) _ _ error_reply_acceptable [OF assms(2), of c i "live_ids (ses_live s)" lim], of "[]"] assms(3)
    by (auto simp: client_admission_def)
  then have "request_id_value (hdr_request_id (frm_header f)) = i" by (simp add: outgoing_of_def error_reply_def)
  moreover have "map_of (ses_completions s) i = None" using assms(5) by (simp add: map_of_eq_None_iff)
  ultimately show ?thesis using f(1) assms(4) by (subst drain_frames_eq) (simp add: verdict_of_def)
qed

text \<open>
  C38: an error frame that names a request in flight is an ordinary answer, whatever its class.  When
  a running session reads such a frame, of any class, connection-fatal ones included, with any
  metadata, detail and text that fit, only the caller of that request gets it; every other caller
  keeps waiting and the session runs on with its shared state untouched.  A connection-fatal error
  frame that names no request in flight does end the session.
\<close>

theorem error_frame_ends_only_its_request:
  assumes "session_of (start_session tr config n) = Some s" "session_run tcp evs s = Some s'" "ls_task s' = Running"
    and frame: "encode_with_max (error_reply cls i md detail txt) (frame_size (ls_limits s')) (metadata_size (ls_limits s')) = Inr fb"
      "list_all (\<lambda>(j, v). j < 0x8000) md"
    and read: "read_chunk tcp (drv_transport (ls_driver s')) = (Inr (Some chunk), tr')"
      "ses_buffer (drv_session (ls_driver s')) @ chunk = fb"
  shows "((i, c) \<in> set (waiting_callers s') \<longrightarrow>
      (\<exists>s''. session_step tcp Read s' = Some s'' \<and> ls_task s'' = Running \<and> ls_shared s'' = ls_shared s' \<and>
         waiting_callers s'' = filter (\<lambda>(j, c'). j \<noteq> i) (waiting_callers s') \<and>
         ses_log (drv_session (ls_driver s'')) = ses_log (drv_session (ls_driver s')) @ [(c, Inr fb)])) \<and>
    (error_class_scope cls = ConnectionFatal \<longrightarrow> i \<notin> fst ` set (waiting_callers s') \<longrightarrow>
      (\<exists>s''. session_step tcp Read s' = Some s'' \<and> ls_task s'' = Ended Exit_Unusable))"
proof (intro conjI impI)
  let ?d = "drv_session (ls_driver s')" and ?o = "error_reply cls i md detail txt"
  let ?b = "?d\<lparr>ses_buffer := ses_buffer ?d @ chunk\<rparr>"
  note d = reached_driver [OF assms(1,2)]
  have oid: "out_request_id ?o = i" by (simp add: error_reply_def)
  assume w: "(i, c) \<in> set (waiting_callers s')"
  have "answer_for (ls_limits s') ?o fb"
    using frame error_reply_acceptable [OF frame(2), of cls i "[i]"] live_nonzero [OF d(1) w] by (simp add: answer_for_def oid)
  moreover have "i \<in> fst ` set (waiting_callers s')" using w by (auto intro: rev_image_eqI)
  moreover have "session_inv ?b" using d(1) by (simp add: session_inv_def)
  ultimately obtain d' where d': "drain_frames (ls_limits s') ?b = (None, d')"
    "ses_log d' = ses_log ?d @ [(the (map_of (waiting_callers s') i), Inr fb)]"
    "ses_completions d' = filter (\<lambda>(j, c). j \<noteq> i) (waiting_callers s')"
    using dispatch_replies [of ?b "[(?o, fb)]" "ls_limits s'"] read(2) by (auto simp: oid)
  moreover have "map_of (waiting_callers s') i = Some c" using w d(1) by (simp add: session_inv_def)
  ultimately show "\<exists>s''. session_step tcp Read s' = Some s'' \<and> ls_task s'' = Running \<and> ls_shared s'' = ls_shared s' \<and>
      waiting_callers s'' = filter (\<lambda>(j, c'). j \<noteq> i) (waiting_callers s') \<and>
      ses_log (drv_session (ls_driver s'')) = ses_log (drv_session (ls_driver s')) @ [(c, Inr fb)]"
    using read_chunk_step [OF assms(3) d(2) read(1) d'(1)] by auto
next
  let ?d = "drv_session (ls_driver s')"
  let ?b = "?d\<lparr>ses_buffer := ses_buffer ?d @ chunk\<rparr>"
  assume "error_class_scope cls = ConnectionFatal" "i \<notin> fst ` set (waiting_callers s')"
  then have "fst (drain_frames (ls_limits s') ?b) = Some protocol_violation"
    using fatal_unattributed [OF frame, of ?b] read(2) by simp
  then obtain d' where "drain_frames (ls_limits s') ?b = (Some protocol_violation, d')" by (metis prod.collapse)
  from read_chunk_step [OF assms(3) reached_driver(2) [OF assms(1,2)] read(1) this]
  show "\<exists>s''. session_step tcp Read s' = Some s'' \<and> ls_task s'' = Ended Exit_Unusable" by auto
qed

theorem error_frame_ends_only_its_request_witness:
  "error_class_scope ResourceLimit = ConnectionFatal \<and>
   (\<exists>s s' s''. sample_start 1 (error_frame ResourceLimit 2) = Some s \<and>
      session_run memory_ops (queueing @ [Receive]) s = Some s' \<and> waiting_callers s' = [(2, 0)] \<and>
      session_step memory_ops Read s' = Some s'' \<and> ls_task s'' = Running \<and> ls_shared s'' = ls_shared s' \<and>
      ses_log (drv_session (ls_driver s'')) = [(0, Inr (error_frame ResourceLimit 2))])"
proof -
  let ?fb = "error_frame ResourceLimit 2"
  have "?fb \<noteq> []" "length ?fb \<le> 64" by (simp_all add: error_frame_def)
  then obtain s s1 tr where s: "sample_start 1 ?fb = Some s" "session_run memory_ops (queueing @ [Receive]) s = Some s1"
    "ls_calls s1 = [Awaits 2 0]" "ls_results s1 = []" "ls_task s1 = Running" "\<not> drv_submit_closed (ls_driver s1)"
    "ls_limits s1 = \<lparr>frame_size = 65536, metadata_size = 4096\<rparr>"
    "read_chunk memory_ops (drv_transport (ls_driver s1)) = (Inr (Some ?fb), tr)"
    "drv_session (ls_driver s1) = \<lparr>ses_buffer = [], ses_completions = [(2, 0)], ses_live = \<lparr>live = [2]\<rparr>, ses_log = []\<rparr>"
    by (rule sample_in_flight)
  have "to_le_bytes (0 :: u16) = [0, 0]" by (simp add: to_le_bytes_def)
  then have e: "encode_with_max (error_reply ResourceLimit 2 [] [] []) (frame_size (ls_limits s1)) (metadata_size (ls_limits s1)) =
      Inr ?fb"
    by (simp add: encode_with_max_ok encode_payload_def u16_try_from_def error_frame_def error_reply_def s(7))
  from error_frame_ends_only_its_request [OF s(1) [unfolded sample_start_def] s(2,5) e _ s(8), of 0] s(1,2,9)
  show ?thesis by (auto simp: error_class_scope_def)
qed

section \<open>The end of the stream\<close>

text \<open>Streams that have ended or fail on every read, and stay so.\<close>

definition stream_over :: "'t stream_ops \<Rightarrow> ('t any_transport \<Rightarrow> bool) \<Rightarrow> bool" where
  "stream_over tcp over \<longleftrightarrow>
     (\<forall>t. over t \<longrightarrow> (\<exists>r t'. read_chunk tcp t = (r, t') \<and> (r = Inr None \<or> (\<exists>e. r = Inl e)) \<and> over t'))"

lemma read_over_step:
  assumes "ls_task s = Running" "\<not> drv_submit_closed (ls_driver s)" "stream_over tcp over" "over (drv_transport (ls_driver s))"
  shows "\<exists>s'. session_step tcp Read s = Some s' \<and> over (drv_transport (ls_driver s')) \<and>
    (if waiting_callers s = []
     then ls_task s' = Running \<and> ls_shared s' = ls_shared s \<and> ls_calls s' = ls_calls s \<and> ls_results s' = ls_results s \<and>
       drv_session (ls_driver s') = drv_session (ls_driver s) \<and> \<not> drv_submit_closed (ls_driver s')
     else ls_task s' = Ended Exit_Failed \<and> sh_state (ls_shared s') = mark_state (sh_state (ls_shared s)) Failed \<and>
       drv_session (ls_driver s') = fail_all TransportFailed (drv_session (ls_driver s)))"
proof -
  obtain r t' where "read_chunk tcp (drv_transport (ls_driver s)) = (r, t')" "r = Inr None \<or> (\<exists>e. r = Inl e)" "over t'"
    using assms(3,4) unfolding stream_over_def by blast
  then show ?thesis
    using assms(1,2)
    by (auto simp: session_step_def driver_reads_def driver_arm_def driver_step_def on_read_def end_session_def Let_def)
qed

lemma idle_reads:
  assumes "ls_task s = Running" "\<not> drv_submit_closed (ls_driver s)" "stream_over tcp over" "over (drv_transport (ls_driver s))"
    and "waiting_callers s = []"
  shows "\<exists>s'. session_run tcp (replicate k Read) s = Some s' \<and> ls_task s' = Running \<and> ls_shared s' = ls_shared s \<and>
    ls_calls s' = ls_calls s \<and> ls_results s' = ls_results s \<and> waiting_callers s' = [] \<and> over (drv_transport (ls_driver s'))"
  using assms
proof (induction k arbitrary: s)
  case 0
  then show ?case by simp
next
  case (Suc k)
  obtain s1 where "session_step tcp Read s = Some s1" "over (drv_transport (ls_driver s1))" "ls_task s1 = Running"
    "ls_shared s1 = ls_shared s" "ls_calls s1 = ls_calls s" "ls_results s1 = ls_results s" "waiting_callers s1 = []"
    "\<not> drv_submit_closed (ls_driver s1)"
    using read_over_step [OF Suc.prems(1-4)] Suc.prems(5) by auto
  with Suc.IH [of s1] Suc.prems(3) show ?case by auto
qed

text \<open>
  C40: the end of the stream goes unnoticed while nobody waits.  In any session that runs on a stream
  that has ended, or fails on every read, any number of reads changes nothing while no request is in
  flight: the session stays usable if it was, its admission open and its calls pending.  The same read
  with a request in flight ends the session as failed, with every caller told that the transport
  failed.
\<close>

theorem end_of_stream_unnoticed_when_idle:
  assumes "session_of (start_session tr config n) = Some s" "session_run tcp evs s = Some s'" "ls_task s' = Running"
    and "stream_over tcp over" "over (drv_transport (ls_driver s'))"
  shows "(waiting_callers s' = [] \<longrightarrow>
      (\<exists>s''. session_run tcp (replicate k Read) s' = Some s'' \<and> ls_task s'' = Running \<and> ls_shared s'' = ls_shared s' \<and>
         ls_calls s'' = ls_calls s' \<and> ls_results s'' = ls_results s' \<and> waiting_callers s'' = [])) \<and>
    (waiting_callers s' \<noteq> [] \<longrightarrow>
      (\<exists>s''. session_step tcp Read s' = Some s'' \<and> ls_task s'' = Ended Exit_Failed \<and>
         sh_state (ls_shared s'') = mark_state (sh_state (ls_shared s')) Failed \<and>
         ses_log (drv_session (ls_driver s'')) =
           ses_log (drv_session (ls_driver s')) @ map (\<lambda>(i, c). (c, Inl TransportFailed)) (waiting_callers s')))"
proof (intro conjI impI)
  note d = reached_driver [OF assms(1,2)]
  assume "waiting_callers s' = []"
  from idle_reads [OF assms(3) d(2) assms(4,5) this, of k]
  show "\<exists>s''. session_run tcp (replicate k Read) s' = Some s'' \<and> ls_task s'' = Running \<and> ls_shared s'' = ls_shared s' \<and>
      ls_calls s'' = ls_calls s' \<and> ls_results s'' = ls_results s' \<and> waiting_callers s'' = []" by blast
next
  note d = reached_driver [OF assms(1,2)]
  assume "waiting_callers s' \<noteq> []"
  with read_over_step [OF assms(3) d(2) assms(4,5)] fail_all_eq [OF d(1), of TransportFailed]
  show "\<exists>s''. session_step tcp Read s' = Some s'' \<and> ls_task s'' = Ended Exit_Failed \<and>
      sh_state (ls_shared s'') = mark_state (sh_state (ls_shared s')) Failed \<and>
      ses_log (drv_session (ls_driver s'')) =
        ses_log (drv_session (ls_driver s')) @ map (\<lambda>(i, c). (c, Inl TransportFailed)) (waiting_callers s')" by auto
qed

lemma empty_stream_over: "stream_over memory_ops (\<lambda>t. \<exists>m. t = Tcp m \<and> \<not> mem_closed m \<and> mem_inbound m = [])"
  unfolding stream_over_def by (auto simp: read_chunk_tcp)

theorem end_of_stream_unnoticed_when_idle_witness:
  "\<exists>s s1 s2 s3. sample_start 1 [] = Some s \<and>
     session_run memory_ops (replicate 5 Read) s = Some s1 \<and> ls_task s1 = Running \<and> sh_state (ls_shared s1) = Usable \<and>
     session_run memory_ops (queueing @ [Receive]) s = Some s2 \<and>
     session_step memory_ops Read s2 = Some s3 \<and> ls_task s3 = Ended Exit_Failed \<and> sh_state (ls_shared s3) = Failed"
proof -
  let ?over = "\<lambda>t. \<exists>m. t = Tcp m \<and> \<not> mem_closed m \<and> mem_inbound m = []"
  obtain s where s: "sample_start 1 [] = Some s" "quiet 1 0 s" "links_ok [] s" "ids_ok s"
    "drv_transport (ls_driver s) = Tcp (memory_new [] 64 64)" by (rule sample_started)
  note st = s(1) [unfolded sample_start_def]
  have "session_run memory_ops [] s = Some s" "ls_task s = Running" "?over (drv_transport (ls_driver s))" "waiting_callers s = []"
    using s(2,5) by (auto simp: quiet_def memory_new_def)
  from end_of_stream_unnoticed_when_idle [OF st this(1,2) empty_stream_over this(3), of 5] this(4)
  obtain s1 where s1: "session_run memory_ops (replicate 5 Read) s = Some s1" "ls_task s1 = Running" "ls_shared s1 = ls_shared s"
    by blast
  obtain s2 m m' where w: "session_run memory_ops (queueing @ [Receive]) s = Some s2"
    "drv_transport (ls_driver s) = Tcp m" "drv_transport (ls_driver s2) = Tcp m'" "mem_inbound m' = mem_inbound m"
    "quiet 1 (Suc 0) (s2\<lparr>ls_calls := [], ls_shared := release_permit (ls_shared s2)\<rparr>)"
    by (rule request_written [OF s(2) _ s(3,4)]) simp_all
  have "ls_task s2 = Running" "?over (drv_transport (ls_driver s2))" "waiting_callers s2 \<noteq> []" "sh_state (ls_shared s2) = Usable"
    using w(2-5) s(5) by (auto simp: quiet_def memory_new_def release_permit_def)
  from end_of_stream_unnoticed_when_idle [OF st w(1) this(1) empty_stream_over this(2)] this(3,4)
  obtain s3 where "session_step memory_ops Read s2 = Some s3" "ls_task s3 = Ended Exit_Failed" "sh_state (ls_shared s3) = Failed"
    by (auto simp: mark_state_def)
  then show ?thesis using s(1,2) s1 w(1) by (auto simp: quiet_def)
qed

section \<open>A transport whose shutdown fails\<close>

text \<open>
  C39: through a driver, a failed shutdown of the transport is reported but not recorded.  In any
  usable running session with no close under way, a close whose shutdown signal the driver takes and whose transport then fails to
  shut down returns the error, but the state it leaves is closed: the driver marks the session closed
  before it shuts the transport down, and nothing moves it from there.  A session without a driver
  records the same failure as failed, with the error of the transport.
\<close>

theorem failed_shutdown_stays_closed:
  fixes s :: "'a live_session"
  assumes "session_of (start_session tr config n) = Some s" "session_run tcp evs s = Some s'" "ls_task s' = Running"
    and "ls_handles s'" "ls_closers s' = []" "sh_state (ls_shared s') = Usable" "sh_driver (ls_shared s')"
    and "any_shutdown tcp (drv_transport (ls_driver s')) = (Inl e, tr')"
  shows "(\<exists>s''. session_run tcp (closing_once @ [Stop, Close_Step 0]) s' = Some s'' \<and> ls_task s'' = Ended Exit_Failed \<and>
      ls_closed s'' = ls_closed s' @ [Inl (IoError BrokenPipe ''the transport failed during shutdown'')] \<and>
      sh_state (ls_shared s'') = Closed) \<and>
    (\<forall>sh t t' d. \<not> sh_driver sh \<and> \<not> is_terminal (sh_state sh) \<and> sh_transport sh = Some t \<and> any_shutdown tcp t = (Inl e, t') \<longrightarrow>
      (\<exists>sh'. close_connection tcp sh d = (Inl e, sh', d) \<and> sh_state sh' = Failed))"
proof (intro conjI allI impI)
  have sig: "sh_shutdown_tx (ls_shared s') \<or> ls_signal s'"
    using reached_driver(3) [OF assms(1,2)] by (simp add: signal_ok_def)
  show "\<exists>s''. session_run tcp (closing_once @ [Stop, Close_Step 0]) s' = Some s'' \<and> ls_task s'' = Ended Exit_Failed \<and>
      ls_closed s'' = ls_closed s' @ [Inl (IoError BrokenPipe ''the transport failed during shutdown'')] \<and>
      sh_state (ls_shared s'') = Closed"
    using assms(3-8) sig
    by (auto simp: closing_defs driver_stops_def driver_arm_def driver_step_def on_shutdown_def end_session_def mark_state_def
        close_returns_def close_join_def finish_close_def Let_def)
next
  fix sh :: "'a shared" and t t' d
  assume "\<not> sh_driver sh \<and> \<not> is_terminal (sh_state sh) \<and> sh_transport sh = Some t \<and> any_shutdown tcp t = (Inl e, t')"
  then show "\<exists>sh'. close_connection tcp sh d = (Inl e, sh', d) \<and> sh_state sh' = Failed"
    by (simp add: close_connection_def close_check_def close_begin_def close_admission_def has_driver_def
        close_without_driver_def Let_def)
qed

text \<open>A session over a stream whose shutdown fails.\<close>

definition failing_start :: "in_memory_transport live_session option" where
  "failing_start = session_of (start_session (Tcp (fail_on_shutdown (memory_new [] 64 64))) config_default sample_negotiated)"

theorem failed_shutdown_stays_closed_witness:
  "\<exists>s s'. failing_start = Some s \<and> session_run memory_ops (closing_once @ [Stop, Close_Step 0]) s = Some s' \<and>
     ls_closed s' = [Inl (IoError BrokenPipe ''the transport failed during shutdown'')] \<and> sh_state (ls_shared s') = Closed"
proof -
  obtain s where s: "failing_start = Some s"
    by (simp add: failing_start_def session_of_def start_session_def Let_def)
  have t: "ls_task s = Running" "ls_handles s" "ls_closers s = []" "sh_state (ls_shared s) = Usable" "sh_driver (ls_shared s)"
    "drv_transport (ls_driver s) = Tcp (fail_on_shutdown (memory_new [] 64 64))" "ls_closed s = []"
    using s by (auto simp: failing_start_def session_of_def start_session_def Let_def driver_new_def)
  have "fst (any_shutdown memory_ops (drv_transport (ls_driver s))) = Inl (IoError BrokenPipe ''closed'')"
    by (simp add: t(6) any_shutdown_def memory_ops_def memory_shutdown_def fail_on_shutdown_def)
  then obtain tr' where "any_shutdown memory_ops (drv_transport (ls_driver s)) = (Inl (IoError BrokenPipe ''closed''), tr')"
    by (metis prod.collapse)
  from failed_shutdown_stays_closed [OF s [unfolded failing_start_def] _ t(1-5) this, of "[]", THEN conjunct1] s t(7)
  show ?thesis by auto
qed

section \<open>A close that overlaps with the end of the session\<close>

text \<open>The driver has ended, no close is under way and the session is recorded as closing.\<close>

definition left_closing :: "'t live_session \<Rightarrow> bool" where
  "left_closing s \<longleftrightarrow> ls_task s \<noteq> Running \<and> ls_closers s = [] \<and> sh_state (ls_shared s) = Closing"

lemma returns_state [simp]: "sh_state (ls_shared (call_returns k r s)) = sh_state (ls_shared s)"
  by (simp add: call_returns_def release_permit_def Let_def)

lemma left_closing_step:
  assumes c: "left_closing s" and st: "session_step tcp ev s = Some s'" and ev: "ev \<noteq> Close"
  shows "left_closing s'"
proof (cases ev)
  case (Start opcode payload)
  then have "s' = call_starts opcode payload s" using st by (simp add: session_step_def split: if_splits)
  then show ?thesis using c by (cases rule: call_starts_cases [of opcode payload s]) (simp_all add: left_closing_def)
next
  case (Admit k)
  then have "call_admitted k s = Some s'" using st by (simp add: session_step_def)
  then show ?thesis
  proof (cases rule: call_admitted_cases)
    case (returned e sh)
    then have "sh_state sh = sh_state (ls_shared s)" by (auto simp: allocate_id_def split: prod.splits)
    then show ?thesis using returned(3) c by (simp add: left_closing_def)
  next
    case (admitted c opcode payload i a bs)
    then show ?thesis using \<open>left_closing s\<close> by (simp add: left_closing_def)
  qed
next
  case (Send k)
  then have "call_sent k s = Some s'" using st by (simp add: session_step_def)
  then show ?thesis using c by (cases rule: call_sent_cases) (simp_all add: left_closing_def)
next
  case (Complete k)
  then have "call_completed k s = Some s'" using st by (simp add: session_step_def)
  then show ?thesis using c by (auto elim!: call_completed_cases simp: left_closing_def)
qed (use c st ev in
    \<open>auto simp: session_step_def call_cancelled_def release_permit_def driver_receives_def driver_reads_def driver_stops_def
      close_advances_def close_dropped_def handles_dropped_def left_closing_def split: if_splits list.splits\<close>)

lemma left_closing_run:
  "session_run tcp evs s = Some s' \<Longrightarrow> left_closing s \<Longrightarrow> Close \<notin> set evs \<Longrightarrow> left_closing s'"
proof (induction evs arbitrary: s)
  case (Cons ev evs)
  then show ?case by (auto dest: left_closing_step split: option.splits)
qed simp

text \<open>
  C33: a close that overlaps with the end of the session hides it.  If the driver ends the session as
  unusable after a close, the only one under way, has checked that it had not ended, the next step of the close overwrites the
  terminal state with closing, and joining the driver does not restore it: the close returns success
  and leaves the session closing, with no driver that could end it.  It stays closing, through
  whatever calls and drops of handles, until another close begins; that one finds no driver and no
  transport and records the session as closed.
\<close>

theorem close_race_leaves_closing:
  assumes "session_of (start_session tr config n) = Some s" "session_run tcp evs s = Some s'"
    and "ls_task s' = Ended Exit_Unusable" "sh_state (ls_shared s') = Unusable"
    and "ls_closers s' = [Checked]" "sh_driver (ls_shared s')" "ls_handles s'"
  shows "\<exists>s''. session_run tcp (replicate 6 (Close_Step 0)) s' = Some s'' \<and> ls_closed s'' = ls_closed s' @ [Inr ()] \<and>
    sh_state (ls_shared s'') = Closing \<and> ls_task s'' \<noteq> Running \<and>
    (\<forall>evs' t. session_run tcp evs' s'' = Some t \<longrightarrow> Close \<notin> set evs' \<longrightarrow> sh_state (ls_shared t) = Closing) \<and>
    (\<exists>t. session_run tcp (Close # replicate 3 (Close_Step 0)) s'' = Some t \<and> sh_state (ls_shared t) = Closed \<and>
       ls_closed t = ls_closed s'' @ [Inr ()])"
proof -
  have tr': "sh_transport (ls_shared s') = None" using no_transport_run [OF assms(1,2)] .
  obtain s'' where s'': "session_run tcp (replicate 6 (Close_Step 0)) s' = Some s''" "ls_closed s'' = ls_closed s' @ [Inr ()]"
    "left_closing s''" "ls_handles s''" "\<not> sh_driver (ls_shared s'')" "sh_transport (ls_shared s'') = None"
    using assms(3-7) tr'
    by (simp add: numeral_eq_Suc closing_defs close_returns_def close_join_def remove_nth_def left_closing_def)
  moreover have "sh_state (ls_shared t) = Closing" if "session_run tcp evs' s'' = Some t" "Close \<notin> set evs'" for evs' t
    using left_closing_run [OF that(1) s''(3) that(2)] by (simp add: left_closing_def)
  moreover have "\<exists>t. session_run tcp (Close # replicate 3 (Close_Step 0)) s'' = Some t \<and> sh_state (ls_shared t) = Closed \<and>
      ls_closed t = ls_closed s'' @ [Inr ()]"
    using s''(3-6)
    by (simp add: numeral_eq_Suc closing_defs close_returns_def close_without_driver_def remove_nth_def left_closing_def)
  ultimately show ?thesis unfolding left_closing_def by blast
qed

text \<open>The peer sends twenty bytes that are no header, between the check of a close and its next step.\<close>

definition garbage :: bytes where
  "garbage = [255, 255, 255, 255, 255, 255, 255, 255, 255, 255, 255, 255, 255, 255, 255, 255, 255, 255, 255, 255]"

lemma garbage_fatal: "\<exists>x. verdict_of \<lparr>frame_size = 65536, metadata_size = 4096\<rparr> [] garbage = Fatal x"
  by (simp add: verdict_of_def client_admission_def garbage_def decode_eval)

lemma garbage_read:
  obtains s s' where "sample_start 1 garbage = Some s" "session_run memory_ops [Close, Read] s = Some s'"
    "ls_task s' = Ended Exit_Unusable" "sh_state (ls_shared s') = Unusable" "ls_closers s' = [Checked]"
    "sh_driver (ls_shared s')" "ls_handles s'" "ls_closed s' = []"
proof -
  obtain s where s: "sample_start 1 garbage = Some s" "quiet 1 0 s" "ls_limits s = \<lparr>frame_size = 65536, metadata_size = 4096\<rparr>"
    "drv_session (ls_driver s) = session_new" "drv_transport (ls_driver s) = Tcp (memory_new garbage 64 64)" by (rule sample_started)
  define s1 where "s1 = s\<lparr>ls_closers := [Checked]\<rparr>"
  have close: "session_step memory_ops Close s = Some s1" using s(2) by (simp add: quiet_def closing_defs s1_def)
  have open_submit: "\<not> drv_submit_closed (ls_driver s1)"
    using reached_driver(2) [OF s(1) [unfolded sample_start_def], of memory_ops "[]" s] by (simp add: s1_def)
  have rd: "read_chunk memory_ops (drv_transport (ls_driver s1)) = (Inr (Some garbage), Tcp ((memory_new garbage 64 64)\<lparr>mem_inbound := []\<rparr>))"
    using s(5) read_chunk_tcp [of "memory_new garbage 64 64" 20] by (simp add: s1_def memory_new_def garbage_def READ_CHUNK_def)
  let ?b = "(drv_session (ls_driver s1))\<lparr>ses_buffer := ses_buffer (drv_session (ls_driver s1)) @ garbage\<rparr>"
  obtain x where v: "verdict_of \<lparr>frame_size = 65536, metadata_size = 4096\<rparr> [] garbage = Fatal x" using garbage_fatal by blast
  have x: "drain_frames (ls_limits s1) ?b = (Some x, ?b)"
    using s(3,4) by (subst drain_frames_eq) (simp add: s1_def session_new_def registry_new_def live_ids_def v)
  have run: "ls_task s1 = Running" "sh_state (ls_shared s1) = Usable" using s(2) by (simp_all add: s1_def quiet_def)
  obtain s' where s': "session_step memory_ops Read s1 = Some s'" "ls_task s' = Ended Exit_Unusable" "sh_state (ls_shared s') = Unusable"
    using read_chunk_step [OF run(1) open_submit rd x] run(2) by (auto simp: mark_state_def)
  have "s' = driver_arm memory_ops Ev_Read s1" using s'(1) run(1) by (simp add: session_step_def driver_reads_def)
  moreover have "ls_closed (driver_arm memory_ops Ev_Read s1) = ls_closed s1" by (simp add: driver_arm_def Let_def split: prod.split)
  ultimately show thesis
    using that [OF s(1) _ s'(2,3)] close s'(1) s(2) by (simp add: s1_def quiet_def)
qed

theorem close_race_leaves_closing_witness:
  "\<exists>s s'. sample_start 1 garbage = Some s \<and>
     session_run memory_ops ([Close, Read] @ replicate 6 (Close_Step 0)) s = Some s' \<and> ls_closed s' = [Inr ()] \<and>
     sh_state (ls_shared s') = Closing \<and> ls_task s' \<noteq> Running"
proof -
  obtain s s1 where s: "sample_start 1 garbage = Some s" "session_run memory_ops [Close, Read] s = Some s1"
    "ls_task s1 = Ended Exit_Unusable" "sh_state (ls_shared s1) = Unusable" "ls_closers s1 = [Checked]"
    "sh_driver (ls_shared s1)" "ls_handles s1" "ls_closed s1 = []" by (rule garbage_read)
  obtain s' where "session_run memory_ops (replicate 6 (Close_Step 0)) s1 = Some s'" "ls_closed s' = ls_closed s1 @ [Inr ()]"
    "sh_state (ls_shared s') = Closing" "ls_task s' \<noteq> Running"
    using close_race_leaves_closing [OF s(1) [unfolded sample_start_def] s(2-7)] by blast
  then show ?thesis
    using s(1,2,8) ses.run_append [of memory_ops "[Close, Read]" "replicate 6 (Close_Step 0)" s] by auto
qed

end
