(* ===== verification/Test_Dispatcher.thy ===== *)
theory Test_Dispatcher
  imports Driver_Delivery Event_Systems
begin

text \<open>
  The dispatcher of the multiplexing tests (\<open>src/src/connection/dispatch.rs\<close>, from \<open>Terminal\<close> on): a
  second, simpler driver over an in-memory stream, which the conformance scenarios of the crate run
  against a scripted peer.

  The record \<open>test_dispatcher\<close> holds what the callers and the driver task share and what the task
  owns.  A caller's part of \<open>execute\<close> up to its first await is one step, the end of that await is
  another; the driver takes one arm of its select loop at a time; what an await of the stream
  resolves to is an argument.  A one-shot channel is a number and \<open>td_log\<close> lists how each was
  resolved: by a value sent, by a refusal before the submission, or by a sender that was dropped,
  which a caller reads as \<open>RequestError::Closed\<close>.  \<open>submit_and_abandon\<close> is the same call with a receiver
  nobody reads.
\<close>

section \<open>Outcomes, states and submissions\<close>

record test_terminal =
  tm_payload :: bytes

datatype request_error = Request_Closed | Request_Unusable | Request_Transport

primrec request_error_display :: "request_error \<Rightarrow> string" where
  "request_error_display Request_Closed = ''the session closed''"
| "request_error_display Request_Unusable = ''the session is unusable''"
| "request_error_display Request_Transport = ''the transport failed''"

datatype session_state = Session_Usable | Session_Unusable | Session_Closed

record test_submit =
  ts_id :: u64
  ts_bytes :: bytes
  ts_completion :: channel

record test_dispatcher =
  td_state :: session_state
  td_allocator :: request_id_allocator
  td_live :: in_flight_registry
  td_senders :: bool
  td_handle :: bool
  td_sending :: "test_submit list"
  td_queue :: "test_submit list"
  td_running :: bool
  td_completions :: "(u64 \<times> channel) list"
  td_buffer :: bytes
  td_submit_closed :: bool
  td_written :: bytes
  td_log :: "(channel \<times> (request_error + test_terminal)) list"

definition SUBMIT_CAPACITY :: usize where
  "SUBMIT_CAPACITY = 64"

definition test_dispatcher_new :: test_dispatcher where
  "test_dispatcher_new =
     \<lparr>td_state = Session_Usable, td_allocator = allocator_new, td_live = registry_new, td_senders = True,
      td_handle = True, td_sending = [], td_queue = [], td_running = True, td_completions = [], td_buffer = [],
      td_submit_closed = False, td_written = [], td_log = []\<rparr>"

definition test_send :: "channel \<Rightarrow> request_error + test_terminal \<Rightarrow> test_dispatcher \<Rightarrow> test_dispatcher" where
  "test_send c r d = d\<lparr>td_log := td_log d @ [(c, r)]\<rparr>"

definition test_retire :: "u64 \<Rightarrow> test_dispatcher \<Rightarrow> test_dispatcher" where
  "test_retire i d = d\<lparr>td_live := snd (registry_retire (td_live d) i)\<rparr>"

definition live_len :: "test_dispatcher \<Rightarrow> usize" where
  "live_len d = registry_len (td_live d)"

section \<open>Test frames\<close>

definition encode_test_request :: "u64 \<Rightarrow> bytes \<Rightarrow> bytes" where
  "encode_test_request i payload =
     (case encode \<lparr>out_kind = Kind_Request, out_code = 0xFFFF, out_request_id = i, out_metadata = [],
                    out_payload = OutOpaque payload\<rparr> of
        Inr b \<Rightarrow> b
      | Inl _ \<Rightarrow> [])"

definition encode_test_response :: "u64 \<Rightarrow> bytes \<Rightarrow> bytes" where
  "encode_test_response i payload =
     (case encode \<lparr>out_kind = Kind_Response, out_code = 0, out_request_id = i, out_metadata = [],
                    out_payload = OutOpaque payload\<rparr> of
        Inr b \<Rightarrow> b
      | Inl _ \<Rightarrow> [])"

definition lengths_total :: "u16 \<Rightarrow> u32 \<Rightarrow> usize option" where
  "lengths_total metadata_length payload_length =
     do { h \<leftarrow> checked_add_usize HEADER_LENGTH (unat metadata_length);
          checked_add_usize h
            (case usize_try_from_u32 payload_length of Some n \<Rightarrow> n | None \<Rightarrow> 18446744073709551615) }"

definition test_header_request_id :: "bytes \<Rightarrow> (u64 \<times> usize) option" where
  "test_header_request_id buffer =
     (if length buffer < HEADER_LENGTH then None
      else do { m0 \<leftarrow> get_at buffer 6; m1 \<leftarrow> get_at buffer 7;
                p0 \<leftarrow> get_at buffer 8; p1 \<leftarrow> get_at buffer 9;
                p2 \<leftarrow> get_at buffer 10; p3 \<leftarrow> get_at buffer 11;
                i0 \<leftarrow> get_at buffer 12; i1 \<leftarrow> get_at buffer 13; i2 \<leftarrow> get_at buffer 14; i3 \<leftarrow> get_at buffer 15;
                i4 \<leftarrow> get_at buffer 16; i5 \<leftarrow> get_at buffer 17; i6 \<leftarrow> get_at buffer 18; i7 \<leftarrow> get_at buffer 19;
                t \<leftarrow> lengths_total (from_le_bytes [m0, m1]) (from_le_bytes [p0, p1, p2, p3]);
                Some (from_le_bytes [i0, i1, i2, i3, i4, i5, i6, i7], t) })"

definition byte_or_zero :: "bytes \<Rightarrow> usize \<Rightarrow> u8" where
  "byte_or_zero buffer n = (case get_at buffer n of Some b \<Rightarrow> b | None \<Rightarrow> 0)"

definition test_frame_total_len :: "bytes \<Rightarrow> usize" where
  "test_frame_total_len buffer =
     (if length buffer < HEADER_LENGTH then length buffer
      else (case lengths_total (from_le_bytes [byte_or_zero buffer 6, byte_or_zero buffer 7])
                   (from_le_bytes [byte_or_zero buffer 8, byte_or_zero buffer 9, byte_or_zero buffer 10,
                      byte_or_zero buffer 11]) of
              Some t \<Rightarrow> t
            | None \<Rightarrow> length buffer))"

definition drain_bytes :: "bytes \<Rightarrow> usize \<Rightarrow> bytes" where
  "drain_bytes buffer amount = drop (min amount (length buffer)) buffer"

text \<open>Writing to the peer's side of the stream; \<open>wr\<close> and \<open>fl\<close> are the stream's \<open>write_all\<close> and \<open>flush\<close>.\<close>

primrec write_bytewise :: "('s \<Rightarrow> bytes \<Rightarrow> (io_error + unit) \<times> 's) \<Rightarrow> bytes \<Rightarrow> 's \<Rightarrow> (io_error + unit) \<times> 's" where
  "write_bytewise wr [] s = (Inr (), s)"
| "write_bytewise wr (b # bs) s =
     (case wr s [b] of (Inl e, s') \<Rightarrow> (Inl e, s') | (Inr _, s') \<Rightarrow> write_bytewise wr bs s')"

definition write_peer_bytes ::
  "('s \<Rightarrow> bytes \<Rightarrow> (io_error + unit) \<times> 's) \<Rightarrow> ('s \<Rightarrow> (io_error + unit) \<times> 's) \<Rightarrow> bytes \<Rightarrow> bool \<Rightarrow> 's \<Rightarrow>
   (io_error + unit) \<times> 's" where
  "write_peer_bytes wr fl bs bytewise s =
     (case (if bytewise then write_bytewise wr bs s else wr s bs) of
        (Inl e, s') \<Rightarrow> (Inl e, s')
      | (Inr _, s') \<Rightarrow> fl s')"

section \<open>The callers\<close>

text \<open>\<open>execute\<close> up to the point where it waits for room in the submit channel.\<close>

definition test_execute :: "bytes \<Rightarrow> channel \<Rightarrow> test_dispatcher \<Rightarrow> test_dispatcher" where
  "test_execute payload c d =
     (case allocate (td_allocator d) of
        (i, a) \<Rightarrow>
          let d = d\<lparr>td_allocator := a\<rparr> in
          if td_state d \<noteq> Session_Usable then test_send c (Inl Request_Unusable) d
          else (case registry_insert (td_live d) i of
                  Inl _ \<Rightarrow> test_send c (Inl Request_Unusable) d
                | Inr l \<Rightarrow>
                    d\<lparr>td_live := l,
                      td_sending := td_sending d @
                        [\<lparr>ts_id = i, ts_bytes = encode_test_request i payload, ts_completion = c\<rparr>]\<rparr>))"

text \<open>
  \<open>submit_and_abandon\<close> up to the same point.  Once there is room it returns the identifier and drops the
  receiver; what the task sends to the channel afterwards reaches nobody, which it does not notice.
\<close>

definition submit_and_abandon :: "bytes \<Rightarrow> channel \<Rightarrow> test_dispatcher \<Rightarrow> test_dispatcher" where
  "submit_and_abandon payload c d =
     (case allocate (td_allocator d) of
        (i, a) \<Rightarrow>
          let d = d\<lparr>td_allocator := a\<rparr> in
          if td_state d \<noteq> Session_Usable then test_send c (Inl Request_Unusable) d
          else (case registry_insert (td_live d) i of
                  Inl _ \<Rightarrow> test_send c (Inl Request_Unusable) d
                | Inr l \<Rightarrow>
                    d\<lparr>td_live := l,
                      td_sending := td_sending d @
                        [\<lparr>ts_id = i, ts_bytes = encode_test_request i payload, ts_completion = c\<rparr>]\<rparr>))"

text \<open>The end of that wait: there is room, or the receiver is gone.\<close>

definition test_submitted :: "nat \<Rightarrow> test_dispatcher \<Rightarrow> test_dispatcher option" where
  "test_submitted k d =
     (if k < length (td_sending d)
      then let sub = td_sending d ! k;
               d1 = d\<lparr>td_sending := take k (td_sending d) @ drop (Suc k) (td_sending d)\<rparr>
           in if \<not> td_running d then Some (test_send (ts_completion sub) (Inl Request_Closed) (test_retire (ts_id sub) d1))
              else if length (td_queue d) < SUBMIT_CAPACITY then Some (d1\<lparr>td_queue := td_queue d @ [sub]\<rparr>)
              else None
      else None)"

section \<open>The driver task\<close>

primrec test_fail_ids :: "u64 list \<Rightarrow> request_error \<Rightarrow> test_dispatcher \<Rightarrow> test_dispatcher" where
  "test_fail_ids [] e d = d"
| "test_fail_ids (i # is) e d =
     (let d = (case map_of (td_completions d) i of
                 Some sender \<Rightarrow> test_send sender (Inl e) (d\<lparr>td_completions := AList.delete i (td_completions d)\<rparr>)
               | None \<Rightarrow> d)
      in test_fail_ids is e (test_retire i d))"

definition test_fail_all :: "request_error \<Rightarrow> test_dispatcher \<Rightarrow> test_dispatcher" where
  "test_fail_all e d =
     test_fail_ids (map fst (td_completions d)) e
       (d\<lparr>td_state := case e of Request_Unusable \<Rightarrow> Session_Unusable | _ \<Rightarrow> Session_Closed\<rparr>)"

datatype read_outcome = NeedMore | Read_Fatal | Read_Closed

lemma lengths_total_long: "lengths_total m p = Some n \<Longrightarrow> 20 \<le> n"
  by (auto simp: lengths_total_def HEADER_LENGTH_def bind_eq_Some_conv checked_simps)

lemma test_frame_total_len_eq:
  assumes "raw_header_parse b = Some raw"
  shows "test_frame_total_len b = frame_len raw"
proof -
  have "20 \<le> length b" using assms by (rule parsed_long)
  then show ?thesis
    using frame_total_len_eq [OF assms]
    by (simp add: frame_total_len_def test_frame_total_len_def lengths_total_def byte_or_zero_def get_at_def
        HEADER_LENGTH_def)
qed

lemma test_frame_drained:
  assumes "decode b adm = Frame f"
  shows "drain_bytes b (test_frame_total_len b) = drop (frame_total f) b" "20 \<le> frame_total f" "frame_total f \<le> length b"
proof -
  obtain raw where raw: "raw_header_parse b = Some raw" "frame_len raw \<le> length b"
    using assms unfolding decode_Frame_iff by blast
  have t: "frame_total f = frame_len raw" using frame_total_decoded [OF assms raw(1)] .
  show "drain_bytes b (test_frame_total_len b) = drop (frame_total f) b"
    using test_frame_total_len_eq [OF raw(1)] raw(2) t by (simp add: drain_bytes_def)
  show "20 \<le> frame_total f" "frame_total f \<le> length b" using raw(2) t by (simp_all add: frame_len_def)
qed

function test_drain_frames :: "test_dispatcher \<Rightarrow> read_outcome \<times> test_dispatcher" where
  "test_drain_frames d =
     (case decode (td_buffer d) (client_admission PRE_NEGOTIATION (live_ids (td_live d))) of
        Need _ \<Rightarrow> (NeedMore, d)
      | Frame f \<Rightarrow>
          (let retiring = request_id_value (hdr_request_id (frm_header f));
               amount = test_frame_total_len (td_buffer d);
               payload = (case frm_payload f of Opaque b \<Rightarrow> b | _ \<Rightarrow> []);
               d1 = d\<lparr>td_buffer := drain_bytes (td_buffer d) amount\<rparr>;
               sender = map_of (td_completions d1) retiring;
               d2 = test_retire retiring (d1\<lparr>td_completions := AList.delete retiring (td_completions d1)\<rparr>)
           in case sender of
                Some c \<Rightarrow> test_drain_frames (test_send c (Inr \<lparr>tm_payload = payload\<rparr>) d2)
              | None \<Rightarrow> (Read_Fatal, test_fail_all Request_Unusable d2))
      | Failure _ _ \<Rightarrow> (Read_Fatal, test_fail_all Request_Unusable d))"
  by pat_completeness auto
termination
proof (relation "measure (\<lambda>d. length (td_buffer d))", goal_cases)
  case (2 d f i amount payload d1 sender d2 c)
  note f = test_frame_drained [OF 2(1)]
  have "td_buffer d2 = drop (frame_total f) (td_buffer d)"
    using 2(2-7) by (simp add: test_retire_def f(1))
  then show ?case using f(2,3) by (simp add: test_send_def)
qed simp

declare test_drain_frames.simps [simp del]

definition handle_read :: "io_error + bytes \<Rightarrow> test_dispatcher \<Rightarrow> read_outcome \<times> test_dispatcher" where
  "handle_read r d =
     (case r of
        Inr chunk \<Rightarrow>
          if chunk = [] then
            (Read_Closed, if td_completions d = [] then d else test_fail_all Request_Transport d)
          else test_drain_frames (d\<lparr>td_buffer := td_buffer d @ chunk\<rparr>)
      | Inl _ \<Rightarrow> (Read_Closed, if td_completions d = [] then d else test_fail_all Request_Transport d))"

definition handle_submit ::
  "io_error + unit \<Rightarrow> io_error + unit \<Rightarrow> test_submit \<Rightarrow> test_dispatcher \<Rightarrow> (request_error + unit) \<times> test_dispatcher" where
  "handle_submit written flushed sub d =
     (let d = d\<lparr>td_completions := AList.update (ts_id sub) (ts_completion sub) (td_completions d)\<rparr> in
      if \<not> is_ok written \<or> \<not> is_ok flushed
      then (Inl Request_Transport, test_fail_all Request_Transport d)
      else (Inr (), d\<lparr>td_written := td_written d @ ts_bytes sub\<rparr>))"

text \<open>The task ends: what it owns is dropped, with the submissions still in its channel.\<close>

definition drop_task :: "test_dispatcher \<Rightarrow> test_dispatcher" where
  "drop_task d =
     d\<lparr>td_running := False, td_queue := [], td_completions := [],
       td_log := td_log d @ map (\<lambda>(i, c). (c, Inl Request_Closed)) (td_completions d) @
         map (\<lambda>s. (ts_completion s, Inl Request_Closed)) (td_queue d)\<rparr>"

definition break_loop :: "test_dispatcher \<Rightarrow> test_dispatcher" where
  "break_loop d = drop_task (if td_completions d \<noteq> [] then test_fail_all Request_Closed d else d)"

definition test_loop_end :: "test_dispatcher \<Rightarrow> test_dispatcher" where
  "test_loop_end d = (if td_submit_closed d \<and> td_completions d = [] then break_loop d else d)"

definition receive_submit :: "io_error + unit \<Rightarrow> io_error + unit \<Rightarrow> test_dispatcher \<Rightarrow> test_dispatcher option" where
  "receive_submit written flushed d =
     (if td_submit_closed d then None
      else (case td_queue d of
              [] \<Rightarrow> None
            | sub # rest \<Rightarrow>
                (case handle_submit written flushed sub (d\<lparr>td_queue := rest\<rparr>) of
                   (Inl _, d) \<Rightarrow> Some (break_loop d)
                 | (Inr _, d) \<Rightarrow> Some (test_loop_end d))))"

definition receive_closed :: "test_dispatcher \<Rightarrow> test_dispatcher option" where
  "receive_closed d =
     (if td_submit_closed d \<or> td_senders d \<or> td_queue d \<noteq> [] then None
      else let d = d\<lparr>td_submit_closed := True\<rparr>
           in if td_completions d = [] then Some (break_loop d) else Some (test_loop_end d))"

definition receive_bytes :: "io_error + bytes \<Rightarrow> test_dispatcher \<Rightarrow> test_dispatcher" where
  "receive_bytes r d =
     (case handle_read r d of
        (NeedMore, d) \<Rightarrow> test_loop_end d
      | (Read_Fatal, d) \<Rightarrow> drop_task d
      | (Read_Closed, d) \<Rightarrow> break_loop d)"

section \<open>The handle\<close>

definition test_join :: "test_dispatcher \<Rightarrow> test_dispatcher" where
  "test_join d = d\<lparr>td_handle := False\<rparr>"

definition test_drop :: "test_dispatcher \<Rightarrow> test_dispatcher option" where
  "test_drop d =
     (if td_sending d \<noteq> [] then None
      else let aborted = (if td_handle d \<and> td_running d then drop_task d else d)
           in Some (aborted\<lparr>td_handle := False, td_senders := False\<rparr>))"

section \<open>Runs\<close>

datatype test_event =
    Te_Execute bytes channel
  | Te_Abandon bytes channel
  | Te_Submitted nat
  | Te_Receive "io_error + unit" "io_error + unit"
  | Te_Receive_Closed
  | Te_Read "io_error + bytes"
  | Te_Join
  | Te_Drop

definition test_step :: "test_event \<Rightarrow> test_dispatcher \<Rightarrow> test_dispatcher option" where
  "test_step ev d =
     (case ev of
        Te_Execute payload c \<Rightarrow> if td_senders d then Some (test_execute payload c d) else None
      | Te_Abandon payload c \<Rightarrow> if td_senders d then Some (submit_and_abandon payload c d) else None
      | Te_Submitted k \<Rightarrow> test_submitted k d
      | Te_Receive written flushed \<Rightarrow> if td_running d then receive_submit written flushed d else None
      | Te_Receive_Closed \<Rightarrow> if td_running d then receive_closed d else None
      | Te_Read r \<Rightarrow> if td_running d then Some (receive_bytes r d) else None
      | Te_Join \<Rightarrow> if td_senders d then Some (test_join d) else None
      | Te_Drop \<Rightarrow> if td_senders d then test_drop d else None)"

primrec test_run :: "test_event list \<Rightarrow> test_dispatcher \<Rightarrow> test_dispatcher option" where
  "test_run [] d = Some d"
| "test_run (ev # evs) d = (case test_step ev d of Some d' \<Rightarrow> test_run evs d' | None \<Rightarrow> None)"

interpretation tst: event_system test_step test_run
  by unfold_locales simp_all

end
