(* ===== verification/Test_Dispatcher_Laws.thy ===== *)
theory Test_Dispatcher_Laws
  imports Test_Dispatcher
begin

text \<open>
  What the dispatcher of the multiplexing tests shows about the driver it stands for, and what holds
  of it by itself.  On the same session its dispatch loop resolves the same callers as the driver's,
  as long as no failure is scoped to one request.  Over every interleaving of callers and
  driver, each call is resolved once, and while the driver runs the live identifiers are exactly those
  of the calls in progress.
\<close>

section \<open>Agreement with the driver\<close>

definition opaque_payload :: "frame \<Rightarrow> bytes" where
  "opaque_payload f = (case frm_payload f of Opaque b \<Rightarrow> b | _ \<Rightarrow> [])"

text \<open>The payload in the bytes of an answer the driver delivers.\<close>

definition payload_in :: "bytes \<Rightarrow> bytes" where
  "payload_in fb =
     (case header_request_id fb of
        None \<Rightarrow> []
      | Some i \<Rightarrow>
          (case decode fb (client_admission PRE_NEGOTIATION [i]) of Frame f \<Rightarrow> opaque_payload f | _ \<Rightarrow> []))"

definition test_outcome :: "outcome \<Rightarrow> request_error + test_terminal" where
  "test_outcome r = (case r of Inr fb \<Rightarrow> Inr \<lparr>tm_payload = payload_in fb\<rparr> | Inl _ \<Rightarrow> Inl Request_Unusable)"

definition mirrors :: "test_dispatcher \<Rightarrow> session \<Rightarrow> bool" where
  "mirrors d s \<longleftrightarrow>
     td_buffer d = ses_buffer s \<and> td_completions d = ses_completions s \<and> td_live d = ses_live s"

text \<open>The dispatcher after the driver's session went to \<open>s\<close> and resolved the channels of \<open>new\<close>.\<close>

definition follow :: "test_dispatcher \<Rightarrow> session \<Rightarrow> (channel \<times> outcome) list \<Rightarrow> test_dispatcher" where
  "follow d s new =
     d\<lparr>td_buffer := ses_buffer s, td_completions := ses_completions s, td_live := ses_live s,
       td_log := td_log d @ map (\<lambda>(c, r). (c, test_outcome r)) new\<rparr>"

lemma follow_Nil: "mirrors d s \<Longrightarrow> follow d s [] = d"
  by (cases d) (simp add: mirrors_def follow_def)

lemma payload_in_delivered:
  assumes f: "decode b (client_admission PRE_NEGOTIATION ids) = Frame f"
    and i: "request_id_value (hdr_request_id (frm_header f)) = i" "i \<in> set ids"
  shows "payload_in (take (frame_total f) b) = opaque_payload f"
proof -
  let ?fb = "take (frame_total f) b"
  have d: "decode ?fb (client_admission PRE_NEGOTIATION [i]) = Frame f"
    using decode_own_id [OF decode_take [OF f]] i by (simp add: client_admission_def)
  then obtain raw where raw: "raw_header_parse ?fb = Some raw"
    and ref: "header_refusal raw PRE_NEGOTIATION = None"
    and v: "frame_verdict raw (take (frame_len raw) ?fb) (client_admission PRE_NEGOTIATION [i]) = Inr f"
    unfolding decode_Frame_iff by (auto simp: client_admission_def)
  obtain k where "kind_from_wire (raw_kind raw) = Some k" using ref by (rule header_refusal_None)
  with v have "raw_request_id raw = i" using i(1) by (auto elim!: frame_verdict_OkE)
  with header_request_id_eq [OF raw] d show ?thesis by (simp add: payload_in_def)
qed

lemma verdict_decode:
  "verdict_of lim ids b = Wait \<Longrightarrow> \<exists>n. decode b (client_admission lim ids) = Need n"
  "verdict_of lim ids b = Fatal x \<Longrightarrow> \<exists>n. decode b (client_admission lim ids) = Failure x n"
  "verdict_of lim ids b = Deliver i (Inl e) n \<Longrightarrow> \<exists>x. decode b (client_admission lim ids) = Failure x n"
  "verdict_of lim ids b = Deliver i (Inr fb) n \<Longrightarrow>
     \<exists>f. decode b (client_admission lim ids) = Frame f \<and> request_id_value (hdr_request_id (frm_header f)) = i \<and>
         fb = take (frame_total f) b \<and> n = frame_total f"
  by (auto simp: verdict_of_def split: step.splits if_splits)

lemma test_drain_failure:
  "decode (td_buffer d) (client_admission PRE_NEGOTIATION (live_ids (td_live d))) = Failure x n \<Longrightarrow>
   test_drain_frames d = (Read_Fatal, test_fail_all Request_Unusable d)"
  by (subst test_drain_frames.simps) simp

text \<open>The dispatcher after one frame was delivered.\<close>

definition delivered :: "frame \<Rightarrow> channel \<Rightarrow> test_dispatcher \<Rightarrow> test_dispatcher" where
  "delivered f c d =
     (let i = request_id_value (hdr_request_id (frm_header f))
      in test_send c (Inr \<lparr>tm_payload = opaque_payload f\<rparr>)
           (test_retire i (d\<lparr>td_buffer := drop (frame_total f) (td_buffer d),
              td_completions := AList.delete i (td_completions d)\<rparr>)))"

lemma test_drain_frame:
  assumes "decode (td_buffer d) (client_admission PRE_NEGOTIATION (live_ids (td_live d))) = Frame f"
  defines "i \<equiv> request_id_value (hdr_request_id (frm_header f))"
  defines "d2 \<equiv> test_retire i (d\<lparr>td_buffer := drop (frame_total f) (td_buffer d),
      td_completions := AList.delete i (td_completions d)\<rparr>)"
  shows "test_drain_frames d =
    (case map_of (td_completions d) i of
       Some c \<Rightarrow> test_drain_frames (delivered f c d)
     | None \<Rightarrow> (Read_Fatal, test_fail_all Request_Unusable d2))"
  using assms(1) test_frame_drained(1) [OF assms(1)]
  by (subst test_drain_frames.simps) (simp add: i_def d2_def delivered_def opaque_payload_def Let_def split: option.split)

lemma test_drain_induct:
  assumes "\<And>d. (\<And>f c. decode (td_buffer d) (client_admission PRE_NEGOTIATION (live_ids (td_live d))) = Frame f \<Longrightarrow>
      map_of (td_completions d) (request_id_value (hdr_request_id (frm_header f))) = Some c \<Longrightarrow> P (delivered f c d)) \<Longrightarrow> P d"
  shows "P d"
proof (induction "length (td_buffer d)" arbitrary: d rule: less_induct)
  case less
  show ?case
  proof (rule assms)
    fix f c
    assume "decode (td_buffer d) (client_admission PRE_NEGOTIATION (live_ids (td_live d))) = Frame f"
    from test_frame_drained(2,3) [OF this] show "P (delivered f c d)"
      by (intro less) (simp add: delivered_def test_send_def test_retire_def Let_def)
  qed
qed

text \<open>Removing a caller that is not there changes nothing.\<close>

lemma test_forget_absent:
  assumes "mirrors d s" "session_inv s" "map_of (ses_completions s) i = None"
  shows "test_retire i (d\<lparr>td_buffer := b, td_completions := AList.delete i (td_completions d)\<rparr>) = d\<lparr>td_buffer := b\<rparr>"
proof -
  have i: "i \<notin> fst ` set (ses_completions s)" using assms(3) by (simp add: map_of_eq_None_iff)
  then have "i \<notin> set (live (ses_live s))" using assms(2) by (simp add: session_inv_def live_ids_def)
  with i assms(1) show ?thesis
    by (cases d) (simp add: test_retire_def mirrors_def registry_retire_def remove1_idem)
qed

lemma test_drain_unknown:
  assumes "session_inv s" "mirrors d s"
    and v: "verdict_of PRE_NEGOTIATION (live_ids (ses_live s)) (ses_buffer s) = Deliver i r n"
    and c: "map_of (ses_completions s) i = None"
  shows "\<exists>b. test_drain_frames d = (Read_Fatal, test_fail_all Request_Unusable (d\<lparr>td_buffer := b\<rparr>))"
proof (cases r)
  case (Inl e)
  then obtain y where "decode (td_buffer d) (client_admission PRE_NEGOTIATION (live_ids (td_live d))) = Failure y n"
    using verdict_decode(3) v assms(2) unfolding mirrors_def by metis
  then show ?thesis by (intro exI [of _ "td_buffer d"]) (simp add: test_drain_failure)
next
  case (Inr fb)
  then obtain f where f: "decode (td_buffer d) (client_admission PRE_NEGOTIATION (live_ids (td_live d))) = Frame f"
    "request_id_value (hdr_request_id (frm_header f)) = i"
    using verdict_decode(4) v assms(2) unfolding mirrors_def by metis
  then show ?thesis
    using test_forget_absent [OF assms(2,1) c] c assms(2)
    by (intro exI [of _ "drop (frame_total f) (td_buffer d)"]) (simp add: test_drain_frame mirrors_def)
qed

lemma test_drain_deliver:
  assumes "session_inv s" "mirrors d s"
    and v: "verdict_of PRE_NEGOTIATION (live_ids (ses_live s)) (ses_buffer s) = Deliver i (Inr fb) n"
    and c: "map_of (ses_completions s) i = Some c"
  obtains f where "test_drain_frames d = test_drain_frames (delivered f c d)"
    "mirrors (delivered f c d) (resolve i c (Inr fb) (keep (drop n (ses_buffer s)) s))"
    "\<And>s' later. follow (delivered f c d) s' later = follow d s' ((c, Inr fb) # later)"
proof -
  note m = assms(2) [unfolded mirrors_def]
  obtain f where f: "decode (td_buffer d) (client_admission PRE_NEGOTIATION (live_ids (td_live d))) = Frame f"
    "request_id_value (hdr_request_id (frm_header f)) = i" "fb = take (frame_total f) (td_buffer d)" "n = frame_total f"
    using verdict_decode(4) v m by metis
  have "i \<in> set (live_ids (td_live d))"
    using assms(1) m map_of_SomeD [OF c] by (force simp: session_inv_def)
  then have p: "payload_in fb = opaque_payload f" using payload_in_delivered [OF f(1,2)] f(3) by simp
  show thesis
  proof
    show "test_drain_frames d = test_drain_frames (delivered f c d)"
      using test_drain_frame [OF f(1)] f(2) c m by simp
    show "mirrors (delivered f c d) (resolve i c (Inr fb) (keep (drop n (ses_buffer s)) s))"
      using m f(2,4) by (simp add: delivered_def mirrors_def session_simps test_send_def test_retire_def)
    show "follow (delivered f c d) s' later = follow d s' ((c, Inr fb) # later)" for s' later
      by (cases d) (simp add: delivered_def follow_def p test_outcome_def test_send_def test_retire_def Let_def)
  qed
qed

lemma test_drain_agrees:
  assumes "session_inv s" "mirrors d s" "drain_frames PRE_NEGOTIATION s = (x, s')"
    and "ses_log s' = ses_log s @ new" "list_all (\<lambda>(c, r). is_ok r) new"
  shows "\<exists>b. test_drain_frames d =
    (case x of
       None \<Rightarrow> (NeedMore, follow d s' new)
     | Some _ \<Rightarrow> (Read_Fatal, test_fail_all Request_Unusable ((follow d s' new)\<lparr>td_buffer := b\<rparr>)))"
  using assms
proof (induction s arbitrary: d new rule: drain_induct [where lim = PRE_NEGOTIATION])
  case (1 s)
  note m = 1(3) [unfolded mirrors_def]
  from 1(4) show ?case
  proof (cases rule: drain_cases)
    case wait
    then obtain n where "decode (td_buffer d) (client_admission PRE_NEGOTIATION (live_ids (td_live d))) = Need n"
      using verdict_decode(1) m by metis
    moreover have "new = []" using wait 1(5) by simp
    ultimately show ?thesis
      using wait follow_Nil [OF 1(3)] by (subst test_drain_frames.simps) simp
  next
    case (fatal y)
    then obtain n where "decode (td_buffer d) (client_admission PRE_NEGOTIATION (live_ids (td_live d))) = Failure y n"
      using verdict_decode(2) m by metis
    moreover have "new = []" using fatal 1(5) by simp
    moreover have "d\<lparr>td_buffer := td_buffer d\<rparr> = d" by simp
    ultimately show ?thesis
      using fatal follow_Nil [OF 1(3)] by (intro exI [of _ "td_buffer d"]) (simp add: test_drain_failure)
  next
    case (unknown i r n)
    then have "new = []" using 1(5) by (simp add: session_simps)
    then have "(follow d s' new)\<lparr>td_buffer := b\<rparr> = d\<lparr>td_buffer := b\<rparr>" for b
      using m unknown(4) by (cases d) (simp add: follow_def session_simps)
    then show ?thesis using test_drain_unknown [OF 1(2,3) unknown(1,2)] unknown(3) by simp
  next
    case (deliver i r n c)
    let ?s = "resolve i c r (keep (drop n (ses_buffer s)) s)"
    have inv: "session_inv ?s" using deliver 1(2) by (simp add: session_inv_resolve session_simps)
    then obtain later where later: "ses_log s' = ses_log ?s @ later"
      using drain_invariant [OF _ deliver(3)] by blast
    then have new: "new = (c, r) # later" using 1(5) by (simp add: session_simps)
    then obtain fb where fb: "r = Inr fb" using 1(6) by (cases r) (simp_all add: is_ok_def)
    obtain f where f: "test_drain_frames d = test_drain_frames (delivered f c d)" "mirrors (delivered f c d) ?s"
      "follow (delivered f c d) s' later = follow d s' new"
      using test_drain_deliver [OF 1(2,3) deliver(1,2) [unfolded fb]] fb new by metis
    have "list_all (\<lambda>(c, r). is_ok r) later" using 1(6) new by simp
    from 1(1) [OF deliver(1,2) inv f(2) deliver(3) later this] show ?thesis unfolding f(1,3) .
  qed
qed

text \<open>A failure scoped to one request ends the session of the test dispatcher.\<close>

lemma test_request_failure_fatal:
  assumes "mirrors d s" "verdict_of PRE_NEGOTIATION (live_ids (ses_live s)) (ses_buffer s) = Deliver i (Inl e) n"
  shows "test_drain_frames d = (Read_Fatal, test_fail_all Request_Unusable d)"
  using verdict_decode(3) [OF assms(2)] assms(1) test_drain_failure unfolding mirrors_def by metis

section \<open>The peer's side\<close>

text \<open>The header peek of the scripted peer reads what the decoder's header parser reads.\<close>

lemma test_header_request_id_eq:
  "test_header_request_id b = map_option (\<lambda>raw. (raw_request_id raw, frame_len raw)) (raw_header_parse b)"
proof (cases "raw_header_parse b")
  case None
  then show ?thesis by (simp add: raw_header_parse_None test_header_request_id_def HEADER_LENGTH_def)
next
  case (Some raw)
  then have len: "20 \<le> length b" by (rule parsed_long)
  have "drop 12 b = b ! 12 # b ! 13 # b ! 14 # b ! 15 # b ! 16 # b ! 17 # b ! 18 # b ! 19 # drop 20 b"
    using len Cons_nth_drop_Suc [of 12 b] Cons_nth_drop_Suc [of 13 b] Cons_nth_drop_Suc [of 14 b]
      Cons_nth_drop_Suc [of 15 b] Cons_nth_drop_Suc [of 16 b] Cons_nth_drop_Suc [of 17 b]
      Cons_nth_drop_Suc [of 18 b] Cons_nth_drop_Suc [of 19 b] by simp
  then have i: "raw_request_id raw = from_le_bytes [b ! 12, b ! 13, b ! 14, b ! 15, b ! 16, b ! 17, b ! 18, b ! 19]"
    using Some by (auto simp: raw_header_parse_Some)
  show ?thesis
    using len Some i frame_total_len_eq [OF Some]
    by (simp add: test_header_request_id_def frame_total_len_def lengths_total_def get_at_def HEADER_LENGTH_def
        bind_eq_Some_conv)
qed

text \<open>Writing one byte at a time puts the same bytes on the stream.\<close>

lemma write_bytewise_appends: "write_bytewise (\<lambda>s bs. (Inr (), s @ bs)) bs s = (Inr (), s @ bs)"
  by (induction bs arbitrary: s) simp_all

lemma write_peer_bytes_appends:
  "write_peer_bytes (\<lambda>s bs. (Inr (), s @ bs)) (\<lambda>s. (Inr (), s)) bs bytewise s = (Inr (), s @ bs)"
  by (simp add: write_peer_bytes_def write_bytewise_appends)

section \<open>Every call is resolved once\<close>

text \<open>The calls that were admitted and not yet resolved: identifier and channel of each.\<close>

definition calls_open :: "test_dispatcher \<Rightarrow> (u64 \<times> channel) list" where
  "calls_open d = map (\<lambda>s. (ts_id s, ts_completion s)) (td_sending d @ td_queue d) @ td_completions d"

definition accounted :: "test_dispatcher \<Rightarrow> channel multiset" where
  "accounted d = mset (map snd (calls_open d)) + mset (map fst (td_log d))"

definition calls_exact :: "test_dispatcher \<Rightarrow> bool" where
  "calls_exact d \<longleftrightarrow>
     registry_inv (td_live d) \<and> distinct (map fst (calls_open d)) \<and>
     set (live_ids (td_live d)) = fst ` set (calls_open d)"

definition test_inv :: "test_dispatcher \<Rightarrow> bool" where
  "test_inv d \<longleftrightarrow>
     (if td_running d then calls_exact d
      else registry_inv (td_live d) \<and> td_queue d = [] \<and> td_completions d = [])"

fun calls_made :: "test_event list \<Rightarrow> channel list" where
  "calls_made [] = []"
| "calls_made (Te_Execute payload c # evs) = c # calls_made evs"
| "calls_made (Te_Abandon payload c # evs) = c # calls_made evs"
| "calls_made (_ # evs) = calls_made evs"

lemmas test_ops = test_send_def test_retire_def

lemma calls_open_ids: "map fst (calls_open d) = map ts_id (td_sending d @ td_queue d) @ map fst (td_completions d)"
  by (simp add: calls_open_def comp_def)

lemma calls_exact_ids:
  "calls_exact d \<longleftrightarrow>
     registry_inv (td_live d) \<and>
     distinct (map ts_id (td_sending d @ td_queue d) @ map fst (td_completions d)) \<and>
     set (live_ids (td_live d)) = set (map ts_id (td_sending d @ td_queue d) @ map fst (td_completions d))"
  unfolding calls_exact_def calls_open_ids [symmetric] by simp

lemma calls_exact_mset:
  assumes "calls_exact d" "mset (calls_open d') = mset (calls_open d)" "td_live d' = td_live d"
  shows "calls_exact d'"
proof -
  have "mset (map fst (calls_open d')) = mset (map fst (calls_open d))" using assms(2) by simp
  then show ?thesis
    using assms mset_eq_imp_distinct_iff mset_eq_setD [OF assms(2)] by (metis calls_exact_def)
qed

text \<open>The fields that the account of the calls does not read.\<close>

lemma account_free [simp]:
  "test_inv (d\<lparr>td_allocator := a\<rparr>) = test_inv d" "accounted (d\<lparr>td_allocator := a\<rparr>) = accounted d"
  "test_inv (d\<lparr>td_handle := b\<rparr>) = test_inv d" "accounted (d\<lparr>td_handle := b\<rparr>) = accounted d"
  "test_inv (d\<lparr>td_senders := b\<rparr>) = test_inv d" "accounted (d\<lparr>td_senders := b\<rparr>) = accounted d"
  "calls_exact (d\<lparr>td_submit_closed := b\<rparr>) = calls_exact d" "accounted (d\<lparr>td_submit_closed := b\<rparr>) = accounted d"
  "calls_exact (d\<lparr>td_written := bs\<rparr>) = calls_exact d" "accounted (d\<lparr>td_written := bs\<rparr>) = accounted d"
  "calls_exact (d\<lparr>td_buffer := bs\<rparr>) = calls_exact d" "accounted (d\<lparr>td_buffer := bs\<rparr>) = accounted d"
  "test_inv (d\<lparr>td_log := es\<rparr>) = test_inv d"
  by (simp_all add: test_inv_def calls_exact_def accounted_def calls_open_def)

lemma test_fail_ids_eq:
  "distinct (map fst xs) \<Longrightarrow> td_completions d = xs \<Longrightarrow>
   test_fail_ids (map fst xs) e d =
     d\<lparr>td_completions := [], td_log := td_log d @ map (\<lambda>(i, c). (c, Inl e)) xs,
       td_live := fold (\<lambda>i r. snd (registry_retire r i)) (map fst xs) (td_live d)\<rparr>"
proof (induction xs arbitrary: d)
  case Nil
  then show ?case by (cases d) simp
next
  case (Cons x xs)
  obtain i c where x: "x = (i, c)" by (cases x)
  with Cons.prems have "AList.delete i (td_completions d) = xs" by simp
  with Cons.IH [of "test_retire i (test_send c (Inl e) (d\<lparr>td_completions := xs\<rparr>))"] Cons.prems x show ?case
    by (simp add: test_ops)
qed

lemma fold_retire_inv: "registry_inv r \<Longrightarrow> registry_inv (fold (\<lambda>i r. snd (registry_retire r i)) is r)"
  by (induction "is" arbitrary: r) (simp_all add: registry_retired)

lemma channels_of_failed: "map fst (map (\<lambda>(i, c). (c, Inl e :: request_error + test_terminal)) xs) = map snd xs"
  by (induction xs) auto

lemma fail_all_accounts:
  assumes "distinct (map fst (td_completions d))" "registry_inv (td_live d)"
  shows "accounted (test_fail_all e d) = accounted d" "registry_inv (td_live (test_fail_all e d))"
    "td_completions (test_fail_all e d) = []" "td_running (test_fail_all e d) = td_running d"
proof -
  let ?d = "d\<lparr>td_state := case e of Request_Unusable \<Rightarrow> Session_Unusable | _ \<Rightarrow> Session_Closed\<rparr>"
  have f: "test_fail_all e d =
      ?d\<lparr>td_completions := [], td_log := td_log d @ map (\<lambda>(i, c). (c, Inl e)) (td_completions d),
        td_live := fold (\<lambda>i r. snd (registry_retire r i)) (map fst (td_completions d)) (td_live d)\<rparr>"
    using test_fail_ids_eq [of "td_completions d" ?d e] assms(1) by (simp add: test_fail_all_def)
  show "accounted (test_fail_all e d) = accounted d"
    unfolding f by (simp add: accounted_def calls_open_def channels_of_failed del: map_map)
  show "registry_inv (td_live (test_fail_all e d))" "td_completions (test_fail_all e d) = []"
    "td_running (test_fail_all e d) = td_running d"
    unfolding f using fold_retire_inv [OF assms(2)] by simp_all
qed

lemma drop_task_ok:
  assumes "registry_inv (td_live d)"
  shows "test_inv (drop_task d)" "accounted (drop_task d) = accounted d"
  using assms by (simp_all add: test_inv_def drop_task_def accounted_def calls_open_def comp_def case_prod_unfold)

lemma break_loop_ok:
  assumes "registry_inv (td_live d)" "distinct (map fst (td_completions d))"
  shows "test_inv (break_loop d)" "accounted (break_loop d) = accounted d"
  using assms by (simp_all add: break_loop_def drop_task_ok fail_all_accounts)

lemma calls_exact_facts:
  "calls_exact d \<Longrightarrow> registry_inv (td_live d) \<and> distinct (map fst (td_completions d))"
  by (auto simp: calls_exact_def calls_open_def)

lemma delivered_ok:
  assumes "calls_exact d" "map_of (td_completions d) (request_id_value (hdr_request_id (frm_header f))) = Some c"
  shows "calls_exact (delivered f c d)" "accounted (delivered f c d) = accounted d"
proof -
  define i where "i = request_id_value (hdr_request_id (frm_header f))"
  note s = assms(2) [folded i_def]
  have c: "distinct (map fst (td_completions d))" using calls_exact_facts [OF assms(1)] by simp
  show "accounted (delivered f c d) = accounted d"
    using mset_delete [OF c s] by (simp add: delivered_def i_def [symmetric] accounted_def calls_open_def test_ops)
  have k: "i \<in> fst ` set (td_completions d)" using map_of_SomeD [OF s] by force
  have del: "fst ` set (AList.delete i (td_completions d)) = fst ` set (td_completions d) - {i}"
    by (simp only: set_map [symmetric] delete_keys set_removeAll)
  show "calls_exact (delivered f c d)"
    using assms(1) k del registry_retired [of "td_live d" i]
    by (auto simp: delivered_def i_def [symmetric] calls_exact_ids test_ops distinct_delete)
qed

lemma test_drain_ok:
  assumes "calls_exact d" "test_drain_frames d = (x, d')"
  shows "accounted d' = accounted d \<and> registry_inv (td_live d') \<and> td_running d' = td_running d \<and>
    (if x = NeedMore then calls_exact d' else td_completions d' = [])"
  using assms
proof (induction d rule: test_drain_induct)
  case (1 d)
  note r = calls_exact_facts [OF 1(2)]
  show ?case
  proof (cases "decode (td_buffer d) (client_admission PRE_NEGOTIATION (live_ids (td_live d)))")
    case (Need n)
    then show ?thesis using 1(2,3) r by (subst (asm) test_drain_frames.simps) simp
  next
    case (Failure y n)
    then show ?thesis using 1(3) test_drain_failure [OF Failure] fail_all_accounts r by auto
  next
    case (Frame f)
    let ?i = "request_id_value (hdr_request_id (frm_header f))"
    show ?thesis
    proof (cases "map_of (td_completions d) ?i")
      case None
      define d2 where "d2 = test_retire ?i (d\<lparr>td_buffer := drop (frame_total f) (td_buffer d),
        td_completions := AList.delete ?i (td_completions d)\<rparr>)"
      have "?i \<notin> fst ` set (td_completions d)" using None by (simp add: map_of_eq_None_iff)
      then have "registry_inv (td_live d2)" "accounted d2 = accounted d" "distinct (map fst (td_completions d2))"
        "td_running d2 = td_running d"
        using r registry_retired [of "td_live d" ?i]
        by (simp_all add: d2_def accounted_def calls_open_def test_ops)
      then show ?thesis
        using 1(3) test_drain_frame [OF Frame] None fail_all_accounts [of d2] by (auto simp: d2_def)
    next
      case (Some c)
      have "test_drain_frames (delivered f c d) = (x, d')" "td_running (delivered f c d) = td_running d"
        using 1(3) test_drain_frame [OF Frame] Some by (simp_all add: delivered_def test_ops Let_def)
      then show ?thesis using 1(1) [OF Frame Some] delivered_ok [OF 1(2) Some] by simp
    qed
  qed
qed

section \<open>Runs\<close>

lemma execute_ok:
  assumes "test_inv d"
  shows "test_inv (test_execute payload c d)" "accounted (test_execute payload c d) = add_mset c (accounted d)"
proof -
  obtain i a where a: "allocate (td_allocator d) = (i, a)" by (cases "allocate (td_allocator d)")
  have inv: "registry_inv (td_live d)" using assms by (auto simp: test_inv_def calls_exact_def split: if_splits)
  consider (refused) "test_execute payload c d = test_send c (Inl Request_Unusable) (d\<lparr>td_allocator := a\<rparr>)"
    | (admitted) l where "registry_insert (td_live d) i = Inr l"
        "test_execute payload c d = d\<lparr>td_allocator := a, td_live := l, td_sending := td_sending d @
           [\<lparr>ts_id = i, ts_bytes = encode_test_request i payload, ts_completion = c\<rparr>]\<rparr>"
    using a
    by (cases "registry_insert (td_live d) i"; cases "td_state d = Session_Usable") (auto simp: test_execute_def)
  then have "test_inv (test_execute payload c d) \<and> accounted (test_execute payload c d) = add_mset c (accounted d)"
  proof cases
    case refused
    then show ?thesis
      using assms by (simp add: test_send_def) (simp add: accounted_def calls_open_def)
  next
    case (admitted l)
    have l: "i \<noteq> 0" "i \<notin> set (live_ids (td_live d))" "registry_inv l"
      "set (live_ids l) = insert i (set (live_ids (td_live d)))"
      using reg.ins_ok [OF inv admitted(1)] by auto
    have "calls_exact (test_execute payload c d)" if "calls_exact d"
      using that l by (simp add: admitted(2) calls_exact_ids)
    moreover have "accounted (test_execute payload c d) = add_mset c (accounted d)"
      by (simp add: admitted(2) accounted_def calls_open_def)
    ultimately show ?thesis
      using assms l(3) by (cases "td_running d") (simp_all add: test_inv_def admitted(2))
  qed
  then show "test_inv (test_execute payload c d)" "accounted (test_execute payload c d) = add_mset c (accounted d)"
    by simp_all
qed

lemma submitted_ok:
  assumes "test_inv d" "test_submitted k d = Some d'"
  shows "test_inv d'" "accounted d' = accounted d"
proof -
  have k: "k < length (td_sending d)" using assms(2) by (simp add: test_submitted_def split: if_splits)
  define sub where "sub = td_sending d ! k"
  define rest where "rest = take k (td_sending d) @ drop (Suc k) (td_sending d)"
  have m: "mset (td_sending d) = add_mset sub (mset rest)"
    unfolding sub_def rest_def by (subst id_take_nth_drop [OF k]) simp
  then have c: "mset (map ts_completion (td_sending d)) = add_mset (ts_completion sub) (mset (map ts_completion rest))"
    by (metis image_mset_add_mset mset_map)
  consider (gone) "\<not> td_running d" "d' = test_send (ts_completion sub) (Inl Request_Closed)
        (test_retire (ts_id sub) (d\<lparr>td_sending := rest\<rparr>))"
    | (room) "td_running d" "d' = d\<lparr>td_sending := rest, td_queue := td_queue d @ [sub]\<rparr>"
    using assms(2) k by (auto simp: test_submitted_def Let_def sub_def rest_def split: if_splits)
  then have "test_inv d' \<and> accounted d' = accounted d"
  proof cases
    case gone
    then show ?thesis
      using assms(1) c registry_retired [of "td_live d" "ts_id sub"]
      by (simp add: test_inv_def accounted_def calls_open_def test_ops comp_def)
  next
    case room
    have e: "mset (calls_open d') = mset (calls_open d)"
      using room(2) m by (simp add: calls_open_def)
    then have "accounted d' = accounted d" using room(2) by (simp add: accounted_def)
    then show ?thesis
      using assms(1) room calls_exact_mset [OF _ e] by (simp add: test_inv_def)
  qed
  then show "test_inv d'" "accounted d' = accounted d" by simp_all
qed

lemma loop_end_ok:
  assumes "calls_exact d" "td_running d"
  shows "test_inv (test_loop_end d)" "accounted (test_loop_end d) = accounted d"
  using assms calls_exact_facts [OF assms(1)] break_loop_ok [of d] test_inv_def [of d]
  by (simp_all add: test_loop_end_def)

lemma receive_submit_ok:
  assumes "test_inv d" "td_running d" "receive_submit written flushed d = Some d'"
  shows "test_inv d'" "accounted d' = accounted d"
proof -
  obtain sub rest where q: "td_queue d = sub # rest"
    using assms(3) by (auto simp: receive_submit_def split: if_splits list.splits)
  define d1 where "d1 = d\<lparr>td_queue := rest, td_completions := td_completions d @ [(ts_id sub, ts_completion sub)]\<rparr>"
  have ex: "calls_exact d" using assms(1,2) by (simp add: test_inv_def)
  then have "ts_id sub \<notin> fst ` set (td_completions d)" using q by (auto simp: calls_exact_ids)
  then have h: "handle_submit written flushed sub (d\<lparr>td_queue := rest\<rparr>) =
      (if is_ok written \<and> is_ok flushed then (Inr (), d1\<lparr>td_written := td_written d @ ts_bytes sub\<rparr>)
       else (Inl Request_Transport, test_fail_all Request_Transport d1))"
    by (simp add: handle_submit_def update_fresh d1_def)
  have m: "mset (calls_open d1) = mset (calls_open d)" using q by (simp add: d1_def calls_open_def)
  have ex1: "calls_exact d1" using calls_exact_mset [OF ex m] by (simp add: d1_def)
  have a1: "accounted d1 = accounted d" using m by (simp add: accounted_def) (simp add: d1_def)
  note f = calls_exact_facts [OF ex1]
  have "test_inv d' \<and> accounted d' = accounted d"
  proof (cases "is_ok written \<and> is_ok flushed")
    case True
    let ?d = "d1\<lparr>td_written := td_written d @ ts_bytes sub\<rparr>"
    have "calls_exact ?d" "td_running ?d" "accounted ?d = accounted d"
      using ex1 a1 assms(2) by (simp_all add: d1_def)
    then show ?thesis
      using loop_end_ok [of ?d] assms(3) h q True by (auto simp: receive_submit_def split: if_splits)
  next
    case False
    have "d' = break_loop (test_fail_all Request_Transport d1)"
      using assms(3) h q False by (auto simp: receive_submit_def split: if_splits)
    then show ?thesis using fail_all_accounts [of d1] f a1 break_loop_ok by simp
  qed
  then show "test_inv d'" "accounted d' = accounted d" by simp_all
qed

lemma receive_closed_ok:
  assumes "test_inv d" "td_running d" "receive_closed d = Some d'"
  shows "test_inv d'" "accounted d' = accounted d"
proof -
  let ?d = "d\<lparr>td_submit_closed := True\<rparr>"
  have ex: "calls_exact ?d" using assms(1,2) by (simp add: test_inv_def)
  moreover have "accounted ?d = accounted d" by simp
  moreover have "d' = break_loop ?d \<or> d' = test_loop_end ?d"
    using assms(3) by (auto simp: receive_closed_def Let_def split: if_splits)
  ultimately show "test_inv d'" "accounted d' = accounted d"
    using loop_end_ok [OF ex] assms(2) break_loop_ok [of ?d] calls_exact_facts [OF ex] by auto
qed

lemma receive_bytes_ok:
  assumes "test_inv d" "td_running d"
  shows "test_inv (receive_bytes r d)" "accounted (receive_bytes r d) = accounted d"
proof -
  have ex: "calls_exact d" using assms by (simp add: test_inv_def)
  note f = calls_exact_facts [OF ex]
  have "test_inv (receive_bytes r d) \<and> accounted (receive_bytes r d) = accounted d"
  proof (cases "\<exists>chunk. r = Inr chunk \<and> chunk \<noteq> []")
    case True
    then obtain chunk where r: "r = Inr chunk" "chunk \<noteq> []" by blast
    let ?d = "d\<lparr>td_buffer := td_buffer d @ chunk\<rparr>"
    obtain x d' where x: "test_drain_frames ?d = (x, d')" by (cases "test_drain_frames ?d")
    have "calls_exact ?d" "accounted ?d = accounted d" "td_running ?d"
      using ex assms(2) by simp_all
    with test_drain_ok [OF _ x] show ?thesis
      using r x loop_end_ok [of d'] drop_task_ok [of d'] break_loop_ok [of d']
      by (cases x) (auto simp: receive_bytes_def handle_read_def)
  next
    case False
    then have "handle_read r d = (Read_Closed, if td_completions d = [] then d else test_fail_all Request_Transport d)"
      by (auto simp: handle_read_def split: sum.split)
    then show ?thesis
      using f fail_all_accounts [of d] break_loop_ok by (simp add: receive_bytes_def)
  qed
  then show "test_inv (receive_bytes r d)" "accounted (receive_bytes r d) = accounted d" by simp_all
qed

lemma handle_ok:
  assumes "test_inv d"
  shows "test_inv (test_join d)" "accounted (test_join d) = accounted d"
    and "test_drop d = Some d' \<Longrightarrow> test_inv d' \<and> accounted d' = accounted d"
proof -
  show "test_inv (test_join d)" "accounted (test_join d) = accounted d"
    using assms by (simp_all add: test_join_def)
  have "registry_inv (td_live d)" using assms by (auto simp: test_inv_def calls_exact_def split: if_splits)
  moreover assume "test_drop d = Some d'"
  ultimately show "test_inv d' \<and> accounted d' = accounted d"
    using assms drop_task_ok [of d] by (auto simp: test_drop_def Let_def split: if_splits)
qed

text \<open>An abandoned call changes the dispatcher as an awaited one does.\<close>

lemma abandon_like_execute: "submit_and_abandon payload c d = test_execute payload c d"
  by (simp add: submit_and_abandon_def test_execute_def)

lemma test_step_ok:
  assumes "test_inv d" "test_step ev d = Some d'"
  shows "test_inv d' \<and> accounted d' = accounted d + mset (calls_made [ev])"
proof (cases ev)
  case (Te_Abandon payload c)
  then show ?thesis using assms execute_ok abandon_like_execute by (auto simp: test_step_def split: if_splits)
next
  case (Te_Submitted k)
  then show ?thesis using assms submitted_ok by (simp add: test_step_def)
next
  case (Te_Receive written flushed)
  then show ?thesis using assms receive_submit_ok by (simp add: test_step_def split: if_splits)
next
  case Te_Receive_Closed
  then show ?thesis using assms receive_closed_ok by (simp add: test_step_def split: if_splits)
next
  case Te_Drop
  then show ?thesis using assms handle_ok(3) by (simp add: test_step_def split: if_splits)
qed (use assms execute_ok receive_bytes_ok handle_ok(1,2) in \<open>auto simp: test_step_def split: if_splits\<close>)

lemma calls_made_Cons: "calls_made (ev # evs) = calls_made [ev] @ calls_made evs"
  by (cases ev) simp_all

lemma test_run_ok:
  "test_inv d \<Longrightarrow> test_run evs d = Some d' \<Longrightarrow> test_inv d' \<and> accounted d' = accounted d + mset (calls_made evs)"
proof (induction evs arbitrary: d)
  case (Cons ev evs)
  then obtain d1 where "test_step ev d = Some d1" "test_run evs d1 = Some d'" by (auto split: option.splits)
  then show ?case
    using Cons.IH [of d1] test_step_ok [OF Cons.prems(1), of ev d1] by (subst calls_made_Cons) simp
qed simp

lemma new_ok [simp]: "test_inv test_dispatcher_new" "accounted test_dispatcher_new = {#}"
  by (simp_all add: test_inv_def test_dispatcher_new_def calls_exact_def calls_open_def accounted_def registry_new_def
      registry_inv_def live_ids_def)

lemma live_len_open: "calls_exact d \<Longrightarrow> live_len d = length (calls_open d)"
  using distinct_card [of "live_ids (td_live d)"] distinct_card [of "map fst (calls_open d)"]
  by (simp add: calls_exact_def live_len_def registry_len_def registry_inv_def live_ids_def)

section \<open>Properties\<close>

text \<open>
  C32: the dispatcher the multiplexing tests exercise does what the driver does.  On the buffered
  stream, the waiting callers and the live identifiers of any session, whenever the driver resolves
  callers with frames only, the test dispatcher resolves the same callers in the same order with the
  payloads of those frames, and goes on in the same session exactly when the driver does; when the
  driver ends the session, it fails every caller that is left.
\<close>

theorem test_dispatch_agrees:
  assumes "session_inv s" "mirrors d s" "drain_frames PRE_NEGOTIATION s = (x, s')"
    and "ses_log s' = ses_log s @ new" "list_all (\<lambda>(c, r). is_ok r) new"
  shows "\<exists>b. test_drain_frames d =
    (case x of
       None \<Rightarrow> (NeedMore, follow d s' new)
     | Some _ \<Rightarrow> (Read_Fatal, test_fail_all Request_Unusable ((follow d s' new)\<lparr>td_buffer := b\<rparr>)))"
  using assms by (rule test_drain_agrees)

definition sample_mirror :: test_dispatcher where
  "sample_mirror = test_dispatcher_new\<lparr>td_buffer := ses_buffer sample_waiting,
     td_completions := ses_completions sample_waiting, td_live := ses_live sample_waiting\<rparr>"

theorem test_dispatch_agrees_witness:
  "\<exists>d'. test_drain_frames sample_mirror = (NeedMore, d') \<and> map fst (td_log d') = [8, 7] \<and> live_len d' = 0"
proof -
  obtain s' where s': "drain_frames PRE_NEGOTIATION sample_waiting = (None, s')" "session_inv s'"
    "ses_log s' = ses_log sample_waiting @ [(8, Inr (sample_reply_bytes 3)), (7, Inr (sample_reply_bytes 2))]"
    "ses_completions s' = []"
    using dispatch_replies [OF sample_waiting_inv,
        of "[(sample_reply 3, sample_reply_bytes 3), (sample_reply 2, sample_reply_bytes 2)]" PRE_NEGOTIATION]
      sample_reply_answer [of 3] sample_reply_answer [of 2]
    by (auto simp: sample_waiting_def sample_reply_def)
  have "mirrors sample_mirror sample_waiting" by (simp add: mirrors_def sample_mirror_def)
  from test_dispatch_agrees [OF sample_waiting_inv this s'(1,3)]
  have "test_drain_frames sample_mirror =
      (NeedMore, follow sample_mirror s' [(8, Inr (sample_reply_bytes 3)), (7, Inr (sample_reply_bytes 2))])"
    by (simp add: is_ok_def)
  moreover have "live (ses_live s') = []" using s'(2,4) by (simp add: session_inv_def live_ids_def)
  ultimately show ?thesis
    by (simp add: follow_def sample_mirror_def test_dispatcher_new_def live_len_def registry_len_def)
qed

text \<open>
  Every call of the test dispatcher is accounted for.  After any interleaving of calls, of
  submissions, of the driver's arms, whatever the stream does, and of dropping the dispatcher, each
  call made is either open or resolved, once.  While the driver runs, the live identifiers are
  exactly those of the open calls; once it has ended and no caller is left at the channel, every call
  has been resolved.
\<close>

theorem test_calls_resolved_once:
  assumes "test_run evs test_dispatcher_new = Some d"
  shows "mset (calls_made evs) = mset (map snd (calls_open d)) + mset (map fst (td_log d)) \<and>
    (td_running d \<longrightarrow> live_len d = length (calls_open d) \<and> set (live_ids (td_live d)) = fst ` set (calls_open d)) \<and>
    (\<not> td_running d \<and> td_sending d = [] \<longrightarrow> mset (map fst (td_log d)) = mset (calls_made evs))"
proof -
  from test_run_ok [OF new_ok(1) assms] have i: "test_inv d" and a: "accounted d = mset (calls_made evs)" by simp_all
  have "calls_open d = []" if "\<not> td_running d" "td_sending d = []"
    using that i by (simp add: test_inv_def calls_open_def)
  moreover have "calls_exact d" if "td_running d" using that i by (simp add: test_inv_def)
  ultimately show ?thesis
    using a live_len_open [of d] by (intro conjI impI) (simp_all add: accounted_def calls_exact_def)
qed

text \<open>Two calls of which one is submitted and the other still queued when the stream ends.\<close>

definition sample_calls :: "test_event list" where
  "sample_calls =
     [Te_Execute [65] 0, Te_Execute [66] 1, Te_Submitted 0, Te_Submitted 0, Te_Receive (Inr ()) (Inr ()), Te_Read (Inr [])]"

definition sample_call :: "u64 \<Rightarrow> u8 \<Rightarrow> channel \<Rightarrow> test_submit" where
  "sample_call i b c = \<lparr>ts_id = i, ts_bytes = encode_test_request i [b], ts_completion = c\<rparr>"

definition sample_queued :: test_dispatcher where
  "sample_queued = test_dispatcher_new\<lparr>td_allocator := \<lparr>alloc_next = 3\<rparr>, td_live := \<lparr>live = [2, 1]\<rparr>,
     td_queue := [sample_call 1 65 0, sample_call 2 66 1]\<rparr>"

lemma sample_calls_queued:
  "test_run [Te_Execute [65] 0, Te_Execute [66] 1, Te_Submitted 0, Te_Submitted 0] test_dispatcher_new = Some sample_queued"
  by (simp add: test_step_def test_execute_def test_submitted_def allocate_def allocator_new_def registry_new_def
      registry_insert_def SUBMIT_CAPACITY_def test_dispatcher_new_def sample_queued_def sample_call_def)

lemma sample_calls_ended:
  "\<exists>d. test_run [Te_Receive (Inr ()) (Inr ()), Te_Read (Inr [])] sample_queued = Some d \<and>
     \<not> td_running d \<and> td_sending d = [] \<and> live_len d = 1"
  by (simp add: test_step_def sample_queued_def test_dispatcher_new_def receive_submit_def handle_submit_def is_ok_def
      test_loop_end_def receive_bytes_def handle_read_def test_fail_all_def test_send_def test_retire_def
      registry_retire_def break_loop_def drop_task_def live_len_def registry_len_def sample_call_def)

lemma sample_calls_run:
  "\<exists>d. test_run sample_calls test_dispatcher_new = Some d \<and> \<not> td_running d \<and> td_sending d = [] \<and> live_len d = 1"
proof -
  have "sample_calls = [Te_Execute [65] 0, Te_Execute [66] 1, Te_Submitted 0, Te_Submitted 0] @
      [Te_Receive (Inr ()) (Inr ()), Te_Read (Inr [])]" by (simp only: sample_calls_def append.simps)
  then have "test_run sample_calls test_dispatcher_new =
      test_run [Te_Receive (Inr ()) (Inr ()), Te_Read (Inr [])] sample_queued"
    using sample_calls_queued tst.run_append by (metis option.case(2))
  then show ?thesis using sample_calls_ended by metis
qed

theorem test_calls_resolved_once_witness:
  "\<exists>d. test_run sample_calls test_dispatcher_new = Some d \<and> mset (map fst (td_log d)) = {#0, 1#}"
proof -
  obtain d where d: "test_run sample_calls test_dispatcher_new = Some d" "\<not> td_running d" "td_sending d = []"
    using sample_calls_run by blast
  then have "mset (map fst (td_log d)) = mset (calls_made sample_calls)"
    using test_calls_resolved_once [OF d(1)] by metis
  also have "calls_made sample_calls = [0, 1]" by (simp only: sample_calls_def calls_made.simps)
  finally show ?thesis using d(1) by (intro exI [of _ d]) simp
qed

text \<open>
  The identifier of a submission the driver never received stays live for ever, although its call is
  resolved: the registry is released only by the driver and by a failed submission.
\<close>

lemma queued_identifier_kept:
  "\<exists>d. test_run sample_calls test_dispatcher_new = Some d \<and> \<not> td_running d \<and> calls_open d = [] \<and> live_len d = 1"
proof -
  obtain d where d: "test_run sample_calls test_dispatcher_new = Some d" "\<not> td_running d" "td_sending d = []" "live_len d = 1"
    using sample_calls_run by blast
  moreover have "calls_open d = []"
    using d(2,3) test_run_ok [OF new_ok(1) d(1)] by (simp add: test_inv_def calls_open_def)
  ultimately show ?thesis by blast
qed

end
