(* ===== verification/Runner_Base.thy ===== *)
theory Runner_Base
  imports Transport "HOL-Library.Signed_Division"
begin

text \<open>
  What the validation runner's modules share: the error type of
  \<open>tools/validation-runner/src/error.rs\<close>, the checked 64-bit arithmetic its clock uses, and the
  formatting of numbers.  A string is the list of its Unicode scalar values.
\<close>

section \<open>Errors\<close>

datatype runner_error = Io io_error | Runner scalar_string

definition failed :: "scalar_string \<Rightarrow> runner_error + 'a" where
  "failed message = Inl (Runner message)"

definition runner_error_display :: "runner_error \<Rightarrow> scalar_string" where
  "runner_error_display e = (case e of Io error \<Rightarrow> scalars (io_text error) | Runner message \<Rightarrow> message)"

definition runner_error_source :: "runner_error \<Rightarrow> io_error option" where
  "runner_error_source e = (case e of Io error \<Rightarrow> Some error | Runner _ \<Rightarrow> None)"

lemma failed_neq [simp]: "failed m \<noteq> Inr x"
  by (simp add: failed_def)

section \<open>Checked arithmetic\<close>

text \<open>The \<open>checked_\<close> operations of \<open>i64\<close> and \<open>u64\<close>; an \<open>i64\<close> is an integer in its range.\<close>

definition i64_checked :: "int \<Rightarrow> int option" where
  "i64_checked x = (if - (2 ^ 63) \<le> x \<and> x < 2 ^ 63 then Some x else None)"

definition i64_add :: "int \<Rightarrow> int \<Rightarrow> int option" where
  "i64_add a b = i64_checked (a + b)"

definition i64_sub :: "int \<Rightarrow> int \<Rightarrow> int option" where
  "i64_sub a b = i64_checked (a - b)"

definition i64_mul :: "int \<Rightarrow> int \<Rightarrow> int option" where
  "i64_mul a b = i64_checked (a * b)"

definition i64_div :: "int \<Rightarrow> int \<Rightarrow> int option" where
  "i64_div a b = (if b = 0 then None else i64_checked (a sdiv b))"

definition u64_div :: "u64 \<Rightarrow> u64 \<Rightarrow> u64 option" where
  "u64_div a b = (if b = 0 then None else Some (a div b))"

definition u64_rem :: "u64 \<Rightarrow> u64 \<Rightarrow> u64 option" where
  "u64_rem a b = (if b = 0 then None else Some (a mod b))"

definition i64_try_from_u64 :: "u64 \<Rightarrow> int option" where
  "i64_try_from_u64 x = i64_checked (uint x)"

definition u32_try_from_i64 :: "int \<Rightarrow> u32 option" where
  "u32_try_from_i64 x = (if 0 \<le> x \<and> x < 2 ^ 32 then Some (word_of_int x) else None)"

lemma i64_checked_Some: "- (2 ^ 63) \<le> x \<Longrightarrow> x < 2 ^ 63 \<Longrightarrow> i64_checked x = Some x"
  by (simp add: i64_checked_def)

lemma sdiv_nonneg: "0 \<le> a \<Longrightarrow> 0 < b \<Longrightarrow> a sdiv b = (a div b :: int)"
  by (simp add: signed_divide_int_def sgn_if)

lemmas i64_simps =
  i64_add_def i64_sub_def i64_mul_def i64_div_def i64_checked_Some sdiv_nonneg

section \<open>Formatting\<close>

text \<open>
  \<open>{n}\<close> and \<open>{n:0w}\<close> of the standard formatter: decimal digits, padded with zeros on the left to the
  width, a minus sign counting towards it.
\<close>

definition display_nat :: "nat \<Rightarrow> scalar_string" where
  "display_nat n = scalars (show_nat n)"

definition pad_zero :: "nat \<Rightarrow> scalar_string \<Rightarrow> scalar_string" where
  "pad_zero w s = replicate (w - length s) 48 @ s"

definition display_int_padded :: "nat \<Rightarrow> int \<Rightarrow> scalar_string" where
  "display_int_padded w n =
     (if n < 0 then 45 # pad_zero (w - 1) (display_nat (nat (- n)))
      else pad_zero w (display_nat (nat n)))"

section \<open>Characters and numbers\<close>

text \<open>The characters the parsers of the runner test for.\<close>

abbreviation (input) quotation_mark :: nat where "quotation_mark \<equiv> 34"
abbreviation (input) backslash :: nat where "backslash \<equiv> 92"
abbreviation (input) newline :: nat where "newline \<equiv> 10"
abbreviation (input) comma :: nat where "comma \<equiv> 44"
abbreviation (input) colon :: nat where "colon \<equiv> 58"
abbreviation (input) open_brace :: nat where "open_brace \<equiv> 123"
abbreviation (input) close_brace :: nat where "close_brace \<equiv> 125"

definition is_ascii_digit :: "nat \<Rightarrow> bool" where
  "is_ascii_digit c \<longleftrightarrow> 48 \<le> c \<and> c \<le> 57"

definition is_ascii_hexdigit :: "nat \<Rightarrow> bool" where
  "is_ascii_hexdigit c \<longleftrightarrow> is_ascii_digit c \<or> 65 \<le> c \<and> c \<le> 70 \<or> 97 \<le> c \<and> c \<le> 102"

definition to_digit16 :: "nat \<Rightarrow> nat" where
  "to_digit16 c = (if c \<le> 57 then c - 48 else if c \<le> 70 then c - 55 else c - 87)"

definition from_digit16 :: "nat \<Rightarrow> nat" where
  "from_digit16 v = (if v < 10 then 48 + v else 87 + v)"

text \<open>\<open>str::parse\<close> for an unsigned type with the given number of values, and its hexadecimal form.\<close>

definition digits_value :: "scalar_string \<Rightarrow> nat" where
  "digits_value = foldl (\<lambda>n c. 10 * n + (c - 48)) 0"

definition parse_unsigned :: "nat \<Rightarrow> scalar_string \<Rightarrow> nat option" where
  "parse_unsigned bound s =
     (let digits = (case s of [] \<Rightarrow> [] | c # cs \<Rightarrow> if c = 43 then cs else s)
      in if digits \<noteq> [] \<and> list_all is_ascii_digit digits \<and> digits_value digits < bound
         then Some (digits_value digits) else None)"

definition hex_value :: "scalar_string \<Rightarrow> nat" where
  "hex_value = foldl (\<lambda>n c. 16 * n + to_digit16 c) 0"

text \<open>\<open>char::from_u32\<close>: the surrogates and what lies past the last plane are not characters.\<close>

definition from_u32 :: "nat \<Rightarrow> nat option" where
  "from_u32 n = (if n < 0xD800 \<or> 0xE000 \<le> n \<and> n \<le> 0x10FFFF then Some n else None)"

lemma display_nat_rec:
  "display_nat n = (if n < 10 then [48 + n] else display_nat (n div 10) @ [48 + n mod 10])"
proof -
  have d: "of_char (digit k) = 48 + k" if "k < 10" for k
    using that by (simp add: digit_def)
  show ?thesis by (subst show_nat.simps [of n] | simp add: display_nat_def scalars_def d)+
qed

lemma display_nat_digits: "list_all is_ascii_digit (display_nat n)"
proof (induction n rule: less_induct)
  case (less n)
  have "is_ascii_digit (48 + k)" if "k < 10" for k using that by (simp add: is_ascii_digit_def)
  with less show ?case by (subst display_nat_rec) simp
qed

lemma display_nat_not_Nil: "display_nat n \<noteq> []"
  by (subst display_nat_rec) simp

lemma digits_value_snoc: "digits_value (s @ [c]) = 10 * digits_value s + (c - 48)"
  by (simp add: digits_value_def)

lemma digits_value_display [simp]: "digits_value (display_nat n) = n"
proof (induction n rule: less_induct)
  case (less n)
  show ?case
  proof (cases "n < 10")
    case True
    then show ?thesis by (subst display_nat_rec) (simp add: digits_value_def)
  next
    case False
    then show ?thesis using less by (subst display_nat_rec) (simp add: digits_value_snoc)
  qed
qed

lemma parse_unsigned_display: "n < bound \<Longrightarrow> parse_unsigned bound (display_nat n) = Some n"
proof -
  assume n: "n < bound"
  obtain c cs where d: "display_nat n = c # cs" using display_nat_not_Nil [of n] by (cases "display_nat n") auto
  then have "c \<noteq> 43" using display_nat_digits [of n] by (auto simp: is_ascii_digit_def)
  then show ?thesis using n d display_nat_digits [of n] digits_value_display [of n]
    by (simp add: parse_unsigned_def)
qed

end
