(* ===== verification/Runner_Json.thy ===== *)
theory Runner_Json
  imports Runner_Base
begin

text \<open>
  The JSON of run records, \<open>tools/validation-runner/src/json.rs\<close>: the object builder, the string
  literals it writes and the reader of flat objects.  An iterator over characters is the list of
  the characters left; a reader returns what it read and the characters after it.
\<close>

section \<open>Writing\<close>

record json_object =
  obj_body :: scalar_string

definition object_new :: json_object where
  "object_new = \<lparr>obj_body = []\<rparr>"

definition hex_digit :: "nat \<Rightarrow> nat" where
  "hex_digit v = (if v < 16 then from_digit16 v else 48)"

definition quote_char :: "nat \<Rightarrow> scalar_string" where
  "quote_char c =
     (if c = quotation_mark then [backslash, quotation_mark]
      else if c = backslash then [backslash, backslash]
      else if c = newline then scalars [CHR 0x5C, CHR ''n'']
      else if c = 13 then scalars [CHR 0x5C, CHR ''r'']
      else if c = 9 then scalars [CHR 0x5C, CHR ''t'']
      else if c < 0x20 then scalars [CHR 0x5C, CHR ''u'', CHR ''0'', CHR ''0''] @ [hex_digit (c div 16), hex_digit (c mod 16)]
      else [c])"

definition quote :: "scalar_string \<Rightarrow> scalar_string" where
  "quote value = [quotation_mark] @ concat (map quote_char value) @ [quotation_mark]"

definition object_key :: "scalar_string \<Rightarrow> json_object \<Rightarrow> json_object" where
  "object_key k obj =
     (let body = (if obj_body obj = [] then [] else obj_body obj @ [comma])
      in obj\<lparr>obj_body := body @ quote k @ [colon]\<rparr>)"

definition object_push :: "scalar_string \<Rightarrow> json_object \<Rightarrow> json_object" where
  "object_push s obj = obj\<lparr>obj_body := obj_body obj @ s\<rparr>"

definition object_encode :: "json_object \<Rightarrow> scalar_string" where
  "object_encode obj = [open_brace] @ obj_body obj @ [close_brace]"

definition object_string :: "scalar_string \<Rightarrow> scalar_string \<Rightarrow> json_object \<Rightarrow> json_object" where
  "object_string k v obj = object_push (quote v) (object_key k obj)"

definition object_number :: "scalar_string \<Rightarrow> u64 \<Rightarrow> json_object \<Rightarrow> json_object" where
  "object_number k v obj = object_push (display_nat (unat v)) (object_key k obj)"

text \<open>The array of \<open>strings\<close>: a comma before every element but the first.\<close>

fun push_values :: "nat \<Rightarrow> scalar_string list \<Rightarrow> json_object \<Rightarrow> json_object" where
  "push_values index [] obj = obj"
| "push_values index (v # vs) obj =
     push_values (index + 1) vs
       (object_push (quote v) (if index > 0 then object_push [comma] obj else obj))"

definition object_strings :: "scalar_string \<Rightarrow> scalar_string list \<Rightarrow> json_object \<Rightarrow> json_object" where
  "object_strings k vs obj =
     object_push (scalars '']'') (push_values 0 vs (object_push (scalars ''['') (object_key k obj)))"

definition object_object :: "scalar_string \<Rightarrow> json_object \<Rightarrow> json_object \<Rightarrow> json_object" where
  "object_object k v obj = object_push (object_encode v) (object_key k obj)"

section \<open>Reading\<close>

datatype json_value = JString scalar_string | JNumber u64

type_synonym fields = "(scalar_string \<times> json_value) list"

definition skip_whitespace :: "scalar_string \<Rightarrow> scalar_string" where
  "skip_whitespace cs = dropWhile is_whitespace cs"

primrec unicode_digits :: "nat \<Rightarrow> scalar_string \<Rightarrow> runner_error + scalar_string \<times> scalar_string" where
  "unicode_digits 0 cs = Inr ([], cs)"
| "unicode_digits (Suc n) cs =
     (case cs of
        [] \<Rightarrow> failed (scalars ''a unicode escape needs four hexadecimal digits'')
      | c # rest \<Rightarrow>
          if is_ascii_hexdigit c
          then and_then (unicode_digits n rest) (\<lambda>(ds, rest'). Inr (c # ds, rest'))
          else failed (scalars ''a unicode escape needs four hexadecimal digits''))"

definition from_str_radix16 :: "scalar_string \<Rightarrow> nat option" where
  "from_str_radix16 ds =
     (if ds \<noteq> [] \<and> list_all is_ascii_hexdigit ds \<and> hex_value ds < 2 ^ 32 then Some (hex_value ds) else None)"

definition parse_unicode_escape :: "scalar_string \<Rightarrow> runner_error + nat \<times> scalar_string" where
  "parse_unicode_escape cs = and_then (unicode_digits 4 cs) (\<lambda>(digits, rest).
     (case from_str_radix16 digits of
        None \<Rightarrow> failed (scalars ''a unicode escape holds a value the runner cannot read'')
      | Some code \<Rightarrow>
          (case from_u32 code of
             None \<Rightarrow> failed (scalars ''a unicode escape holds a value that is not a character'')
           | Some c \<Rightarrow> Inr (c, rest))))"

definition parse_escape :: "scalar_string \<Rightarrow> runner_error + nat \<times> scalar_string" where
  "parse_escape cs =
     (case cs of
        [] \<Rightarrow> failed (scalars ''a JSON string holds an escape the runner does not read'')
      | c # rest \<Rightarrow>
          if c = quotation_mark \<or> c = backslash \<or> c = of_char (CHR ''/'') then Inr (c, rest)
          else if c = of_char (CHR ''n'') then Inr (newline, rest)
          else if c = of_char (CHR ''r'') then Inr (13, rest)
          else if c = of_char (CHR ''t'') then Inr (9, rest)
          else if c = of_char (CHR ''b'') then Inr (8, rest)
          else if c = of_char (CHR ''f'') then Inr (12, rest)
          else if c = of_char (CHR ''u'') then parse_unicode_escape rest
          else failed (scalars ''a JSON string holds an escape the runner does not read''))"

lemma unicode_digits_length: "unicode_digits n cs = Inr (ds, rest) \<Longrightarrow> length rest \<le> length cs"
  by (induction n arbitrary: cs ds)
     (auto simp: and_then_def split: list.splits if_splits sum.splits prod.splits dest: le_SucI)

lemma parse_escape_length: "parse_escape cs = Inr (c, rest) \<Longrightarrow> length rest < length cs"
  by (auto simp: parse_escape_def parse_unicode_escape_def and_then_def
      split: list.splits if_splits sum.splits prod.splits option.splits dest: unicode_digits_length)

function string_loop :: "scalar_string \<Rightarrow> scalar_string \<Rightarrow> runner_error + scalar_string \<times> scalar_string" where
  "string_loop value cs =
     (case cs of
        [] \<Rightarrow> failed (scalars ''a JSON string must be closed'')
      | c # rest \<Rightarrow>
          if c = quotation_mark then Inr (value, rest)
          else if c = backslash then
            (case parse_escape rest of Inl e \<Rightarrow> Inl e | Inr (c', rest') \<Rightarrow> string_loop (value @ [c']) rest')
          else string_loop (value @ [c]) rest)"
  by pat_completeness auto
termination
  by (relation "measure (\<lambda>(_, cs). length cs)") (auto dest: parse_escape_length)

declare string_loop.simps [simp del]

definition parse_string :: "scalar_string \<Rightarrow> runner_error + scalar_string \<times> scalar_string" where
  "parse_string cs =
     (case cs of
        c # rest \<Rightarrow> if c = quotation_mark then string_loop [] rest
                    else failed (scalars ''a JSON string must start with a quotation mark'')
      | [] \<Rightarrow> failed (scalars ''a JSON string must start with a quotation mark''))"

definition parse_number :: "scalar_string \<Rightarrow> runner_error + u64 \<times> scalar_string" where
  "parse_number cs =
     (case parse_unsigned (2 ^ 64) (takeWhile is_ascii_digit cs) of
        None \<Rightarrow> failed (scalars ''a journal entry holds a number the runner cannot read'')
      | Some n \<Rightarrow> Inr (of_nat n, dropWhile is_ascii_digit cs))"

definition parse_value :: "scalar_string \<Rightarrow> runner_error + json_value \<times> scalar_string" where
  "parse_value cs =
     (case cs of
        c # _ \<Rightarrow>
          if c = quotation_mark then and_then (parse_string cs) (\<lambda>(s, rest). Inr (JString s, rest))
          else if is_ascii_digit c then and_then (parse_number cs) (\<lambda>(n, rest). Inr (JNumber n, rest))
          else failed (scalars ''a journal entry value must be a string or a number'')
      | [] \<Rightarrow> failed (scalars ''a journal entry value must be a string or a number''))"

text \<open>One field, with the separator after it: what the loop of \<open>parse_flat_object\<close> does in one round.\<close>

definition parse_field :: "scalar_string \<Rightarrow> runner_error + (scalar_string \<times> json_value) \<times> scalar_string" where
  "parse_field cs0 =
     (let cs = skip_whitespace cs0 in
      if take 1 cs \<noteq> [quotation_mark] then failed (scalars ''a journal entry key must be a string'')
      else and_then (parse_string cs) (\<lambda>(key, rest).
        (case skip_whitespace rest of
           c # rest' \<Rightarrow>
             if c = colon
             then and_then (parse_value (skip_whitespace rest')) (\<lambda>(v, rest''). Inr ((key, v), skip_whitespace rest''))
             else failed (scalars ''a journal entry key must be followed by a value'')
         | [] \<Rightarrow> failed (scalars ''a journal entry key must be followed by a value''))))"

lemma string_loop_Nil: "string_loop v [] = failed (scalars ''a JSON string must be closed'')"
  by (subst string_loop.simps) simp

lemma string_loop_Cons:
  "string_loop v (c # cs) =
     (if c = quotation_mark then Inr (v, cs)
      else if c = backslash then
        (case parse_escape cs of Inl e \<Rightarrow> Inl e | Inr (c', rest) \<Rightarrow> string_loop (v @ [c']) rest)
      else string_loop (v @ [c]) cs)"
  by (subst string_loop.simps) simp

lemma string_loop_length: "string_loop v cs = Inr (s, rest) \<Longrightarrow> length rest < length cs"
proof (induction "length cs" arbitrary: v cs rule: less_induct)
  case less
  obtain c r where cs: "cs = c # r" using less.prems by (cases cs) (simp_all add: string_loop_Nil)
  consider "c = quotation_mark" "rest = r"
    | c' r' where "parse_escape r = Inr (c', r')" "string_loop (v @ [c']) r' = Inr (s, rest)"
    | "string_loop (v @ [c]) r = Inr (s, rest)"
    using less.prems by (auto simp: cs string_loop_Cons split: if_splits sum.splits prod.splits)
  then show ?case
  proof cases
    case 2
    then show ?thesis using less.hyps [OF _ 2(2)] parse_escape_length [OF 2(1)] by (simp add: cs)
  qed (use less.hyps [of r] cs in \<open>auto simp: less_Suc_eq\<close>)
qed

lemma parse_string_length: "parse_string cs = Inr (s, rest) \<Longrightarrow> length rest < length cs"
  by (auto simp: parse_string_def split: list.splits if_splits dest: string_loop_length)

lemma parse_value_length: "parse_value cs = Inr (v, rest) \<Longrightarrow> length rest \<le> length cs"
  by (auto simp: parse_value_def parse_number_def and_then_def length_dropWhile_le
      split: list.splits if_splits sum.splits prod.splits option.splits dest: parse_string_length intro: le_SucI)

lemma parse_field_length: "parse_field cs = Inr (f, rest) \<Longrightarrow> length rest < length cs"
proof -
  assume a: "parse_field cs = Inr (f, rest)"
  note skip = length_dropWhile_le [of is_whitespace, folded skip_whitespace_def]
  obtain key r c r' v r'' where
    p: "parse_string (skip_whitespace cs) = Inr (key, r)" "skip_whitespace r = c # r'"
      "parse_value (skip_whitespace r') = Inr (v, r'')" "rest = skip_whitespace r''"
    using a by (auto simp: parse_field_def and_then_def Let_def split: if_splits sum.splits prod.splits list.splits)
  show ?thesis
    using parse_string_length [OF p(1)] skip [of cs] skip [of r] skip [of r'] skip [of r'']
      parse_value_length [OF p(3)] p(2,4) by simp
qed

function fields_loop :: "fields \<Rightarrow> scalar_string \<Rightarrow> runner_error + fields" where
  "fields_loop fs cs =
     (case parse_field cs of
        Inl e \<Rightarrow> Inl e
      | Inr (f, rest) \<Rightarrow>
          (case rest of
             c # rest' \<Rightarrow>
               if c = comma then fields_loop (fs @ [f]) rest'
               else if c = close_brace then Inr (fs @ [f])
               else failed (scalars ''a journal entry must end after its last value'')
           | [] \<Rightarrow> failed (scalars ''a journal entry must end after its last value'')))"
  by pat_completeness auto
termination
  by (relation "measure (\<lambda>(_, cs). length cs)") (auto dest: parse_field_length)

declare fields_loop.simps [simp del]

definition parse_flat_object :: "scalar_string \<Rightarrow> runner_error + fields" where
  "parse_flat_object text =
     (case trim text of
        c # rest \<Rightarrow>
          if c = open_brace
          then let cs = skip_whitespace rest
               in if take 1 cs = [close_brace] then Inr [] else fields_loop [] cs
          else failed (scalars ''a journal entry must be a JSON object'')
      | [] \<Rightarrow> failed (scalars ''a journal entry must be a JSON object''))"

primrec string_field :: "fields \<Rightarrow> scalar_string \<Rightarrow> scalar_string option" where
  "string_field [] key = None"
| "string_field (f # fs) key =
     (case f of
        (name, JString t) \<Rightarrow> if name = key then Some t else string_field fs key
      | (_, JNumber _) \<Rightarrow> string_field fs key)"

primrec number_field :: "fields \<Rightarrow> scalar_string \<Rightarrow> u64 option" where
  "number_field [] key = None"
| "number_field (f # fs) key =
     (case f of
        (name, JNumber n) \<Rightarrow> if name = key then Some n else number_field fs key
      | (_, JString _) \<Rightarrow> number_field fs key)"

section \<open>What is written is read back\<close>

text \<open>An object built from flat fields, one \<open>string\<close> or \<open>number\<close> call each.\<close>

definition object_field :: "scalar_string \<times> json_value \<Rightarrow> json_object \<Rightarrow> json_object" where
  "object_field f obj =
     (case f of (k, JString s) \<Rightarrow> object_string k s obj | (k, JNumber n) \<Rightarrow> object_number k n obj)"

definition flat_object :: "fields \<Rightarrow> json_object" where
  "flat_object fs = fold object_field fs object_new"

definition value_text :: "json_value \<Rightarrow> scalar_string" where
  "value_text v = (case v of JString s \<Rightarrow> quote s | JNumber n \<Rightarrow> display_nat (unat n))"

definition field_text :: "scalar_string \<times> json_value \<Rightarrow> scalar_string" where
  "field_text f = quote (fst f) @ [colon] @ value_text (snd f)"

lemma object_field_body:
  "obj_body (object_field f obj) =
     (if obj_body obj = [] then [] else obj_body obj @ [comma]) @ field_text f"
  by (simp add: object_field_def object_string_def object_number_def object_push_def object_key_def
      field_text_def value_text_def Let_def split: prod.split json_value.split)

lemma field_text_not_Nil [simp]: "field_text f \<noteq> []"
  by (simp add: field_text_def quote_def)

lemma fold_object_field_body:
  "obj_body obj \<noteq> [] \<Longrightarrow>
   obj_body (fold object_field fs obj) = obj_body obj @ concat (map (\<lambda>f. comma # field_text f) fs)"
  by (induction fs arbitrary: obj) (simp_all add: object_field_body)

lemma flat_object_body:
  "obj_body (flat_object (f # fs)) = field_text f @ concat (map (\<lambda>f. comma # field_text f) fs)"
  by (simp add: flat_object_def fold_object_field_body object_field_body object_new_def)

lemma to_digit16_from_digit16: "v < 16 \<Longrightarrow> to_digit16 (from_digit16 v) = v"
  by (simp add: to_digit16_def from_digit16_def)

lemma is_ascii_hexdigit_from_digit16: "v < 16 \<Longrightarrow> is_ascii_hexdigit (from_digit16 v)"
  by (auto simp: is_ascii_hexdigit_def is_ascii_digit_def from_digit16_def)

lemma parse_unicode_escape_written:
  assumes "c < 0x20"
  shows "parse_unicode_escape (48 # 48 # hex_digit (c div 16) # hex_digit (c mod 16) # rest) = Inr (c, rest)"
proof -
  have v: "c div 16 < 16" "c mod 16 < 16" using assms by simp_all
  have h: "is_ascii_hexdigit 48" "to_digit16 48 = 0"
    by (simp_all add: is_ascii_hexdigit_def is_ascii_digit_def to_digit16_def)
  define ds where "ds = [48, 48, hex_digit (c div 16), hex_digit (c mod 16)]"
  have "unicode_digits (Suc (Suc (Suc (Suc 0)))) (ds @ rest) = Inr (ds, rest)"
    using v h(1) by (simp add: ds_def hex_digit_def is_ascii_hexdigit_from_digit16 and_then_def)
  then have "unicode_digits 4 (ds @ rest) = Inr (ds, rest)" by (simp only: eval_nat_numeral BitM.simps One_nat_def)
  moreover have "from_str_radix16 ds = Some c"
    using assms v h by (simp add: ds_def from_str_radix16_def hex_value_def hex_digit_def
        is_ascii_hexdigit_from_digit16 to_digit16_from_digit16)
  ultimately have "parse_unicode_escape (ds @ rest) = Inr (c, rest)"
    using assms by (simp add: parse_unicode_escape_def and_then_def from_u32_def)
  then show ?thesis by (simp add: ds_def)
qed

lemma string_loop_quote_char:
  "string_loop v (quote_char c @ rest) = string_loop (v @ [c]) rest"
  by (auto simp: quote_char_def string_loop_Cons parse_escape_def scalars_def parse_unicode_escape_written)

lemma string_loop_quoted:
  "string_loop v (concat (map quote_char s) @ quotation_mark # rest) = Inr (v @ s, rest)"
  by (induction s arbitrary: v) (simp_all add: string_loop_quote_char string_loop_Cons)

lemma parse_string_quote: "parse_string (quote s @ rest) = Inr (s, rest)"
  using string_loop_quoted [of "[]" s rest] by (simp add: parse_string_def quote_def)

lemma takeWhile_digits_display:
  assumes "rest = [] \<or> \<not> is_ascii_digit (hd rest)"
  shows "takeWhile is_ascii_digit (display_nat n @ rest) = display_nat n"
    and "dropWhile is_ascii_digit (display_nat n @ rest) = rest"
  using display_nat_digits [of n] assms
  by (cases rest; simp add: takeWhile_append dropWhile_append list_all_iff takeWhile_eq_all_conv)+

lemma parse_number_display:
  assumes "rest = [] \<or> \<not> is_ascii_digit (hd rest)"
  shows "parse_number (display_nat (unat n) @ rest) = Inr (n, rest)"
proof -
  have "unat n < 2 ^ 64" using unsigned_less [of n, where 'a=nat] by simp
  then show ?thesis by (simp add: parse_number_def takeWhile_digits_display [OF assms] parse_unsigned_display)
qed

lemma parse_value_text:
  assumes "rest = [] \<or> \<not> is_ascii_digit (hd rest)"
  shows "parse_value (value_text v @ rest) = Inr (v, rest)"
proof (cases v)
  case (JString s)
  then show ?thesis using parse_string_quote [of s rest]
    by (simp add: value_text_def parse_value_def quote_def and_then_def)
next
  case (JNumber n)
  obtain d ds where d: "display_nat (unat n) = d # ds" "is_ascii_digit d"
    using display_nat_not_Nil [of "unat n"] display_nat_digits [of "unat n"] by (cases "display_nat (unat n)") auto
  then have "d \<noteq> quotation_mark" by (auto simp: is_ascii_digit_def)
  with d show ?thesis using parse_number_display [OF assms, of n]
    by (simp add: value_text_def parse_value_def JNumber and_then_def)
qed

lemma parse_field_text:
  assumes "rest \<noteq> []" "\<not> is_ascii_digit (hd rest)" "\<not> is_whitespace (hd rest)"
  shows "parse_field (field_text f @ rest) = Inr (f, rest)"
proof -
  obtain k v where f: "f = (k, v)" by (cases f)
  have skip: "skip_whitespace (c # cs) = c # cs" if "\<not> is_whitespace c" for c cs
    using that by (simp add: skip_whitespace_def)
  have ws: "\<not> is_whitespace quotation_mark" "\<not> is_whitespace colon" "is_ascii_digit c \<Longrightarrow> \<not> is_whitespace c" for c
    by (auto simp: is_whitespace_def is_ascii_digit_def)
  have q: "skip_whitespace (quote s @ r) = quote s @ r" "take (Suc 0) (quote s) = [quotation_mark]"
    "Suc 0 \<le> length (quote s)" for s r
    by (simp_all add: quote_def skip ws)
  have d: "skip_whitespace (display_nat n @ rest) = display_nat n @ rest" for n
    using display_nat_not_Nil [of n] display_nat_digits [of n]
    by (cases "display_nat n") (auto simp: skip ws)
  have v: "skip_whitespace (value_text v @ rest) = value_text v @ rest"
    by (cases v) (simp_all add: value_text_def q d)
  have r: "skip_whitespace rest = rest" using assms by (cases rest) (auto simp: skip)
  have "parse_value (value_text v @ rest) = Inr (v, rest)" using assms by (intro parse_value_text) simp
  then show ?thesis
    using parse_string_quote [of k "colon # value_text v @ rest"]
    by (simp add: f parse_field_def field_text_def q and_then_def skip ws v r)
qed

lemma fields_loop_written:
  "fields_loop fs (field_text f @ concat (map (\<lambda>f. comma # field_text f) gs) @ close_brace # junk) =
     Inr (fs @ f # gs)"
proof (induction gs arbitrary: fs f)
  case Nil
  have "parse_field (field_text f @ close_brace # junk) = Inr (f, close_brace # junk)"
    by (rule parse_field_text) (simp_all add: is_ascii_digit_def is_whitespace_def)
  then show ?case by (subst fields_loop.simps) simp
next
  case (Cons g gs)
  define r where "r = field_text g @ concat (map (\<lambda>f. comma # field_text f) gs) @ close_brace # junk"
  have "parse_field (field_text f @ comma # r) = Inr (f, comma # r)"
    by (rule parse_field_text) (simp_all add: is_ascii_digit_def is_whitespace_def)
  moreover have "fields_loop (fs @ [f]) r = Inr (fs @ f # g # gs)" using Cons [of "fs @ [f]" g] by (simp add: r_def)
  ultimately show ?case by (subst fields_loop.simps) (simp add: r_def)
qed

lemma trim_braced:
  assumes "\<not> is_whitespace a" "\<not> is_whitespace b"
  shows "\<exists>junk'. trim (a # s @ b # junk) = a # s @ b # junk'"
proof -
  have "dropWhile is_whitespace (rev junk @ b # rev s @ [a]) = dropWhile is_whitespace (rev junk) @ b # rev s @ [a]"
    using assms(2) by (induction "rev junk") (auto simp: dropWhile_append3 dropWhile_append)
  then show ?thesis
    using assms(1) by (simp add: trim_def)
qed

text \<open>
  Reading an object that was written from strings and numbers gives back its fields, in order,
  whatever characters the keys and the strings hold and whatever the numbers are.  The reader stops
  at the closing brace and ignores the text after it.
\<close>

lemma parse_flat_object_suffix:
  "parse_flat_object (object_encode (flat_object fs) @ junk) = Inr fs"
proof -
  have ws: "\<not> is_whitespace open_brace" "\<not> is_whitespace close_brace" "\<not> is_whitespace quotation_mark"
    by (simp_all add: is_whitespace_def)
  obtain junk' where t: "trim (object_encode (flat_object fs) @ junk) =
      open_brace # obj_body (flat_object fs) @ close_brace # junk'"
    using trim_braced [OF ws(1,2), of "obj_body (flat_object fs)" junk] by (auto simp: object_encode_def)
  show ?thesis
  proof (cases fs)
    case Nil
    then have "obj_body (flat_object fs) = []" by (simp add: flat_object_def object_new_def)
    then show ?thesis using Nil t by (simp add: parse_flat_object_def skip_whitespace_def ws)
  next
    case (Cons f gs)
    obtain b where b: "obj_body (flat_object fs) = quotation_mark # b"
      by (simp add: Cons flat_object_body field_text_def quote_def)
    have "fields_loop [] (obj_body (flat_object fs) @ close_brace # junk') = Inr fs"
      using fields_loop_written [of "[]" f gs junk'] by (simp add: Cons flat_object_body)
    then show ?thesis
      using b unfolding Cons by (simp add: parse_flat_object_def t [unfolded Cons] skip_whitespace_def ws)
  qed
qed

end
