(* ===== verification/Runner_Host.thy ===== *)
theory Runner_Host
  imports Runner_Base "HOL-Library.AList"
begin

text \<open>
  The host the validation runner runs on: its files, its clocks and the commands it executes.  What
  the outside decides is a function of the number of host operations made so far: whether the next
  operation fails and after how many characters, what the clocks read, what a command prints and
  how it ends.  Theorems that hold for every such function hold for every host and for every
  placement of faults.

  Files hold Unicode text and paths are lists of components; \<open>..\<close> is an ordinary name.  The commands
  of a campaign reach the files of the records only through the log they are given.

  An operation of the runner is a function of the world.  Its value is \<open>None\<close> when it never returns.
\<close>

section \<open>The world\<close>

type_synonym path = "scalar_string list"

datatype node = Dir | File (file_text: scalar_string)

record command_line =
  cmd_program :: scalar_string
  cmd_args :: "scalar_string list"

record command_output =
  out_success :: bool
  out_stdout :: scalar_string
  out_stderr :: scalar_string

text \<open>What \<open>try_wait\<close> reports: a failure, a running child, or an exit with its code if it has one.\<close>

datatype child_status = WaitFailed io_error | Running | Exited "int option"

text \<open>What the host saw of the runner, in order: the commands it ran for their output, those it started or
  could not start, how a started one ended, and the lines it printed.\<close>

datatype host_event =
    Ran command_line
  | Refused command_line
  | Spawned command_line
  | Reported "int option"
  | Killed
  | Printed scalar_string

record world =
  w_history :: "host_event list"
  w_fs :: "(path \<times> node) list"
  w_tick :: nat
  w_fault :: "nat \<Rightarrow> (io_error \<times> nat) option"
  w_clock :: "nat \<Rightarrow> nat"
  w_wall :: "nat \<Rightarrow> u64 option"
  w_output :: "nat \<Rightarrow> command_line \<Rightarrow> (io_error + command_output) option"
  w_spawn :: "nat \<Rightarrow> command_line \<Rightarrow> io_error option"
  w_poll :: "nat \<Rightarrow> scalar_string \<times> child_status"

type_synonym 'a io = "world \<Rightarrow> ((runner_error + 'a) \<times> world) option"

section \<open>Sequencing\<close>

definition ret :: "'a \<Rightarrow> 'a io" where
  "ret x w = Some (Inr x, w)"

definition lift_result :: "runner_error + 'a \<Rightarrow> 'a io" where
  "lift_result r w = Some (r, w)"

text \<open>The \<open>?\<close> operator: the rest runs on the value, or the error is returned.\<close>

definition bind_io :: "'a io \<Rightarrow> ('a \<Rightarrow> 'b io) \<Rightarrow> 'b io" where
  "bind_io m f w =
     (case m w of
        None \<Rightarrow> None
      | Some (Inl e, w') \<Rightarrow> Some (Inl e, w')
      | Some (Inr x, w') \<Rightarrow> f x w')"

definition tick :: "world \<Rightarrow> world" where
  "tick w = w\<lparr>w_tick := w_tick w + 1\<rparr>"

text \<open>An operation on the files that may fail, without effect.\<close>

definition file_op :: "((path \<times> node) list \<Rightarrow> runner_error + ('a \<times> (path \<times> node) list)) \<Rightarrow> 'a io" where
  "file_op f w =
     (case w_fault w (w_tick w) of
        Some (e, _) \<Rightarrow> Some (Inl (Io e), tick w)
      | None \<Rightarrow>
          (case f (w_fs w) of
             Inl e \<Rightarrow> Some (Inl e, tick w)
           | Inr (x, fs) \<Rightarrow> Some (Inr x, (tick w)\<lparr>w_fs := fs\<rparr>)))"

definition saw :: "host_event list \<Rightarrow> world \<Rightarrow> world" where
  "saw h w = w\<lparr>w_history := w_history w @ h\<rparr>"

text \<open>\<open>println!\<close>, and the lines printed so far.\<close>

definition println :: "scalar_string \<Rightarrow> unit io" where
  "println s w = Some (Inr (), saw [Printed s] w)"

definition printed :: "host_event list \<Rightarrow> scalar_string list" where
  "printed h = concat (map (\<lambda>e. case e of Printed s \<Rightarrow> [s] | _ \<Rightarrow> []) h)"

section \<open>Text and paths\<close>

fun split_on :: "nat \<Rightarrow> scalar_string \<Rightarrow> scalar_string list" where
  "split_on c [] = [[]]"
| "split_on c (x # xs) =
     (if x = c then [] # split_on c xs
      else (case split_on c xs of y # ys \<Rightarrow> (x # y) # ys | [] \<Rightarrow> [[x]]))"

text \<open>\<open>str::lines\<close>: the pieces between newlines, less a last empty one; a newline takes a carriage
  return before it along.\<close>

definition strip_cr :: "scalar_string \<Rightarrow> scalar_string" where
  "strip_cr s = (if s \<noteq> [] \<and> last s = 13 then butlast s else s)"

definition lines :: "scalar_string \<Rightarrow> scalar_string list" where
  "lines s =
     (let ps = split_on newline s
      in map strip_cr (butlast ps) @ (if last ps = [] then [] else [last ps]))"

definition join_with :: "scalar_string \<Rightarrow> scalar_string list \<Rightarrow> scalar_string" where
  "join_with sep ss = (case ss of [] \<Rightarrow> [] | t # ts \<Rightarrow> t @ concat (map (\<lambda>u. sep @ u) ts))"

definition components :: "scalar_string \<Rightarrow> path" where
  "components s = filter (\<lambda>c. c \<noteq> [] \<and> c \<noteq> scalars ''.'') (split_on (of_char (CHR ''/'')) s)"

definition path_join :: "path \<Rightarrow> scalar_string \<Rightarrow> path" where
  "path_join p s = (if take 1 s = scalars ''/'' then components s else p @ components s)"

definition file_name :: "path \<Rightarrow> scalar_string option" where
  "file_name p = (if p = [] then None else Some (last p))"

section \<open>Files\<close>

definition not_found :: runner_error where
  "not_found = Io (IoError (OtherKind 0) ''not found'')"

fun prefixes_of :: "path \<Rightarrow> path list" where
  "prefixes_of [] = []"
| "prefixes_of (c # cs) = [c] # map (\<lambda>p. c # p) (prefixes_of cs)"

definition is_dir_in :: "(path \<times> node) list \<Rightarrow> path \<Rightarrow> bool" where
  "is_dir_in fs p \<longleftrightarrow> p = [] \<or> map_of fs p = Some Dir"

definition is_file_in :: "(path \<times> node) list \<Rightarrow> path \<Rightarrow> bool" where
  "is_file_in fs p \<longleftrightarrow> (case map_of fs p of Some (File _) \<Rightarrow> True | _ \<Rightarrow> False)"

text \<open>\<open>fs::create_dir_all\<close>: every missing directory on the way; a file in the way is an error.\<close>

definition make_dirs :: "path \<Rightarrow> (path \<times> node) list \<Rightarrow> (path \<times> node) list" where
  "make_dirs p fs = fold (\<lambda>q fs. if map_of fs q = None then fs @ [(q, Dir)] else fs) (prefixes_of p) fs"

definition create_dir_all :: "path \<Rightarrow> unit io" where
  "create_dir_all p = file_op (\<lambda>fs.
     if list_ex (is_file_in fs) (prefixes_of p) then Inl not_found else Inr ((), make_dirs p fs))"

text \<open>\<open>Path::is_dir\<close> and \<open>Path::exists\<close> answer no when the host cannot tell.\<close>

definition path_query :: "((path \<times> node) list \<Rightarrow> bool) \<Rightarrow> bool io" where
  "path_query f w = Some (Inr (w_fault w (w_tick w) = None \<and> f (w_fs w)), tick w)"

definition is_dir :: "path \<Rightarrow> bool io" where
  "is_dir p = path_query (\<lambda>fs. is_dir_in fs p)"

definition path_exists :: "path \<Rightarrow> bool io" where
  "path_exists p = path_query (\<lambda>fs. is_dir_in fs p \<or> is_file_in fs p)"

text \<open>The names in a directory, in the order the host lists them.\<close>

definition children :: "path \<Rightarrow> (path \<times> node) list \<Rightarrow> scalar_string list" where
  "children p fs = map last (filter (\<lambda>q. q \<noteq> [] \<and> butlast q = p) (remdups (map fst fs)))"

definition read_dir :: "path \<Rightarrow> scalar_string list io" where
  "read_dir p = file_op (\<lambda>fs. if is_dir_in fs p then Inr (children p fs, fs) else Inl not_found)"

text \<open>\<open>File::create\<close> and opening for append with \<open>create\<close>: the file exists afterwards, emptied or as it was.\<close>

definition open_file :: "bool \<Rightarrow> path \<Rightarrow> unit io" where
  "open_file clear p = file_op (\<lambda>fs.
     if p = [] \<or> is_dir_in fs p \<or> \<not> is_dir_in fs (butlast p) then Inl not_found
     else Inr ((), if clear \<or> map_of fs p = None then AList.update p (File []) fs else fs))"

definition file_create :: "path \<Rightarrow> unit io" where
  "file_create p = open_file True p"

definition open_append :: "path \<Rightarrow> unit io" where
  "open_append p = open_file False p"

definition append_text :: "path \<Rightarrow> scalar_string \<Rightarrow> (path \<times> node) list \<Rightarrow> (path \<times> node) list" where
  "append_text p s fs =
     AList.update p (File ((case map_of fs p of Some (File t) \<Rightarrow> t | _ \<Rightarrow> []) @ s)) fs"

text \<open>A write through an open handle at the end of the file; a failing one may have written a part.\<close>

definition write_all :: "path \<Rightarrow> scalar_string \<Rightarrow> unit io" where
  "write_all p s w =
     (case w_fault w (w_tick w) of
        None \<Rightarrow> Some (Inr (), (tick w)\<lparr>w_fs := append_text p s (w_fs w)\<rparr>)
      | Some (e, n) \<Rightarrow> Some (Inl (Io e), (tick w)\<lparr>w_fs := append_text p (take n s) (w_fs w)\<rparr>))"

text \<open>\<open>flush\<close> and \<open>sync_all\<close> change no text.\<close>

definition sync_all :: "path \<Rightarrow> unit io" where
  "sync_all p = file_op (\<lambda>fs. Inr ((), fs))"

definition try_clone :: "path \<Rightarrow> unit io" where
  "try_clone p = file_op (\<lambda>fs. Inr ((), fs))"

definition read_to_string :: "path \<Rightarrow> scalar_string io" where
  "read_to_string p = file_op (\<lambda>fs.
     case map_of fs p of Some (File t) \<Rightarrow> Inr (t, fs) | _ \<Rightarrow> Inl not_found)"

section \<open>Clocks and commands\<close>

definition instant_now :: "nat io" where
  "instant_now w = Some (Inr (w_clock w (w_tick w)), tick w)"

definition system_time :: "u64 option io" where
  "system_time w = Some (Inr (w_wall w (w_tick w)), tick w)"

text \<open>A command run to its end (\<open>output\<close> and \<open>status\<close>): it is waited for without a budget, and one that
  never ends keeps the runner waiting.\<close>

definition command_output_of :: "command_line \<Rightarrow> command_output io" where
  "command_output_of c w =
     (case w_output w (w_tick w) c of
        None \<Rightarrow> None
      | Some (Inl e) \<Rightarrow> Some (Inl (Io e), saw [Refused c] (tick w))
      | Some (Inr r) \<Rightarrow> Some (Inr r, saw [Ran c] (tick w)))"

definition spawn_child :: "command_line \<Rightarrow> io_error option io" where
  "spawn_child c w =
     (let e = w_spawn w (w_tick w) c
      in Some (Inr e, saw [if e = None then Spawned c else Refused c] (tick w)))"

text \<open>\<open>try_wait\<close>; what the child has printed since the last look is in its log by then.\<close>

definition try_wait :: "path \<Rightarrow> (int option) option io" where
  "try_wait log w =
     (case w_poll w (w_tick w) of
        (text, status) \<Rightarrow>
          let w' = (tick w)\<lparr>w_fs := append_text log text (w_fs w)\<rparr>
          in (case status of
                WaitFailed e \<Rightarrow> Some (Inl (Io e), w')
              | Running \<Rightarrow> Some (Inr None, w')
              | Exited code \<Rightarrow> Some (Inr (Some code), saw [Reported code] w')))"

definition kill_child :: "unit io" where
  "kill_child w =
     (case w_fault w (w_tick w) of
        Some (e, _) \<Rightarrow> Some (Inl (Io e), tick w)
      | None \<Rightarrow> Some (Inr (), saw [Killed] (tick w)))"

text \<open>\<open>wait\<close> after a kill: the rest of the child's output reaches the log.\<close>

definition wait_child :: "path \<Rightarrow> unit io" where
  "wait_child log w =
     (case w_fault w (w_tick w) of
        Some (e, _) \<Rightarrow> Some (Inl (Io e), tick w)
      | None \<Rightarrow> Some (Inr (), (tick w)\<lparr>w_fs := append_text log (fst (w_poll w (w_tick w))) (w_fs w)\<rparr>))"

text \<open>A host without faults whose clock counts operations and whose commands all succeed.\<close>

definition calm_host :: "(path \<times> node) list \<Rightarrow> world" where
  "calm_host fs =
     \<lparr>w_history = [], w_fs = fs, w_tick = 0, w_fault = (\<lambda>_. None), w_clock = (\<lambda>n. n),
      w_wall = (\<lambda>_. Some 0),
      w_output = (\<lambda>_ _. Some (Inr \<lparr>out_success = True, out_stdout = [], out_stderr = []\<rparr>)),
      w_spawn = (\<lambda>_ _. None), w_poll = (\<lambda>_. ([], Exited (Some 0)))\<rparr>"

section \<open>What an operation does to the files\<close>

text \<open>
  The outside is the same before and after an operation, and only operations pass.  \<open>log_grew\<close> says
  that a file got a text appended, no other file changed, and the host saw some events; \<open>emits\<close>
  relates the result of an operation to that text and those events.
\<close>

definition same_host :: "world \<Rightarrow> world \<Rightarrow> bool" where
  "same_host w w' \<longleftrightarrow> w_tick w \<le> w_tick w' \<and> w_fault w' = w_fault w \<and> w_clock w' = w_clock w \<and>
     w_wall w' = w_wall w \<and> w_output w' = w_output w \<and> w_spawn w' = w_spawn w \<and> w_poll w' = w_poll w"

definition log_grew :: "path \<Rightarrow> scalar_string \<Rightarrow> host_event list \<Rightarrow> world \<Rightarrow> world \<Rightarrow> bool" where
  "log_grew log t h w w' \<longleftrightarrow> same_host w w' \<and> w_history w' = w_history w @ h \<and>
     (\<forall>t0. map_of (w_fs w) log = Some (File t0) \<longrightarrow>
        map_of (w_fs w') = (map_of (w_fs w))(log \<mapsto> File (t0 @ t)))"

definition emits ::
  "path \<Rightarrow> 'a io \<Rightarrow> (runner_error + 'a \<Rightarrow> scalar_string \<Rightarrow> host_event list \<Rightarrow> bool) \<Rightarrow> bool" where
  "emits log m Q \<longleftrightarrow> (\<forall>w r w'. m w = Some (r, w') \<longrightarrow> (\<exists>t h. log_grew log t h w w' \<and> Q r t h))"

lemma bind_io_eq_Some:
  "bind_io m f w = Some (r, w') \<longleftrightarrow>
     (\<exists>e. m w = Some (Inl e, w') \<and> r = Inl e) \<or> (\<exists>x w1. m w = Some (Inr x, w1) \<and> f x w1 = Some (r, w'))"
  by (auto simp: bind_io_def split: option.splits sum.splits)

lemma same_host_refl [simp]: "same_host w w"
  by (simp add: same_host_def)

lemma same_host_trans [trans]: "same_host w w1 \<Longrightarrow> same_host w1 w2 \<Longrightarrow> same_host w w2"
  by (auto simp: same_host_def)

lemma world_updates [simp]:
  "same_host w (tick w)" "same_host w (w'\<lparr>w_fs := fs\<rparr>) \<longleftrightarrow> same_host w w'"
  "same_host w (saw h w') \<longleftrightarrow> same_host w w'"
  "w_fs (tick w) = w_fs w" "w_fs (saw h w) = w_fs w"
  "w_history (tick w) = w_history w" "w_history (saw h w) = w_history w @ h"
  by (simp_all add: same_host_def tick_def saw_def)

lemma map_of_append_text:
  "map_of fs p = Some (File t0) \<Longrightarrow> map_of (append_text p t fs) = (map_of fs)(p \<mapsto> File (t0 @ t))"
  by (simp add: append_text_def update_conv')

lemma log_grew_Nil:
  "same_host w w' \<Longrightarrow> w_fs w' = w_fs w \<Longrightarrow> w_history w' = w_history w @ h \<Longrightarrow> log_grew log [] h w w'"
  by (auto simp: log_grew_def)

lemma log_grew_append:
  "same_host w w' \<Longrightarrow> w_fs w' = append_text log t (w_fs w) \<Longrightarrow> w_history w' = w_history w @ h \<Longrightarrow>
   log_grew log t h w w'"
  by (auto simp: log_grew_def map_of_append_text)

lemma log_grew_trans:
  "log_grew log t h w w1 \<Longrightarrow> log_grew log u k w1 w2 \<Longrightarrow> log_grew log (t @ u) (h @ k) w w2"
  by (auto simp: log_grew_def intro: same_host_trans)

lemma emitsI: "(\<And>w r w'. m w = Some (r, w') \<Longrightarrow> \<exists>t h. log_grew log t h w w' \<and> Q r t h) \<Longrightarrow> emits log m Q"
  by (simp add: emits_def)

lemma emitsD: "emits log m Q \<Longrightarrow> m w = Some (r, w') \<Longrightarrow> \<exists>t h. log_grew log t h w w' \<and> Q r t h"
  by (simp add: emits_def)

lemma emits_mono: "emits log m P \<Longrightarrow> (\<And>r t h. P r t h \<Longrightarrow> Q r t h) \<Longrightarrow> emits log m Q"
  by (fastforce simp: emits_def)

lemma emits_ret: "Q (Inr x) [] [] \<Longrightarrow> emits log (ret x) Q"
  by (rule emitsI) (auto simp: ret_def intro!: exI [of _ "[]"] log_grew_Nil)

lemma emits_bind:
  assumes "emits log m P"
    and "\<And>e t h. P (Inl e) t h \<Longrightarrow> Q (Inl e) t h"
    and "\<And>x t h. P (Inr x) t h \<Longrightarrow> emits log (f x) (\<lambda>r u k. Q r (t @ u) (h @ k))"
  shows "emits log (bind_io m f) Q"
proof (rule emitsI)
  fix w r w' assume "bind_io m f w = Some (r, w')"
  then consider (error) e where "m w = Some (Inl e, w')" "r = Inl e"
    | (ok) x w1 where "m w = Some (Inr x, w1)" "f x w1 = Some (r, w')"
    by (auto simp: bind_io_eq_Some)
  then show "\<exists>t h. log_grew log t h w w' \<and> Q r t h"
  proof cases
    case error
    then show ?thesis using emitsD [OF assms(1) error(1)] assms(2) by blast
  next
    case ok
    obtain t h where t: "log_grew log t h w w1" "P (Inr x) t h" using emitsD [OF assms(1) ok(1)] by blast
    obtain u k where "log_grew log u k w1 w'" "Q r (t @ u) (h @ k)"
      using emitsD [OF assms(3) [OF t(2)] ok(2)] by blast
    with t show ?thesis by (blast intro: log_grew_trans)
  qed
qed

lemma emits_sync: "emits log (sync_all p) (\<lambda>r t h. t = [] \<and> h = [])"
  by (rule emitsI) (auto simp: sync_all_def file_op_def split: option.splits intro!: log_grew_Nil)

lemma emits_try_clone: "emits log (try_clone p) (\<lambda>r t h. t = [] \<and> h = [])"
  by (rule emitsI) (auto simp: try_clone_def file_op_def split: option.splits intro!: log_grew_Nil)

lemma emits_kill: "emits log kill_child (\<lambda>r t h. t = [] \<and> (\<forall>x. r = Inr x \<longrightarrow> h = [Killed]))"
proof (rule emitsI)
  fix w r w' assume "kill_child w = Some (r, w')"
  then have "log_grew log [] (if w_fault w (w_tick w) = None then [Killed] else []) w w'"
    "\<forall>x. r = Inr x \<longrightarrow> w_fault w (w_tick w) = None"
    by (auto simp: kill_child_def split: option.splits intro!: log_grew_Nil)
  then show "\<exists>t h. log_grew log t h w w' \<and> t = [] \<and> (\<forall>x. r = Inr x \<longrightarrow> h = [Killed])" by auto
qed

lemma emits_instant: "emits log instant_now (\<lambda>r t h. t = [] \<and> h = [] \<and> (\<exists>n. r = Inr n))"
  by (rule emitsI) (auto simp: instant_now_def intro!: log_grew_Nil)

lemma emits_spawn:
  "emits log (spawn_child c)
     (\<lambda>r t h. t = [] \<and> (\<exists>e. r = Inr e \<and> h = [if e = None then Spawned c else Refused c]))"
  by (rule emitsI) (auto simp: spawn_child_def Let_def intro!: log_grew_Nil)

lemma emits_write: "emits log (write_all log s) (\<lambda>r t h. h = [] \<and> (\<forall>x. r = Inr x \<longrightarrow> t = s))"
  by (rule emitsI) (auto simp: write_all_def split: option.splits intro!: log_grew_append exI)

lemma emits_write_prefix:
  "emits log (write_all log s) (\<lambda>r t h. h = [] \<and> (\<exists>u. s = t @ u) \<and> (\<forall>x. r = Inr x \<longrightarrow> t = s))"
proof (rule emitsI)
  fix w r w' assume w: "write_all log s w = Some (r, w')"
  show "\<exists>t h. log_grew log t h w w' \<and> h = [] \<and> (\<exists>u. s = t @ u) \<and> (\<forall>x. r = Inr x \<longrightarrow> t = s)"
  proof (cases "w_fault w (w_tick w)")
    case None
    with w have "log_grew log s [] w w'" by (auto simp: write_all_def intro!: log_grew_append)
    then show ?thesis by blast
  next
    case (Some f)
    with w have "log_grew log (take (snd f) s) [] w w'" "r = Inl (Io (fst f))"
      by (auto simp: write_all_def split: prod.splits intro!: log_grew_append)
    then show ?thesis by (metis append_take_drop_id sum.distinct(1))
  qed
qed

lemma emits_try_wait:
  "emits log (try_wait log)
     (\<lambda>r t h. (\<forall>code. r = Inr (Some code) \<longrightarrow> h = [Reported code]) \<and> (r = Inr None \<longrightarrow> h = []))"
  by (rule emitsI)
     (auto simp: try_wait_def Let_def split: prod.splits child_status.splits intro!: log_grew_append exI)

lemma emits_wait: "emits log (wait_child log) (\<lambda>r t h. h = [])"
proof (rule emitsI)
  fix w r w' assume "wait_child log w = Some (r, w')"
  then have "log_grew log (if w_fault w (w_tick w) = None then fst (w_poll w (w_tick w)) else []) [] w w'"
    by (auto simp: wait_child_def split: option.splits intro!: log_grew_append log_grew_Nil)
  then show "\<exists>t h. log_grew log t h w w' \<and> h = []" by blast
qed

end
