(* ===== verification/Runner_Record.thy ===== *)
theory Runner_Record
  imports Runner_Json Runner_Host "HOL-Library.List_Lexorder"
begin

text \<open>
  The run record on disk, \<open>tools/validation-runner/src/record.rs\<close>: its directory and sequence number,
  its manifest, its journal and its summary.  Strings compare by their scalar values, which is the
  order of their UTF-8 bytes.
\<close>

section \<open>Layout\<close>

definition RECORDS_DIRECTORY :: scalar_string where "RECORDS_DIRECTORY = scalars ''runs''"

definition MANIFEST_FILE :: scalar_string where "MANIFEST_FILE = scalars ''manifest.json''"

definition JOURNAL_FILE :: scalar_string where "JOURNAL_FILE = scalars ''journal.jsonl''"

definition SUMMARY_FILE :: scalar_string where "SUMMARY_FILE = scalars ''summary.md''"

definition SEGMENTS_DIRECTORY :: scalar_string where "SEGMENTS_DIRECTORY = scalars ''segments''"

definition MAX_SEQUENCE :: nat where "MAX_SEQUENCE = 99"

record run_record =
  rr_root :: path
  rr_identifier :: scalar_string

section \<open>Sequence numbers\<close>

text \<open>\<open>str::get(..n)\<close>: the characters of the first \<open>n\<close> bytes, when \<open>n\<close> is a character boundary.\<close>

definition utf8_length :: "nat \<Rightarrow> nat" where
  "utf8_length c = (if c < 0x80 then 1 else if c < 0x800 then 2 else if c < 0x10000 then 3 else 4)"

primrec str_get_to :: "scalar_string \<Rightarrow> nat \<Rightarrow> scalar_string option" where
  "str_get_to [] n = (if n = 0 then Some [] else None)"
| "str_get_to (c # cs) n =
     (if n = 0 then Some []
      else if utf8_length c \<le> n then map_option (Cons c) (str_get_to cs (n - utf8_length c))
      else None)"

definition strip_prefix :: "scalar_string \<Rightarrow> scalar_string \<Rightarrow> scalar_string option" where
  "strip_prefix p s = (if take (length p) s = p then Some (drop (length p) s) else None)"

definition name_sequence :: "scalar_string \<Rightarrow> scalar_string \<Rightarrow> nat option" where
  "name_sequence pre name = do {
     rest \<leftarrow> strip_prefix pre name;
     digits \<leftarrow> str_get_to rest 2;
     parse_unsigned (2 ^ 32) digits
   }"

fun highest_sequence :: "scalar_string \<Rightarrow> nat \<Rightarrow> scalar_string list \<Rightarrow> nat" where
  "highest_sequence pre highest [] = highest"
| "highest_sequence pre highest (name # names) =
     (case name_sequence pre name of
        None \<Rightarrow> highest_sequence pre highest names
      | Some n \<Rightarrow> highest_sequence pre (max highest n) names)"

definition next_sequence :: "path \<Rightarrow> scalar_string \<Rightarrow> nat io" where
  "next_sequence tier_root date =
     bind_io (read_dir tier_root) (\<lambda>names.
       let highest = highest_sequence (date @ scalars ''-'') 0 names
       in if highest + 1 < 2 ^ 32 \<and> highest + 1 \<le> MAX_SEQUENCE then ret (highest + 1)
          else lift_result (failed (scalars ''this date already holds '' @ display_nat MAX_SEQUENCE @
                 scalars '' records for this tier'')))"

section \<open>Creating and finding records\<close>

definition record_create :: "path \<Rightarrow> scalar_string \<Rightarrow> scalar_string \<Rightarrow> scalar_string \<Rightarrow> run_record io" where
  "record_create records_root tier date topic =
     (let tier_root = path_join records_root tier in
      bind_io (create_dir_all tier_root) (\<lambda>_.
      bind_io (next_sequence tier_root date) (\<lambda>sequence.
        let identifier = date @ scalars ''-'' @ pad_zero 2 (display_nat sequence) @ scalars ''-'' @ topic;
            root = path_join tier_root identifier
        in bind_io (create_dir_all (path_join root SEGMENTS_DIRECTORY)) (\<lambda>_.
             ret \<lparr>rr_root = root, rr_identifier = identifier\<rparr>))))"

definition record_open :: "path \<Rightarrow> run_record io" where
  "record_open root =
     (case file_name root of
        None \<Rightarrow> lift_result (failed (scalars ''a record directory must have a name''))
      | Some identifier \<Rightarrow>
          bind_io (is_dir root) (\<lambda>d.
            if d then ret \<lparr>rr_root = root, rr_identifier = identifier\<rparr>
            else lift_result (failed (scalars ''`'' @ identifier @ scalars ''` is not a record directory''))))"

fun directory_names :: "path \<Rightarrow> scalar_string list \<Rightarrow> scalar_string list io" where
  "directory_names tier_root [] = ret []"
| "directory_names tier_root (name # names) =
     bind_io (is_dir (path_join tier_root name)) (\<lambda>d.
     bind_io (directory_names tier_root names) (\<lambda>rest. ret (if d then name # rest else rest)))"

definition record_latest :: "path \<Rightarrow> scalar_string \<Rightarrow> run_record option io" where
  "record_latest records_root tier =
     (let tier_root = path_join records_root tier in
      bind_io (is_dir tier_root) (\<lambda>d.
        if \<not> d then ret None
        else bind_io (read_dir tier_root) (\<lambda>listed.
             bind_io (directory_names tier_root listed) (\<lambda>names.
               (case rev (sort names) of
                  [] \<Rightarrow> ret None
                | name # _ \<Rightarrow> bind_io (record_open (path_join tier_root name)) (\<lambda>r. ret (Some r)))))))"

section \<open>Writing\<close>

definition write_manifest :: "run_record \<Rightarrow> json_object \<Rightarrow> unit io" where
  "write_manifest r manifest =
     (let p = path_join (rr_root r) MANIFEST_FILE in
      bind_io (file_create p) (\<lambda>_.
      bind_io (write_all p (object_encode manifest @ [newline])) (\<lambda>_. sync_all p)))"

definition append_journal :: "run_record \<Rightarrow> json_object \<Rightarrow> unit io" where
  "append_journal r entry =
     (let p = path_join (rr_root r) JOURNAL_FILE in
      bind_io (open_append p) (\<lambda>_.
      bind_io (write_all p (object_encode entry @ [newline])) (\<lambda>_. sync_all p)))"

definition write_summary :: "run_record \<Rightarrow> scalar_string \<Rightarrow> unit io" where
  "write_summary r body =
     (let p = path_join (rr_root r) SUMMARY_FILE in
      bind_io (file_create p) (\<lambda>_. bind_io (write_all p body) (\<lambda>_. sync_all p)))"

definition evidence_name :: "scalar_string \<Rightarrow> nat \<Rightarrow> scalar_string" where
  "evidence_name segment attempt = segment @ scalars ''-'' @ pad_zero 2 (display_nat attempt) @ scalars ''.txt''"

definition evidence_path :: "run_record \<Rightarrow> scalar_string \<Rightarrow> nat \<Rightarrow> path" where
  "evidence_path r segment attempt =
     path_join (path_join (rr_root r) SEGMENTS_DIRECTORY) (evidence_name segment attempt)"

definition evidence_reference :: "scalar_string \<Rightarrow> nat \<Rightarrow> scalar_string" where
  "evidence_reference segment attempt = SEGMENTS_DIRECTORY @ scalars ''/'' @ evidence_name segment attempt"

section \<open>Reading the journal\<close>

record journal_entry =
  je_segment :: scalar_string
  je_attempt :: u32
  je_status :: scalar_string
  je_evidence_identity :: scalar_string
  je_evidence :: scalar_string

definition entry_of_fields :: "fields \<Rightarrow> runner_error + journal_entry" where
  "entry_of_fields fs =
     (case string_field fs (scalars ''segment'') of
        None \<Rightarrow> failed (scalars ''a journal entry must name its segment'')
      | Some segment \<Rightarrow>
     (case string_field fs (scalars ''status'') of
        None \<Rightarrow> failed (scalars ''a journal entry must state its status'')
      | Some status \<Rightarrow>
     (case string_field fs (scalars ''evidence_identity'') of
        None \<Rightarrow> failed (scalars ''a journal entry must state the identity it holds under'')
      | Some identity \<Rightarrow>
          let attempt = (case number_field fs (scalars ''attempt'') of None \<Rightarrow> 0 | Some n \<Rightarrow> n)
          in if 2 ^ 32 \<le> unat attempt
             then failed (scalars ''a journal entry states an attempt number it cannot hold'')
             else Inr \<lparr>je_segment = segment, je_attempt = ucast attempt, je_status = status,
                       je_evidence_identity = identity,
                       je_evidence = (case string_field fs (scalars ''evidence'') of None \<Rightarrow> [] | Some e \<Rightarrow> e)\<rparr>)))"

definition entry_parse :: "scalar_string \<Rightarrow> runner_error + journal_entry" where
  "entry_parse line = and_then (parse_flat_object line) entry_of_fields"

fun parse_lines :: "scalar_string list \<Rightarrow> runner_error + journal_entry list" where
  "parse_lines [] = Inr []"
| "parse_lines (l # ls) =
     and_then (entry_parse l) (\<lambda>e. and_then (parse_lines ls) (\<lambda>es. Inr (e # es)))"

definition parse_journal :: "scalar_string \<Rightarrow> runner_error + journal_entry list" where
  "parse_journal journal = parse_lines (filter (\<lambda>l. trim l \<noteq> []) (lines journal))"

definition record_entries :: "run_record \<Rightarrow> journal_entry list io" where
  "record_entries r =
     (let p = path_join (rr_root r) JOURNAL_FILE in
      bind_io (path_exists p) (\<lambda>x.
        if \<not> x then ret []
        else bind_io (read_to_string p) (\<lambda>journal. lift_result (parse_journal journal))))"

definition attempts_for :: "run_record \<Rightarrow> scalar_string \<Rightarrow> nat io" where
  "attempts_for r segment =
     bind_io (record_entries r) (\<lambda>es.
       let attempts = length (filter (\<lambda>e. je_segment e = segment) es)
       in lift_result (if attempts < 2 ^ 32 then Inr attempts
            else failed (scalars ''this record holds more attempts than it can count'')))"

definition last_for :: "scalar_string \<Rightarrow> journal_entry list \<Rightarrow> journal_entry option" where
  "last_for segment es = find (\<lambda>e. je_segment e = segment) (rev es)"

definition last_entry_for :: "run_record \<Rightarrow> scalar_string \<Rightarrow> journal_entry option io" where
  "last_entry_for r segment = bind_io (record_entries r) (\<lambda>es. ret (last_for segment es))"

definition recorded_identity :: "run_record \<Rightarrow> scalar_string option io" where
  "recorded_identity r = bind_io (record_entries r) (\<lambda>es.
     ret (if es = [] then None else Some (je_evidence_identity (last es))))"

section \<open>The journal line by line\<close>

definition ends_line :: "scalar_string \<Rightarrow> bool" where
  "ends_line j \<longleftrightarrow> j = [] \<or> last j = newline"

lemma split_on_not_Nil [simp]: "split_on c s \<noteq> []"
  by (induction s) (auto split: list.splits)

lemma split_on_append: "split_on c (xs @ c # ys) = split_on c xs @ split_on c ys"
  by (induction xs) (auto split: list.splits simp: append_eq_Cons_conv)

lemma split_on_absent: "c \<notin> set xs \<Longrightarrow> split_on c xs = [xs]"
  by (induction xs) auto

lemma lines_append:
  assumes "ends_line j" "newline \<notin> set l"
  shows "lines (j @ l @ [newline]) = lines j @ [strip_cr l]" "lines j = map strip_cr (butlast (split_on newline j))"
proof -
  obtain ps where ps: "split_on newline j = ps @ [[]]" "split_on newline (j @ l @ [newline]) = ps @ [l, []]"
  proof (cases "j = []")
    case True
    then show ?thesis using that [of "[]"] split_on_append [of newline l "[]"] split_on_absent [OF assms(2)] by simp
  next
    case False
    then obtain j' where j: "j = j' @ [newline]" using assms(1) by (metis append_butlast_last_id ends_line_def)
    show ?thesis
    proof (rule that [of "split_on newline j'"])
      show "split_on newline j = split_on newline j' @ [[]]" using split_on_append [of newline j' "[]"] by (simp add: j)
      show "split_on newline (j @ l @ [newline]) = split_on newline j' @ [l, []]"
        using split_on_append [of newline j' "l @ [newline]"] split_on_append [of newline l "[]"]
          split_on_absent [OF assms(2)] by (simp add: j)
    qed
  qed
  show "lines (j @ l @ [newline]) = lines j @ [strip_cr l]" "lines j = map strip_cr (butlast (split_on newline j))"
    by (simp_all add: lines_def ps butlast_append)
qed

lemma parse_lines_append:
  "parse_lines (ls @ [l]) =
     and_then (parse_lines ls) (\<lambda>es. and_then (entry_parse l) (\<lambda>e. Inr (es @ [e])))"
  by (induction ls) (auto simp: and_then_def split: sum.split)

lemma newline_quote_char: "newline \<notin> set (quote_char c)"
  by (auto simp: quote_char_def scalars_def hex_digit_def from_digit16_def)

lemma newline_quote: "newline \<notin> set (quote s)"
  using newline_quote_char by (auto simp: quote_def)

lemma newline_display: "newline \<notin> set (display_nat n)"
  using display_nat_digits [of n] by (auto simp: list_all_iff is_ascii_digit_def)

lemma newline_field_text: "newline \<notin> set (field_text f)"
  using newline_quote newline_display
  by (auto simp: field_text_def value_text_def split: json_value.splits)

lemma newline_flat_object: "newline \<notin> set (object_encode (flat_object fs))"
proof (cases fs)
  case Nil
  then show ?thesis by (simp add: object_encode_def flat_object_def object_new_def)
next
  case (Cons f gs)
  then show ?thesis using newline_field_text by (auto simp: object_encode_def flat_object_body)
qed

lemma strip_cr_encoded: "strip_cr (x @ object_encode obj) = x @ object_encode obj"
  by (simp add: strip_cr_def object_encode_def)

lemma trim_encoded: "trim (object_encode obj @ x) \<noteq> []"
  by (auto simp: trim_eq_Nil object_encode_def is_whitespace_def)

lemma entry_parse_flat: "entry_parse (object_encode (flat_object fs) @ junk) = entry_of_fields fs"
  by (simp add: entry_parse_def parse_flat_object_suffix and_then_def)

lemma parse_journal_line:
  assumes "ends_line j" "newline \<notin> set junk" "junk = [] \<or> last junk \<noteq> 13"
  shows "parse_journal (j @ object_encode (flat_object fs) @ junk @ [newline]) =
     and_then (parse_journal j) (\<lambda>es. and_then (entry_of_fields fs) (\<lambda>e. Inr (es @ [e])))"
proof -
  define l where "l = object_encode (flat_object fs) @ junk"
  have "newline \<notin> set l" using newline_flat_object assms(2) by (auto simp: l_def)
  moreover have "strip_cr l = l" using assms(3) by (auto simp: l_def strip_cr_def object_encode_def)
  ultimately have "lines (j @ l @ [newline]) = lines j @ [l]" using lines_append(1) [OF assms(1)] by metis
  then show ?thesis
    using trim_encoded [of "flat_object fs" junk]
    by (simp add: parse_journal_def l_def parse_lines_append entry_parse_flat)
qed

text \<open>
  C27: what one appended line adds to a journal.  The journal has all its earlier entries, in order,
  and the new one last, whatever the fields hold.  But when the newline of an earlier line was
  never written, the line that follows it is lost: the journal then reads as if only the first of
  the two had been written.
\<close>

theorem journal_append_read:
  "parse_journal (concat (map (\<lambda>fs. object_encode (flat_object fs) @ [newline]) old) @
       object_encode (flat_object fs) @ [newline]) =
     and_then (parse_journal (concat (map (\<lambda>fs. object_encode (flat_object fs) @ [newline]) old)))
       (\<lambda>es. and_then (entry_of_fields fs) (\<lambda>e. Inr (es @ [e]))) \<and>
   parse_journal (concat (map (\<lambda>fs. object_encode (flat_object fs) @ [newline]) old) @
       object_encode (flat_object fs) @ object_encode (flat_object lost) @ [newline]) =
     parse_journal (concat (map (\<lambda>fs. object_encode (flat_object fs) @ [newline]) old) @
       object_encode (flat_object fs) @ [newline])"
proof -
  have "ends_line (concat (map (\<lambda>fs. object_encode (flat_object fs) @ [newline]) old))"
    by (induction old rule: rev_induct) (simp_all add: ends_line_def)
  note line = parse_journal_line [OF this, of _ fs]
  have "newline \<notin> set (object_encode (flat_object lost))" "last (object_encode (flat_object lost)) \<noteq> 13"
    by (simp_all add: newline_flat_object) (simp add: object_encode_def)
  then show ?thesis using line [of "[]"] line [of "object_encode (flat_object lost)"] by simp
qed

end
