(* ===== verification/Runner_Segment.thy ===== *)
theory Runner_Segment
  imports Runner_Host
begin

text \<open>
  Segment execution, \<open>tools/validation-runner/src/segment.rs\<close>: the status of an attempt, the commands
  of a segment, and how one attempt runs them in order under a shared wall-clock budget.  Durations
  are nanoseconds.
\<close>

section \<open>Status\<close>

datatype status = Pass | Fail | Timeout | Skipped | Cached

primrec status_as_str :: "status \<Rightarrow> scalar_string" where
  "status_as_str Pass = scalars ''pass''"
| "status_as_str Fail = scalars ''fail''"
| "status_as_str Timeout = scalars ''timeout''"
| "status_as_str Skipped = scalars ''skipped''"
| "status_as_str Cached = scalars ''cached''"

definition status_parse :: "scalar_string \<Rightarrow> status option" where
  "status_parse v =
     (if v = scalars ''pass'' then Some Pass
      else if v = scalars ''fail'' then Some Fail
      else if v = scalars ''timeout'' then Some Timeout
      else if v = scalars ''skipped'' then Some Skipped
      else if v = scalars ''cached'' then Some Cached
      else None)"

definition holds :: "status \<Rightarrow> bool" where
  "holds s = (case s of Pass \<Rightarrow> True | Cached \<Rightarrow> True | _ \<Rightarrow> False)"

definition executed :: "status \<Rightarrow> bool" where
  "executed s = (case s of Cached \<Rightarrow> False | _ \<Rightarrow> True)"

section \<open>Steps and outcomes\<close>

record segment_step =
  step_program :: scalar_string
  step_args :: "scalar_string list"

definition step_new :: "string \<Rightarrow> string list \<Rightarrow> segment_step" where
  "step_new program args = \<lparr>step_program = scalars program, step_args = map scalars args\<rparr>"

definition step_display :: "segment_step \<Rightarrow> scalar_string" where
  "step_display s =
     (if step_args s = [] then step_program s
      else step_program s @ scalars '' '' @ join_with (scalars '' '') (step_args s))"

definition step_command :: "segment_step \<Rightarrow> command_line" where
  "step_command s = \<lparr>cmd_program = step_program s, cmd_args = step_args s\<rparr>"

record segment_outcome =
  oc_status :: status
  oc_duration :: nat
  oc_note :: "scalar_string option"

datatype step_result = Passed | StepFailed scalar_string | TimedOut

section \<open>Execution\<close>

definition display_int :: "int \<Rightarrow> scalar_string" where
  "display_int n = display_int_padded 0 n"

definition describe_exit :: "int option \<Rightarrow> scalar_string" where
  "describe_exit code =
     (case code of
        None \<Rightarrow> scalars ''termination by signal''
      | Some c \<Rightarrow> scalars ''exit status '' @ display_int c)"

text \<open>\<open>writeln!\<close> to the log, and the flush after it.\<close>

definition log_line :: "path \<Rightarrow> scalar_string \<Rightarrow> unit io" where
  "log_line log s = bind_io (write_all log (s @ [newline])) (\<lambda>_. sync_all log)"

definition timed_out :: "path \<Rightarrow> segment_step \<Rightarrow> nat \<Rightarrow> segment_outcome io" where
  "timed_out log s duration =
     (let note = scalars ''`'' @ step_display s @ scalars ''` exceeded the segment budget''
      in bind_io (log_line log (scalars ''['' @ note @ scalars '']'')) (\<lambda>_.
           ret \<lparr>oc_status = Timeout, oc_duration = duration, oc_note = Some note\<rparr>))"

text \<open>
  The polling loop of \<open>run_step\<close>.  Between two looks the runner sleeps, which is a host operation
  that only lets time pass.
\<close>

partial_function (option) poll_loop :: "path \<Rightarrow> segment_step \<Rightarrow> nat \<Rightarrow> nat \<Rightarrow> world \<Rightarrow> ((runner_error + step_result) \<times> world) option" where
  "poll_loop log s started remaining w =
     (case try_wait log w of
        None \<Rightarrow> None
      | Some (Inl e, w1) \<Rightarrow> Some (Inl e, w1)
      | Some (Inr (Some code), w1) \<Rightarrow>
          Some (Inr (if code = Some 0 then Passed
                     else StepFailed (scalars ''`'' @ step_display s @ scalars ''` reported '' @ describe_exit code)), w1)
      | Some (Inr None, w1) \<Rightarrow>
          if w_clock w1 (w_tick w1) - started \<ge> remaining
          then bind_io kill_child (\<lambda>_. bind_io (wait_child log) (\<lambda>_. ret TimedOut)) (tick w1)
          else poll_loop log s started remaining (tick (tick w1)))"

definition run_step :: "path \<Rightarrow> segment_step \<Rightarrow> nat \<Rightarrow> step_result io" where
  "run_step log s remaining =
     bind_io (try_clone log) (\<lambda>_. bind_io (try_clone log) (\<lambda>_.
     bind_io (spawn_child (step_command s)) (\<lambda>spawned.
       (case spawned of
          Some e \<Rightarrow> ret (StepFailed (scalars ''`'' @ step_display s @ scalars ''` could not start: '' @ scalars (io_text e)))
        | None \<Rightarrow> bind_io instant_now (\<lambda>started. poll_loop log s started remaining)))))"

definition probe :: "segment_step \<Rightarrow> bool io" where
  "probe s w =
     (case command_output_of (step_command s) w of
        Some (Inr r, w') \<Rightarrow> Some (Inr (out_success r), w')
      | Some (Inl _, w') \<Rightarrow> Some (Inr False, w')
      | None \<Rightarrow> None)"

definition elapsed_since :: "nat \<Rightarrow> nat io" where
  "elapsed_since started = bind_io instant_now (\<lambda>now. ret (now - started))"

text \<open>The two ways an attempt stops early: a step that failed, and a step over the budget.\<close>

definition stop_failed :: "path \<Rightarrow> nat \<Rightarrow> scalar_string \<Rightarrow> segment_outcome io" where
  "stop_failed log started note =
     bind_io (log_line log (scalars ''['' @ note @ scalars '']'')) (\<lambda>_.
     bind_io (elapsed_since started) (\<lambda>d.
       ret \<lparr>oc_status = Fail, oc_duration = d, oc_note = Some note\<rparr>))"

definition stop_timed_out :: "path \<Rightarrow> nat \<Rightarrow> segment_step \<Rightarrow> segment_outcome io" where
  "stop_timed_out log started s = bind_io (elapsed_since started) (timed_out log s)"

fun run_steps :: "path \<Rightarrow> nat \<Rightarrow> nat \<Rightarrow> segment_step list \<Rightarrow> segment_outcome io" where
  "run_steps log budget started [] =
     bind_io (elapsed_since started) (\<lambda>d. ret \<lparr>oc_status = Pass, oc_duration = d, oc_note = None\<rparr>)"
| "run_steps log budget started (s # ss) =
     bind_io (log_line log (scalars ''$ '' @ step_display s)) (\<lambda>_.
     bind_io (elapsed_since started) (\<lambda>used.
       if budget < used then stop_timed_out log started s
       else bind_io (run_step log s (budget - used)) (\<lambda>r.
         (case r of
            Passed \<Rightarrow> run_steps log budget started ss
          | StepFailed note \<Rightarrow> stop_failed log started note
          | TimedOut \<Rightarrow> stop_timed_out log started s))))"

definition segment_execute :: "segment_step list \<Rightarrow> nat \<Rightarrow> path \<Rightarrow> segment_outcome io" where
  "segment_execute steps budget evidence =
     bind_io (file_create evidence) (\<lambda>_.
     bind_io instant_now (\<lambda>started. run_steps evidence budget started steps))"

section \<open>What an attempt is\<close>

text \<open>
  The specification of one attempt: the steps run in order, each is started only after the one
  before it reported success, and the attempt ends with the first step that cannot start, reports
  a failure, is out of time before it starts or is stopped at the budget.  The evidence has the
  command and the output of every step that was reached, and the reason of the stop.
\<close>

definition step_log :: "segment_step \<Rightarrow> scalar_string \<Rightarrow> scalar_string" where
  "step_log s out = scalars ''$ '' @ step_display s @ [newline] @ out"

definition note_log :: "scalar_string \<Rightarrow> scalar_string" where
  "note_log note = scalars ''['' @ note @ scalars '']'' @ [newline]"

definition budget_note :: "segment_step \<Rightarrow> scalar_string" where
  "budget_note s = scalars ''`'' @ step_display s @ scalars ''` exceeded the segment budget''"

definition start_note :: "segment_step \<Rightarrow> scalar_string \<Rightarrow> scalar_string" where
  "start_note s reason = scalars ''`'' @ step_display s @ scalars ''` could not start: '' @ reason"

definition exit_note :: "segment_step \<Rightarrow> int option \<Rightarrow> scalar_string" where
  "exit_note s code = scalars ''`'' @ step_display s @ scalars ''` reported '' @ describe_exit code"

inductive attempt_runs ::
  "segment_step list \<Rightarrow> status \<Rightarrow> scalar_string option \<Rightarrow> scalar_string \<Rightarrow> host_event list \<Rightarrow> bool" where
  all_passed: "attempt_runs [] Pass None [] []"
| step_passed:
    "attempt_runs (s # ss) st note (step_log s out @ t) (Spawned (step_command s) # Reported (Some 0) # h)"
    if "attempt_runs ss st note t h"
| step_refused:
    "attempt_runs (s # ss) Fail (Some (start_note s reason))
       (step_log s [] @ note_log (start_note s reason)) [Refused (step_command s)]"
| step_failed:
    "attempt_runs (s # ss) Fail (Some (exit_note s code))
       (step_log s out @ note_log (exit_note s code)) [Spawned (step_command s), Reported code]"
    if "code \<noteq> Some 0"
| step_late:
    "attempt_runs (s # ss) Timeout (Some (budget_note s)) (step_log s [] @ note_log (budget_note s)) []"
| step_killed:
    "attempt_runs (s # ss) Timeout (Some (budget_note s))
       (step_log s out @ note_log (budget_note s)) [Spawned (step_command s), Killed]"

inductive_cases attempt_runs_NilE: "attempt_runs [] st note t h"

text \<open>How one step ends, and with what events.\<close>

definition step_ends :: "segment_step \<Rightarrow> step_result \<Rightarrow> scalar_string \<Rightarrow> host_event list \<Rightarrow> bool" where
  "step_ends s r out h \<longleftrightarrow>
     (case r of
        Passed \<Rightarrow> h = [Spawned (step_command s), Reported (Some 0)]
      | TimedOut \<Rightarrow> h = [Spawned (step_command s), Killed]
      | StepFailed note \<Rightarrow>
          (\<exists>reason. note = start_note s reason \<and> out = [] \<and> h = [Refused (step_command s)]) \<or>
          (\<exists>code. code \<noteq> Some 0 \<and> note = exit_note s code \<and> h = [Spawned (step_command s), Reported code]))"

abbreviation (input) outcome_of :: "segment_step list \<Rightarrow> runner_error + segment_outcome \<Rightarrow> scalar_string \<Rightarrow> host_event list \<Rightarrow> bool" where
  "outcome_of steps r t h \<equiv> \<forall>oc. r = Inr oc \<longrightarrow> attempt_runs steps (oc_status oc) (oc_note oc) t h"

section \<open>Execution implements the specification\<close>

lemma emits_log_line: "emits log (log_line log s) (\<lambda>r t h. h = [] \<and> (\<forall>x. r = Inr x \<longrightarrow> t = s @ [newline]))"
  unfolding log_line_def
  by (rule emits_bind [OF emits_write]) (auto intro!: emits_mono [OF emits_sync])

lemma emits_elapsed: "emits log (elapsed_since started) (\<lambda>r t h. t = [] \<and> h = [] \<and> (\<exists>n. r = Inr n))"
  unfolding elapsed_since_def
  by (rule emits_bind [OF emits_instant]) (auto intro: emits_ret)

definition poll_ends :: "segment_step \<Rightarrow> runner_error + step_result \<Rightarrow> host_event list \<Rightarrow> bool" where
  "poll_ends s r h \<longleftrightarrow>
     (case r of
        Inl _ \<Rightarrow> True
      | Inr Passed \<Rightarrow> h = [Reported (Some 0)]
      | Inr TimedOut \<Rightarrow> h = [Killed]
      | Inr (StepFailed note) \<Rightarrow> (\<exists>code. code \<noteq> Some 0 \<and> note = exit_note s code \<and> h = [Reported code]))"

lemma emits_stop_child:
  "emits log (bind_io kill_child (\<lambda>_. bind_io (wait_child log) (\<lambda>_. ret TimedOut))) (\<lambda>r t h. poll_ends s r h)"
  by (rule emits_bind [OF emits_kill])
     (auto simp: poll_ends_def intro!: emits_bind [OF emits_wait] emits_ret)

lemma log_grew_tick: "log_grew log t h (tick w) w' \<Longrightarrow> log_grew log t h w w'"
  using log_grew_trans [OF log_grew_Nil [of w "tick w" "[]" log]] by fastforce

lemma emits_poll_loop: "emits log (poll_loop log s started remaining) (\<lambda>r t h. poll_ends s r h)"
proof -
  have "\<exists>t h. log_grew log t h w (snd y) \<and> poll_ends s (fst y) h"
    if "poll_loop log s started remaining w = Some y" for w y
    using that
  proof (rule poll_loop.raw_induct [rotated,
        where P = "\<lambda>log s started remaining w y. \<exists>t h. log_grew log t h w (snd y) \<and> poll_ends s (fst y) h"])
    fix f log s started remaining w y
    assume IH: "\<And>log s started remaining w y. f log s started remaining w = Some y \<Longrightarrow>
        \<exists>t h. log_grew log t h w (snd y) \<and> poll_ends s (fst y) h"
      and body: "(case try_wait log w of
        None \<Rightarrow> None
      | Some (Inl e, w1) \<Rightarrow> Some (Inl e, w1)
      | Some (Inr (Some code), w1) \<Rightarrow>
          Some (Inr (if code = Some 0 then Passed
                     else StepFailed (scalars ''`'' @ step_display s @ scalars ''` reported '' @ describe_exit code)), w1)
      | Some (Inr None, w1) \<Rightarrow>
          if w_clock w1 (w_tick w1) - started \<ge> remaining
          then bind_io kill_child (\<lambda>_. bind_io (wait_child log) (\<lambda>_. ret TimedOut)) (tick w1)
          else f log s started remaining (tick (tick w1))) = Some y"
    obtain r1 w1 where tw: "try_wait log w = Some (r1, w1)" using body by (cases "try_wait log w") auto
    obtain t h where t: "log_grew log t h w w1"
      and h: "\<forall>code. r1 = Inr (Some code) \<longrightarrow> h = [Reported code]" "r1 = Inr None \<longrightarrow> h = []"
      using emitsD [OF emits_try_wait tw] by blast
    have "w1 = snd y \<and> poll_ends s (fst y) h \<or>
        h = [] \<and> (\<exists>u k. log_grew log u k w1 (snd y) \<and> poll_ends s (fst y) k)"
    proof (cases "r1 = Inr None")
      case True
      then show ?thesis
        using body tw h emitsD [OF emits_stop_child, of log "tick w1" "fst y" "snd y" s]
          IH [of log s started remaining "tick (tick w1)" y]
        by (auto split: if_splits dest!: log_grew_tick)
    next
      case False
      then show ?thesis
        using body tw h by (auto simp: poll_ends_def exit_note_def split: sum.splits option.splits)
    qed
    then show "\<exists>t h. log_grew log t h w (snd y) \<and> poll_ends s (fst y) h"
      using t log_grew_trans [OF t] by fastforce
  qed
  then show ?thesis by (fastforce simp: emits_def)
qed

lemma emits_run_step:
  "emits log (run_step log s remaining) (\<lambda>r t h. \<forall>x. r = Inr x \<longrightarrow> step_ends s x t h)"
  unfolding run_step_def
proof (intro emits_bind [OF emits_try_clone], goal_cases)
  case (3 x t h y u k)
  then have e: "t = []" "h = []" "u = []" "k = []" by simp_all
  show ?case unfolding e
  proof (rule emits_bind [OF emits_spawn], goal_cases)
    case (2 spawned v j)
    then show ?case
      by (cases spawned)
         (auto simp: step_ends_def start_note_def poll_ends_def split: step_result.splits
           intro!: emits_ret emits_bind [OF emits_instant] emits_mono [OF emits_poll_loop])
  qed simp
qed simp_all

lemma emits_timed_out:
  "emits log (timed_out log s d)
     (\<lambda>r t h. h = [] \<and> (\<forall>oc. r = Inr oc \<longrightarrow>
        oc_status oc = Timeout \<and> oc_note oc = Some (budget_note s) \<and> t = note_log (budget_note s)))"
  unfolding timed_out_def Let_def
  by (rule emits_bind [OF emits_log_line]) (auto simp: note_log_def budget_note_def intro!: emits_ret)

lemma emits_stop_timed_out:
  "emits log (stop_timed_out log started s)
     (\<lambda>r t h. h = [] \<and> (\<forall>oc. r = Inr oc \<longrightarrow>
        oc_status oc = Timeout \<and> oc_note oc = Some (budget_note s) \<and> t = note_log (budget_note s)))"
  unfolding stop_timed_out_def
  by (rule emits_bind [OF emits_elapsed]) (auto intro!: emits_mono [OF emits_timed_out])

lemma emits_stop_failed:
  "emits log (stop_failed log started note)
     (\<lambda>r t h. h = [] \<and> (\<forall>oc. r = Inr oc \<longrightarrow>
        oc_status oc = Fail \<and> oc_note oc = Some note \<and> t = note_log note))"
  unfolding stop_failed_def
proof (rule emits_bind [OF emits_log_line], goal_cases)
  case (2 x t)
  then show ?case by (intro emits_bind [OF emits_elapsed]) (auto simp: note_log_def intro!: emits_ret)
qed simp

text \<open>How the rest of an attempt continues after a step.\<close>

lemma emits_after_step:
  assumes "step_ends s x out h" and "emits log rest (outcome_of ss)"
  shows "emits log (case x of
            Passed \<Rightarrow> rest
          | StepFailed note \<Rightarrow> stop_failed log started note
          | TimedOut \<Rightarrow> stop_timed_out log started s)
     (\<lambda>r u k. outcome_of (s # ss) r (step_log s out @ u) (h @ k))"
proof (cases x)
  case Passed
  then show ?thesis using assms
    by (auto simp: step_ends_def intro!: emits_mono [OF assms(2)] attempt_runs.step_passed)
next
  case (StepFailed reason)
  then show ?thesis using assms
    by (auto simp: step_ends_def intro!: emits_mono [OF emits_stop_failed]
        attempt_runs.step_failed attempt_runs.step_refused)
next
  case TimedOut
  then show ?thesis using assms
    by (auto simp: step_ends_def intro!: emits_mono [OF emits_stop_timed_out] attempt_runs.step_killed)
qed

lemma emits_run_steps: "emits log (run_steps log budget started steps) (outcome_of steps)"
proof (induction steps)
  case Nil
  show ?case unfolding run_steps.simps
    by (rule emits_bind [OF emits_elapsed]) (auto intro!: emits_ret attempt_runs.all_passed)
next
  case (Cons s ss)
  have l: "step_log s [] @ out @ u = step_log s out @ u" for out u by (simp add: step_log_def)
  have late: "emits log (stop_timed_out log started s) (\<lambda>r u k. outcome_of (s # ss) r (step_log s [] @ u) k)"
    by (rule emits_mono [OF emits_stop_timed_out]) (auto intro: attempt_runs.step_late)
  have run: "emits log (bind_io (run_step log s k) (\<lambda>r. case r of
            Passed \<Rightarrow> run_steps log budget started ss
          | StepFailed note \<Rightarrow> stop_failed log started note
          | TimedOut \<Rightarrow> stop_timed_out log started s))
      (\<lambda>r u k. outcome_of (s # ss) r (step_log s [] @ u) k)" for k
    by (rule emits_bind [OF emits_run_step]) (simp_all add: l emits_after_step [OF _ Cons.IH])
  show ?case unfolding run_steps.simps
  proof (rule emits_bind [OF emits_log_line], goal_cases)
    case (2 x t h)
    then have t: "t = step_log s []" "h = []" by (simp_all add: step_log_def)
    show ?case unfolding t by (rule emits_bind [OF emits_elapsed]) (auto simp: late run)
  qed simp
qed

section \<open>Every attempt ends\<close>

text \<open>What the runner relies on of the monotonic clock: it passes every instant and stays past it.\<close>

definition clock_advances :: "world \<Rightarrow> bool" where
  "clock_advances w \<longleftrightarrow> (\<forall>b. \<exists>n. \<forall>m \<ge> n. b \<le> w_clock w m)"

definition returns :: "'a io \<Rightarrow> bool" where
  "returns m \<longleftrightarrow> (\<forall>w. clock_advances w \<longrightarrow> m w \<noteq> None)"

lemma clock_advances_same_host: "same_host w w' \<Longrightarrow> clock_advances w' \<longleftrightarrow> clock_advances w"
  by (simp add: clock_advances_def same_host_def)

lemma returns_bind:
  assumes "returns m" "emits log m P" "\<And>x. returns (f x)"
  shows "returns (bind_io m f)"
  unfolding returns_def
proof (intro allI impI)
  fix w assume w: "clock_advances w"
  then obtain r w1 where r: "m w = Some (r, w1)" using assms(1) by (fastforce simp: returns_def)
  then have "clock_advances w1"
    using emitsD [OF assms(2) r] w clock_advances_same_host by (auto simp: log_grew_def)
  then show "bind_io m f w \<noteq> None" using r assms(3) by (simp add: bind_io_def returns_def split: sum.splits)
qed

lemma returns_basic [intro!, simp]:
  "returns (ret x)" "returns instant_now" "returns (sync_all p)" "returns (try_clone p)"
  "returns (write_all p s)" "returns (spawn_child c)"
  by (auto simp: returns_def ret_def instant_now_def sync_all_def try_clone_def file_op_def write_all_def
      spawn_child_def Let_def split: option.splits)

lemma try_wait_returns:
  "\<exists>r w1. try_wait log w = Some (r, w1) \<and> w_clock w1 = w_clock w \<and> w_tick w1 = w_tick w + 1"
  by (auto simp: try_wait_def Let_def tick_def saw_def split: prod.split child_status.split)

lemma poll_loop_returns: "returns (poll_loop log s started remaining)"
  unfolding returns_def
proof (intro allI impI)
  fix w assume "clock_advances w"
  then obtain n where n: "\<forall>m \<ge> n. started + remaining \<le> w_clock w m" by (auto simp: clock_advances_def)
  then show "poll_loop log s started remaining w \<noteq> None"
  proof (induction "n - w_tick w" arbitrary: w rule: less_induct)
    case less
    obtain r w1 where tw: "try_wait log w = Some (r, w1)"
      and w1: "w_clock w1 = w_clock w" "w_tick w1 = w_tick w + 1"
      using try_wait_returns by blast
    have kill: "bind_io kill_child (\<lambda>_. bind_io (wait_child log) (\<lambda>_. ret TimedOut)) w \<noteq> None" for w
      by (auto simp: bind_io_def kill_child_def wait_child_def ret_def split: option.splits)
    have "poll_loop log s started remaining (tick (tick w1)) \<noteq> None"
      if "w_clock w1 (w_tick w1) - started < remaining"
    proof (rule less.hyps)
      have "w_tick w1 < n" using that less.prems [rule_format, of "w_tick w1"] w1 by fastforce
      then show "n - w_tick (tick (tick w1)) < n - w_tick w" using w1 by (simp add: tick_def)
      show "\<forall>m \<ge> n. started + remaining \<le> w_clock (tick (tick w1)) m" using less.prems w1 by (simp add: tick_def)
    qed
    then show ?case using tw kill by (subst poll_loop.simps) (auto split: sum.splits option.splits)
  qed
qed

lemma run_step_returns: "returns (run_step log s remaining)"
  unfolding run_step_def
  by (intro returns_bind [OF _ emits_try_clone] returns_bind [OF _ emits_spawn] returns_basic)
     (auto split: option.split intro!: returns_bind [OF _ emits_instant] poll_loop_returns)

lemma log_line_returns [simp, intro!]: "returns (log_line log s)"
  unfolding log_line_def by (rule returns_bind [OF _ emits_write]) simp_all

lemma elapsed_returns [simp, intro!]: "returns (elapsed_since started)"
  unfolding elapsed_since_def by (rule returns_bind [OF _ emits_instant]) simp_all

lemma stops_return [simp, intro!]:
  "returns (stop_timed_out log started s)" "returns (stop_failed log started reason)"
  unfolding stop_timed_out_def stop_failed_def timed_out_def Let_def
  by (intro returns_bind [OF _ emits_elapsed] returns_bind [OF _ emits_log_line]; simp)+

lemma run_steps_returns: "returns (run_steps log budget started steps)"
proof (induction steps)
  case (Cons s ss)
  show ?case unfolding run_steps.simps
    by (intro returns_bind [OF _ emits_log_line] returns_bind [OF _ emits_elapsed])
       (auto intro!: returns_bind [OF run_step_returns emits_run_step] Cons.IH split: step_result.split)
qed (auto intro!: returns_bind [OF _ emits_elapsed])

lemma file_create_cases:
  obtains (error) e where "file_create p w = Some (Inl e, tick w)"
  | (ok) "file_create p w = Some (Inr (), (tick w)\<lparr>w_fs := AList.update p (File []) (w_fs w)\<rparr>)"
  unfolding file_create_def open_file_def file_op_def
  by (cases "w_fault w (w_tick w)"; cases "p = [] \<or> is_dir_in (w_fs w) p \<or> \<not> is_dir_in (w_fs w) (butlast p)"; auto)

text \<open>Executing an attempt: the evidence file, everything else on disk, and the events.\<close>

lemma segment_execute_effect:
  assumes "segment_execute steps budget p w = Some (r, w')"
  shows "same_host w w' \<and> (\<forall>q. q \<noteq> p \<longrightarrow> map_of (w_fs w') q = map_of (w_fs w) q) \<and>
    (\<exists>h. w_history w' = w_history w @ h \<and>
       (\<forall>oc. r = Inr oc \<longrightarrow> (\<exists>t. map_of (w_fs w') p = Some (File t) \<and>
          attempt_runs steps (oc_status oc) (oc_note oc) t h)))"
proof (cases rule: file_create_cases [of p w])
  case (error e)
  then show ?thesis using assms by (auto simp: segment_execute_def bind_io_def)
next
  case ok
  define w1 where "w1 = (tick w)\<lparr>w_fs := AList.update p (File []) (w_fs w)\<rparr>"
  have w1: "same_host w w1" "w_history w1 = w_history w" "map_of (w_fs w1) = (map_of (w_fs w))(p \<mapsto> File [])"
    by (simp_all add: w1_def update_conv')
  have run: "bind_io instant_now (\<lambda>started. run_steps p budget started steps) w1 = Some (r, w')"
    using assms ok by (simp add: segment_execute_def bind_io_def w1_def)
  have em: "emits p (bind_io instant_now (\<lambda>started. run_steps p budget started steps)) (outcome_of steps)"
    by (rule emits_bind [OF emits_instant]) (auto intro!: emits_mono [OF emits_run_steps])
  obtain t h where "log_grew p t h w1 w'" "outcome_of steps r t h" using emitsD [OF em run] by blast
  then show ?thesis using w1 by (auto simp: log_grew_def intro: same_host_trans)
qed

text \<open>
  C20: an attempt ends, and what it did is an attempt of the specification.  Provided the monotonic
  clock advances, executing the steps of a segment returns whatever its commands do.  When it
  reports an outcome, the steps were started in order and each only after the one before it
  reported success, the attempt passed only if every step reported success, and the evidence file
  has the command and the output of every step reached and the reason of a stop.  No other file
  changes, also when the attempt ends with a host error.
\<close>

theorem segment_execute_attempt:
  assumes "clock_advances w"
  shows "\<exists>r w' h. segment_execute steps budget evidence w = Some (r, w') \<and>
    w_history w' = w_history w @ h \<and>
    (\<forall>p. p \<noteq> evidence \<longrightarrow> map_of (w_fs w') p = map_of (w_fs w) p) \<and>
    (\<forall>oc. r = Inr oc \<longrightarrow>
       (\<exists>t. map_of (w_fs w') evidence = Some (File t) \<and>
            attempt_runs steps (oc_status oc) (oc_note oc) t h))"
proof -
  have "segment_execute steps budget evidence w \<noteq> None"
  proof (cases rule: file_create_cases [of evidence w])
    case ok
    have "returns (bind_io instant_now (\<lambda>started. run_steps evidence budget started steps))"
      by (rule returns_bind [OF _ emits_instant]) (simp_all add: run_steps_returns)
    moreover have "clock_advances ((tick w)\<lparr>w_fs := AList.update evidence (File []) (w_fs w)\<rparr>)"
      using assms by (simp add: clock_advances_def tick_def)
    ultimately show ?thesis using ok by (simp add: segment_execute_def bind_io_def returns_def)
  qed (simp add: segment_execute_def bind_io_def)
  then show ?thesis using segment_execute_effect by fastforce
qed

theorem segment_execute_attempt_witness:
  "clock_advances (calm_host []) \<and>
   (\<exists>r w' h. segment_execute [step_new ''true'' []] 10 [scalars ''log''] (calm_host []) = Some (r, w') \<and>
      w_history w' = h \<and>
      (\<forall>oc. r = Inr oc \<longrightarrow>
         (\<exists>t. map_of (w_fs w') [scalars ''log''] = Some (File t) \<and>
              attempt_runs [step_new ''true'' []] (oc_status oc) (oc_note oc) t h)))"
proof
  show c: "clock_advances (calm_host [])"
    unfolding clock_advances_def calm_host_def by auto
  have "w_history (calm_host []) = []" by (simp add: calm_host_def)
  then show "\<exists>r w' h. segment_execute [step_new ''true'' []] 10 [scalars ''log''] (calm_host []) = Some (r, w') \<and>
      w_history w' = h \<and>
      (\<forall>oc. r = Inr oc \<longrightarrow>
         (\<exists>t. map_of (w_fs w') [scalars ''log''] = Some (File t) \<and>
              attempt_runs [step_new ''true'' []] (oc_status oc) (oc_note oc) t h))"
    using segment_execute_attempt [OF c, of "[step_new ''true'' []]" 10 "[scalars ''log'']"]
    unfolding append_Nil by fastforce
qed

end
