(* ===== verification/Runner_Identity.thy ===== *)
theory Runner_Identity
  imports Runner_Json Runner_Host
begin

text \<open>
  What a record binds its evidence to: the short commands of
  \<open>tools/validation-runner/src/process.rs\<close>, the repository facts of \<open>repo.rs\<close>, and the evidence
  identity and its digest of \<open>identity.rs\<close>.
\<close>

unbundle bit_operations_syntax

section \<open>Commands whose output is read\<close>

definition capture :: "string \<Rightarrow> string list \<Rightarrow> scalar_string io" where
  "capture program args =
     bind_io (command_output_of \<lparr>cmd_program = scalars program, cmd_args = map scalars args\<rparr>) (\<lambda>r.
       if \<not> out_success r
       then lift_result (failed (scalars ''`'' @ scalars program @ scalars '' '' @
              join_with (scalars '' '') (map scalars args) @ scalars ''` failed: '' @ trim (out_stderr r)))
       else ret (trim (out_stdout r)))"

section \<open>Repository facts\<close>

definition COMMIT_IDENTITY_LENGTH :: nat where "COMMIT_IDENTITY_LENGTH = 40"

text \<open>UTF-8, the bytes of a \<open>str\<close>.\<close>

definition utf8_char :: "nat \<Rightarrow> bytes" where
  "utf8_char c =
     (if c < 0x80 then [of_nat c]
      else if c < 0x800 then [of_nat (0xC0 + c div 64), of_nat (0x80 + c mod 64)]
      else if c < 0x10000 then [of_nat (0xE0 + c div 4096), of_nat (0x80 + c div 64 mod 64), of_nat (0x80 + c mod 64)]
      else [of_nat (0xF0 + c div 262144), of_nat (0x80 + c div 4096 mod 64), of_nat (0x80 + c div 64 mod 64),
            of_nat (0x80 + c mod 64)])"

definition as_bytes :: "scalar_string \<Rightarrow> bytes" where
  "as_bytes s = concat (map utf8_char s)"

definition is_commit_identity :: "scalar_string \<Rightarrow> bool" where
  "is_commit_identity v \<longleftrightarrow> length (as_bytes v) = COMMIT_IDENTITY_LENGTH \<and> list_all is_ascii_hexdigit v"

definition repo_root :: "path io" where
  "repo_root =
     bind_io (capture ''git'' [''rev-parse'', ''--show-toplevel'']) (\<lambda>out.
       if out = [] then lift_result (failed (scalars ''the repository root could not be resolved''))
       else ret (components out))"

definition subject_revision :: "scalar_string io" where
  "subject_revision =
     bind_io (capture ''git'' [''rev-parse'', ''HEAD'']) (\<lambda>revision.
       if is_commit_identity revision then ret revision
       else lift_result (failed (scalars ''`git rev-parse HEAD` returned `'' @ revision @
              scalars ''`, which is not a commit identity'')))"

definition working_tree_changes :: "scalar_string list io" where
  "working_tree_changes =
     bind_io (capture ''git'' [''status'', ''--porcelain'']) (\<lambda>out.
       ret (filter (\<lambda>l. l \<noteq> []) (map trim (lines out))))"

section \<open>Evidence identity\<close>

record evidence_identity =
  ei_subject_revision :: scalar_string
  ei_campaign_definition :: scalar_string
  ei_toolchain :: scalar_string
  ei_target :: scalar_string
  ei_features :: scalar_string

definition OFFSET_BASIS :: u64 where "OFFSET_BASIS = 0xcbf29ce484222325"

definition PRIME :: u64 where "PRIME = 0x100000001b3"

definition digest_hash :: "bytes \<Rightarrow> u64" where
  "digest_hash bs = foldl (\<lambda>hash b. (hash XOR ucast b) * PRIME) OFFSET_BASIS bs"

text \<open>\<open>{hash:016x}\<close>: sixteen hexadecimal digits, the most significant first.\<close>

primrec hex_digits :: "nat \<Rightarrow> nat \<Rightarrow> scalar_string" where
  "hex_digits 0 n = []"
| "hex_digits (Suc k) n = hex_digits k (n div 16) @ [from_digit16 (n mod 16)]"

definition digest :: "scalar_string \<Rightarrow> scalar_string" where
  "digest value = hex_digits 16 (unat (digest_hash (as_bytes value)))"

definition identity_digest :: "evidence_identity \<Rightarrow> scalar_string" where
  "identity_digest i = digest (ei_subject_revision i @ scalars ''|'' @ ei_campaign_definition i @ scalars ''|'' @
     ei_toolchain i @ scalars ''|'' @ ei_target i @ scalars ''|'' @ ei_features i)"

definition identity_to_json :: "evidence_identity \<Rightarrow> json_object" where
  "identity_to_json i =
     object_string (scalars ''digest'') (identity_digest i)
     (object_string (scalars ''features'') (ei_features i)
     (object_string (scalars ''target'') (ei_target i)
     (object_string (scalars ''toolchain'') (ei_toolchain i)
     (object_string (scalars ''campaign_definition'') (ei_campaign_definition i)
     (object_string (scalars ''subject_revision'') (ei_subject_revision i) object_new)))))"

fun find_host :: "scalar_string list \<Rightarrow> scalar_string" where
  "find_host [] = []"
| "find_host (l # ls) =
     (if take 6 l = scalars ''host: '' then trim (drop 6 l) else find_host ls)"

definition host_target :: "scalar_string io" where
  "host_target = bind_io (capture ''rustc'' [''--version'', ''--verbose'']) (\<lambda>verbose.
     ret (find_host (lines verbose)))"

definition identity_resolve :: "scalar_string \<Rightarrow> scalar_string \<Rightarrow> evidence_identity io" where
  "identity_resolve revision campaign_definition =
     bind_io (capture ''rustc'' [''--version'']) (\<lambda>toolchain.
     bind_io host_target (\<lambda>target.
       ret \<lparr>ei_subject_revision = revision, ei_campaign_definition = campaign_definition,
            ei_toolchain = toolchain, ei_target = target, ei_features = scalars ''default''\<rparr>))"

section \<open>Laws\<close>

lemma hex_digits_shape: "length (hex_digits k n) = k" "list_all is_ascii_hexdigit (hex_digits k n)"
  by (induction k arbitrary: n) (simp_all add: is_ascii_hexdigit_from_digit16)

lemma hex_digits_numeral:
  "hex_digits (numeral k) n = hex_digits (pred_numeral k) (n div 16) @ [from_digit16 (n mod 16)]"
  by (simp only: numeral_eq_Suc [of k] hex_digits.simps)

lemma hex_value_snoc: "hex_value (s @ [c]) = 16 * hex_value s + to_digit16 c"
  by (simp add: hex_value_def)

lemma hex_value_digits: "hex_value (hex_digits k n) = n mod 16 ^ k"
proof (induction k arbitrary: n)
  case (Suc k)
  show ?case using mod_mult2_eq [of n 16 "16 ^ k"]
    by (simp add: hex_value_snoc Suc to_digit16_from_digit16)
qed (simp add: hex_value_def)

text \<open>The rendering of a digest loses nothing of the hash.\<close>

lemma digest_eq_iff: "digest a = digest b \<longleftrightarrow> digest_hash (as_bytes a) = digest_hash (as_bytes b)"
proof
  assume "digest a = digest b"
  then have "unat (digest_hash (as_bytes a)) mod 16 ^ 16 = unat (digest_hash (as_bytes b)) mod 16 ^ 16"
    unfolding digest_def by (metis hex_value_digits)
  moreover have "unat x mod 16 ^ 16 = unat x" for x :: u64
    using unsigned_less [of x, where 'a=nat] by simp
  ultimately have "unat (digest_hash (as_bytes a)) = unat (digest_hash (as_bytes b))" by metis
  then show "digest_hash (as_bytes a) = digest_hash (as_bytes b)" by (rule unsigned_word_eqI)
qed (simp add: digest_def)

lemma subject_revision_commit:
  "subject_revision w = Some (Inr r, w') \<Longrightarrow> length r = 40 \<and> list_all is_ascii_hexdigit r"
proof -
  assume "subject_revision w = Some (Inr r, w')"
  then have c: "is_commit_identity r"
    by (auto simp: subject_revision_def bind_io_eq_Some ret_def lift_result_def split: if_splits)
  have "length (as_bytes v) = length v" if "list_all is_ascii_hexdigit v" for v
    using that by (induction v)
      (auto simp: as_bytes_def utf8_char_def is_ascii_hexdigit_def is_ascii_digit_def)
  from this [of r] c show ?thesis by (simp add: is_commit_identity_def COMMIT_IDENTITY_LENGTH_def)
qed

text \<open>The published test vectors of the hash: the empty string and a single letter.\<close>

lemma digest_vectors:
  "digest [] = scalars ''cbf29ce484222325''" "digest (scalars ''a'') = scalars ''af63dc4c8601ec8c''"
  by (simp_all add: digest_def digest_hash_def as_bytes_def utf8_char_def scalars_def OFFSET_BASIS_def
      PRIME_def from_digit16_def hex_digits_numeral)

end
