(* ===== verification/Runner_Time.thy ===== *)
theory Runner_Time
  imports Runner_Base
begin

text \<open>
  The UTC timestamps of \<open>tools/validation-runner/src/time.rs\<close>: the conversion of a day count into a
  calendar date by the checked 64-bit arithmetic of the source, and the formatted date and instant.
  The specification is the calendar itself: \<open>next_day\<close>, one day after another from 1970-01-01.
\<close>

section \<open>The clock\<close>

definition SECONDS_PER_DAY :: u64 where "SECONDS_PER_DAY = 86400"

definition SECONDS_PER_HOUR :: u64 where "SECONDS_PER_HOUR = 3600"

definition SECONDS_PER_MINUTE :: u64 where "SECONDS_PER_MINUTE = 60"

definition EPOCH_SHIFT_DAYS :: int where "EPOCH_SHIFT_DAYS = 719468"

definition DAYS_PER_ERA :: int where "DAYS_PER_ERA = 146097"

record utc =
  seconds :: u64

text \<open>\<open>SystemTime::now\<close> is what the host reports: the seconds since the epoch, or a time before it.\<close>

definition utc_now :: "u64 option \<Rightarrow> runner_error + utc" where
  "utc_now elapsed =
     (case elapsed of
        None \<Rightarrow> failed (scalars ''the host clock reports a time before 1970-01-01'')
      | Some s \<Rightarrow> Inr \<lparr>seconds = s\<rparr>)"

definition civil_from_days :: "int \<Rightarrow> (int \<times> u32 \<times> u32) option" where
  "civil_from_days days = do {
     shifted \<leftarrow> i64_add days EPOCH_SHIFT_DAYS;
     era_base \<leftarrow> (if shifted \<ge> 0 then Some shifted
                  else do { d \<leftarrow> i64_sub DAYS_PER_ERA 1; i64_sub shifted d });
     era \<leftarrow> i64_div era_base DAYS_PER_ERA;
     era_days \<leftarrow> i64_mul era DAYS_PER_ERA;
     day_of_era \<leftarrow> i64_sub shifted era_days;
     q4 \<leftarrow> i64_div day_of_era 1460;
     y4 \<leftarrow> i64_sub day_of_era q4;
     q100 \<leftarrow> i64_div day_of_era 36524;
     y100 \<leftarrow> i64_add y4 q100;
     q400 \<leftarrow> i64_div day_of_era 146096;
     y400 \<leftarrow> i64_sub y100 q400;
     year_of_era \<leftarrow> i64_div y400 365;
     era_years \<leftarrow> i64_mul era 400;
     shifted_year \<leftarrow> i64_add year_of_era era_years;
     l4 \<leftarrow> i64_div year_of_era 4;
     l100 \<leftarrow> i64_div year_of_era 100;
     leap_days \<leftarrow> i64_sub l4 l100;
     y365 \<leftarrow> i64_mul year_of_era 365;
     year_start \<leftarrow> i64_add y365 leap_days;
     day_of_year \<leftarrow> i64_sub day_of_era year_start;
     d5 \<leftarrow> i64_mul day_of_year 5;
     d52 \<leftarrow> i64_add d5 2;
     month_position \<leftarrow> i64_div d52 153;
     m153 \<leftarrow> i64_mul month_position 153;
     m1532 \<leftarrow> i64_add m153 2;
     month_start \<leftarrow> i64_div m1532 5;
     day0 \<leftarrow> i64_sub day_of_year month_start;
     day \<leftarrow> i64_add day0 1;
     month \<leftarrow> (if month_position < 10 then i64_add month_position 3 else i64_sub month_position 9);
     year \<leftarrow> (if month \<le> 2 then i64_add shifted_year 1 else Some shifted_year);
     m \<leftarrow> u32_try_from_i64 month;
     d \<leftarrow> u32_try_from_i64 day;
     Some (year, m, d)
   }"

definition civil :: "utc \<Rightarrow> runner_error + int \<times> u32 \<times> u32" where
  "civil t =
     (case u64_div (seconds t) SECONDS_PER_DAY of
        None \<Rightarrow> failed (scalars ''a calendar date could not be derived from the host clock'')
      | Some days \<Rightarrow>
          (case i64_try_from_u64 days of
             None \<Rightarrow> failed (scalars ''the host clock reports a time the runner cannot represent'')
           | Some days \<Rightarrow>
               (case civil_from_days days of
                  None \<Rightarrow> failed (scalars ''the host clock reports a date the runner cannot represent'')
                | Some c \<Rightarrow> Inr c)))"

definition date :: "utc \<Rightarrow> runner_error + scalar_string" where
  "date t = and_then (civil t) (\<lambda>(year, month, day).
     Inr (display_int_padded 4 year @ scalars ''-'' @ pad_zero 2 (display_nat (unat month)) @
          scalars ''-'' @ pad_zero 2 (display_nat (unat day))))"

definition split_day :: "u64 \<Rightarrow> runner_error + u64 \<times> u64 \<times> u64" where
  "split_day seconds_of_day =
     (case do {
         hour \<leftarrow> u64_div seconds_of_day SECONDS_PER_HOUR;
         remainder \<leftarrow> u64_rem seconds_of_day SECONDS_PER_HOUR;
         minute \<leftarrow> u64_div remainder SECONDS_PER_MINUTE;
         second \<leftarrow> u64_rem remainder SECONDS_PER_MINUTE;
         Some (hour, minute, second)
       } of
        None \<Rightarrow> failed (scalars ''a time of day could not be derived from the host clock'')
      | Some parts \<Rightarrow> Inr parts)"

definition timestamp :: "utc \<Rightarrow> runner_error + scalar_string" where
  "timestamp t = and_then (civil t) (\<lambda>(year, month, day).
     (case u64_rem (seconds t) SECONDS_PER_DAY of
        None \<Rightarrow> failed (scalars ''a timestamp could not be derived from the host clock'')
      | Some seconds_of_day \<Rightarrow>
          and_then (split_day seconds_of_day) (\<lambda>(hour, minute, second).
            Inr (display_int_padded 4 year @ scalars ''-'' @
                 pad_zero 2 (display_nat (unat month)) @ scalars ''-'' @
                 pad_zero 2 (display_nat (unat day)) @ scalars ''T'' @
                 pad_zero 2 (display_nat (unat hour)) @ scalars '':'' @
                 pad_zero 2 (display_nat (unat minute)) @ scalars '':'' @
                 pad_zero 2 (display_nat (unat second)) @ scalars ''Z''))))"

section \<open>The calendar\<close>

text \<open>
  The specification: leap years, the lengths of the months, and the day after a day of the proleptic
  Gregorian calendar.
\<close>

definition leap_year :: "int \<Rightarrow> bool" where
  "leap_year y \<longleftrightarrow> 4 dvd y \<and> (\<not> 100 dvd y \<or> 400 dvd y)"

definition days_in_month :: "int \<Rightarrow> int \<Rightarrow> int" where
  "days_in_month y m =
     (if m = 2 then if leap_year y then 29 else 28
      else if m \<in> {4, 6, 9, 11} then 30 else 31)"

definition next_day :: "int \<times> int \<times> int \<Rightarrow> int \<times> int \<times> int" where
  "next_day = (\<lambda>(y, m, d).
     if d < days_in_month y m then (y, m, d + 1)
     else if m < 12 then (y, m + 1, 1) else (y + 1, 1, 1))"

section \<open>The arithmetic without the checks\<close>

definition year_of_era :: "int \<Rightarrow> int" where
  "year_of_era e = (e - e div 1460 + e div 36524 - e div 146096) div 365"

definition year_start :: "int \<Rightarrow> int" where
  "year_start y = 365 * y + (y div 4 - y div 100)"

definition month_position :: "int \<Rightarrow> int" where
  "month_position d = (5 * d + 2) div 153"

definition month_day :: "int \<Rightarrow> int \<times> int" where
  "month_day d =
     (let p = month_position d
      in (if p < 10 then p + 3 else p - 9, d - (153 * p + 2) div 5 + 1))"

definition civil_shifted :: "int \<Rightarrow> int \<times> int \<times> int" where
  "civil_shifted s =
     (let e = s mod 146097; y = year_of_era e; (m, d) = month_day (e - year_start y)
      in (y + 400 * (s div 146097) + (if m \<le> 2 then 1 else 0), m, d))"

text \<open>The days of an era are cut into years of the right length.\<close>

lemma year_table:
  "list_all (\<lambda>y. year_of_era (year_start y) = y \<and> year_of_era (year_start (y + 1) - 1) = y) [0..398]"
  by code_simp

lemma month_table:
  "list_all (\<lambda>d. month_day (d + 1) =
     (let (m, k) = month_day d
      in if m = 2 then (2, k + 1)
         else if k < (if m \<in> {4, 6, 9, 11} then 30 else 31) then (m, k + 1)
         else if m < 12 then (m + 1, 1) else (1, 1))) [0..364]"
  by code_simp

lemma february_table:
  "list_all (\<lambda>d. let (m, k) = month_day d
     in 1 \<le> m \<and> m \<le> 12 \<and> 1 \<le> k \<and> k \<le> 31 \<and> (m = 2 \<longleftrightarrow> 337 \<le> d) \<and> (m = 2 \<longrightarrow> k = d - 336)) [0..365]"
  by code_simp

lemma year_of_era_mono:
  assumes "e \<le> e'"
  shows "year_of_era e \<le> year_of_era e'"
proof -
  have q: "x div 146096 = x div 36524 div 4" for x :: int
    by (simp add: zdiv_zmult2_eq [symmetric])
  have "e - e div 1460 \<le> e' - e' div 1460" using assms by linarith
  moreover have "a - a div 4 \<le> b - b div 4" if "a \<le> b" for a b :: int using that by linarith
  then have "e div 36524 - e div 146096 \<le> e' div 36524 - e' div 146096"
    unfolding q using assms by (simp add: zdiv_mono1)
  ultimately show ?thesis unfolding year_of_era_def by (intro zdiv_mono1) linarith+
qed

lemma year_start_mono: "y \<le> y' \<Longrightarrow> year_start y \<le> year_start y'"
proof -
  assume le: "y \<le> y'"
  have q: "x div 100 = x div 4 div 25" for x :: int by (simp add: zdiv_zmult2_eq [symmetric])
  have "a - a div 25 \<le> b - b div 25" if "a \<le> b" for a b :: int using that by linarith
  from this [of "y div 4" "y' div 4"] show ?thesis
    unfolding year_start_def q using le by (simp add: zdiv_mono1)
qed

lemma year_bounds:
  assumes "0 \<le> y" "y \<le> 398"
  shows "year_of_era (year_start y) = y" "year_of_era (year_start (y + 1) - 1) = y"
  using year_table assms by (simp_all add: list_all_iff)

lemma year_of_era_ends:
  "year_of_era 0 = 0" "year_of_era 146096 = 399" "year_of_era (year_start 399) = 399" "year_start 0 = 0"
  by code_simp+

lemma year_of_era_range:
  assumes "0 \<le> e" "e \<le> 146096"
  shows "0 \<le> year_of_era e" "year_of_era e \<le> 399"
  using year_of_era_mono [OF assms(1)] year_of_era_mono [OF assms(2)]
  by (simp_all add: year_of_era_ends)

lemma year_of_era_start:
  assumes "0 \<le> e" "e \<le> 146096"
  shows "year_start (year_of_era e) \<le> e"
    and "year_of_era e \<le> 398 \<Longrightarrow> e < year_start (year_of_era e + 1)"
proof -
  note r = year_of_era_range [OF assms]
  show "year_start (year_of_era e) \<le> e"
  proof (rule ccontr)
    assume "\<not> ?thesis"
    then have le: "e \<le> year_start (year_of_era e - 1 + 1) - 1" by simp
    have "0 \<le> year_of_era e - 1" using \<open>\<not> _\<close> assms r by (cases "year_of_era e = 0") (auto simp: year_of_era_ends)
    then show False using year_of_era_mono [OF le] year_bounds(2) [of "year_of_era e - 1"] r by simp
  qed
  show "e < year_start (year_of_era e + 1)" if "year_of_era e \<le> 398"
  proof (rule ccontr)
    assume "\<not> ?thesis"
    then have le: "year_start (year_of_era e + 1) \<le> e" by simp
    have "year_of_era (year_start (year_of_era e + 1)) = year_of_era e + 1"
      using that r year_bounds(1) [of "year_of_era e + 1"]
      by (cases "year_of_era e = 398") (simp_all add: year_of_era_ends)
    then show False using year_of_era_mono [OF le] by simp
  qed
qed

lemma year_of_era_eqI:
  assumes "0 \<le> y" "y \<le> 399" "year_start y \<le> e" "e \<le> 146096" "y \<le> 398 \<Longrightarrow> e < year_start (y + 1)"
  shows "year_of_era e = y"
proof (rule antisym)
  have e: "0 \<le> e" using year_start_mono [OF assms(1)] assms(3) by (simp add: year_of_era_ends)
  show "y \<le> year_of_era e"
    using year_of_era_mono [OF assms(3)] year_bounds(1) [of y] assms(1,2)
    by (cases "y = 399") (simp_all add: year_of_era_ends)
  show "year_of_era e \<le> y"
    using year_of_era_mono [of e "year_start (y + 1) - 1"] year_bounds(2) [of y] assms year_of_era_range [OF e assms(4)]
    by (cases "y = 399") simp_all
qed

lemma leap_year_shift: "leap_year (y + 400 * k) \<longleftrightarrow> leap_year y"
proof -
  have "c dvd y + 400 * k \<longleftrightarrow> c dvd y" if "c dvd 400" for c :: int
    using that by (simp add: dvd_add_left_iff)
  then show ?thesis by (simp add: leap_year_def)
qed

lemma div_succ: "0 < c \<Longrightarrow> (y + 1) div c = y div c + (if c dvd y + 1 then 1 else 0)" for y c :: int
proof -
  assume c: "0 < c"
  define q r where "q = y div c" and "r = y mod c"
  have y: "y = r + c * q" and r: "0 \<le> r" "r < c" using c by (simp_all add: q_def r_def)
  have d: "(y + 1) div c = (r + 1) div c + q" "c dvd y + 1 \<longleftrightarrow> c dvd r + 1"
    using c by (simp_all add: y add.commute [of _ "c * q"] add.assoc dvd_add_right_iff)
  show ?thesis
  proof (cases "r + 1 = c")
    case False
    then have "\<not> c dvd r + 1" using r zdvd_not_zless [of "r + 1" c] by simp
    then show ?thesis using False r by (simp add: d q_def [symmetric])
  qed (use c in \<open>simp add: d q_def [symmetric]\<close>)
qed

lemma year_length:
  "year_start (y + 1) - year_start y =
     365 + (if 4 dvd y + 1 \<and> \<not> 100 dvd y + 1 then 1 else 0)"
proof -
  have "4 dvd y + 1" if "100 dvd y + 1" using dvd_trans [OF _ that, of 4] by simp
  then show ?thesis by (auto simp: year_start_def div_succ)
qed

lemma month_day_step:
  assumes "0 \<le> d" "d \<le> 364" "month_day d = (m, k)"
  shows "month_day (d + 1) =
     (if m = 2 then (2, k + 1)
      else if k < (if m \<in> {4, 6, 9, 11} then 30 else 31) then (m, k + 1)
      else if m < 12 then (m + 1, 1) else (1, 1))"
proof -
  have "d \<in> set [0..364]" using assms by simp
  from bspec [OF month_table [unfolded list_all_iff] this] show ?thesis
    by (simp only: assms(3) Let_def prod.case)
qed

lemma month_day_range:
  assumes "0 \<le> d" "d \<le> 365" "month_day d = (m, k)"
  shows "1 \<le> m \<and> m \<le> 12 \<and> 1 \<le> k \<and> k \<le> 31" "m = 2 \<longleftrightarrow> 337 \<le> d" "m = 2 \<Longrightarrow> k = d - 336"
proof -
  have "d \<in> set [0..365]" using assms by simp
  note this [THEN bspec [OF february_table [unfolded list_all_iff]]]
  then have "1 \<le> m \<and> m \<le> 12 \<and> 1 \<le> k \<and> k \<le> 31 \<and> (m = 2 \<longleftrightarrow> 337 \<le> d) \<and> (m = 2 \<longrightarrow> k = d - 336)"
    unfolding assms(3) Let_def prod.case by blast
  then show "1 \<le> m \<and> m \<le> 12 \<and> 1 \<le> k \<and> k \<le> 31" "m = 2 \<longleftrightarrow> 337 \<le> d" "m = 2 \<Longrightarrow> k = d - 336"
    by simp_all
qed

text \<open>A date within an era, from its shifted year and its day of the year.\<close>

definition of_era :: "int \<Rightarrow> int \<Rightarrow> int \<Rightarrow> int \<times> int \<times> int" where
  "of_era k y d = (let (m, day) = month_day d in (y + 400 * k + (if m \<le> 2 then 1 else 0), m, day))"

lemma civil_shifted_eq:
  assumes "0 \<le> e" "e \<le> 146096"
  shows "civil_shifted (146097 * k + e) = of_era k (year_of_era e) (e - year_start (year_of_era e))"
  using assms by (simp add: civil_shifted_def of_era_def Let_def split: prod.splits)

lemma of_era_next_in_year:
  assumes "0 \<le> d" "d \<le> 364" "d = 364 \<Longrightarrow> leap_year (y + 1)"
  shows "next_day (of_era k y d) = of_era k y (d + 1)"
proof -
  obtain m day where md: "month_day d = (m, day)" by (cases "month_day d")
  note r = month_day_range [OF assms(1) _ md]
  have "day < days_in_month (y + 400 * k + 1) 2" if "m = 2"
    using r(2,3) that assms leap_year_shift [of "y + 1" k]
    by (cases "d = 364") (auto simp: days_in_month_def ac_simps)
  moreover have "1 \<le> m" "m \<le> 12" using r(1) assms by auto
  ultimately show ?thesis
    by (auto simp: of_era_def md month_day_step [OF assms(1,2) md] next_day_def days_in_month_def)
qed

lemma of_era_next_year:
  assumes "d = (if leap_year (y + 1) then 365 else 364)"
  shows "next_day (of_era k y d) = of_era k (y + 1) 0"
proof -
  have "month_day 0 = (3, 1)" "month_day 364 = (2, 28)" "month_day 365 = (2, 29)" by code_simp+
  then show ?thesis
    using assms leap_year_shift [of "y + 1" k]
    by (auto simp: of_era_def next_day_def days_in_month_def ac_simps)
qed

lemma next_day_civil_shifted: "next_day (civil_shifted s) = civil_shifted (s + 1)"
proof -
  define k e where "k = s div 146097" and "e = s mod 146097"
  have s: "s = 146097 * k + e" and e: "0 \<le> e" "e \<le> 146096"
    by (simp_all add: k_def e_def)
  define y d where "y = year_of_era e" and "d = e - year_start y"
  note r = year_of_era_range [OF e, folded y_def] year_of_era_start [OF e, folded y_def]
  have cs: "civil_shifted s = of_era k y d" by (simp add: s civil_shifted_eq [OF e] y_def d_def)
  have leap: "leap_year (y + 1) \<longleftrightarrow> 4 dvd y + 1 \<and> \<not> 100 dvd y + 1" if "y \<le> 398"
    using that r(1) zdvd_not_zless [of "y + 1" 400] by (auto simp: leap_year_def)
  consider "e = 146096" | "e < 146096" "y = 399 \<or> e + 1 < year_start (y + 1)"
    | "e + 1 = year_start (y + 1)" "y \<le> 398" using e r by linarith
  then show ?thesis
  proof cases
    case 1
    then have "y = 399" "d = 365" by (simp_all add: y_def d_def year_of_era_ends) (simp add: year_start_def)
    then have "next_day (of_era k y d) = of_era k 400 0"
      using of_era_next_year [of d y k] by (simp add: leap_year_def)
    also have "\<dots> = of_era (k + 1) 0 0" by (simp add: of_era_def algebra_simps)
    also have "\<dots> = civil_shifted (146097 * (k + 1) + 0)"
      using civil_shifted_eq [of 0 "k + 1"] by (simp add: year_of_era_ends)
    finally show ?thesis using cs 1 s by (simp add: algebra_simps)
  next
    case 2
    have y': "year_of_era (e + 1) = y" using 2 r by (intro year_of_era_eqI) auto
    have d: "0 \<le> d \<and> d \<le> 364 \<and> (d = 364 \<longrightarrow> leap_year (y + 1))"
    proof (cases "y = 399")
      case True
      then show ?thesis
        using 2 r(3) by (simp add: d_def year_start_def leap_year_def)
    next
      case False
      then show ?thesis
        using 2 r year_length [of y] leap by (simp add: d_def split: if_splits)
    qed
    have "next_day (of_era k y d) = of_era k y (e + 1 - year_start y)"
      using of_era_next_in_year [of d y k] d by (simp add: d_def algebra_simps)
    then show ?thesis using cs civil_shifted_eq [of "e + 1" k] e 2 y' s by (simp add: add.assoc)
  next
    case 3
    have "d = (if leap_year (y + 1) then 365 else 364)"
      using 3 year_length [of y] leap by (auto simp: d_def split: if_splits)
    moreover have "e + 1 \<le> 146096"
      using year_start_mono [of "y + 1" 399] 3 by (simp add: year_start_def)
    moreover have "year_of_era (e + 1) = y + 1"
      using 3 r \<open>e + 1 \<le> 146096\<close> year_length [of "y + 1"] by (intro year_of_era_eqI) (auto simp: add.assoc split: if_splits)
    ultimately show ?thesis using cs civil_shifted_eq [of "e + 1" k] e 3 s of_era_next_year [of d y k]
      by (simp add: add.assoc)
  qed
qed

section \<open>The checked arithmetic computes the calendar\<close>

lemma i64_div_nonneg: "0 \<le> a \<Longrightarrow> a < 2 ^ 63 \<Longrightarrow> 0 < b \<Longrightarrow> i64_div a b = Some (a div b)"
  using zdiv_mono2 [of a 1 b] pos_imp_zdiv_nonneg_iff [of b a]
  by (simp add: i64_div_def sdiv_nonneg i64_checked_def)

lemma i64_small:
  "0 \<le> a + b \<Longrightarrow> a + b \<le> 10 ^ 6 \<Longrightarrow> i64_add a b = Some (a + b)"
  "0 \<le> a - b \<Longrightarrow> a - b \<le> 10 ^ 6 \<Longrightarrow> i64_sub a b = Some (a - b)"
  "0 \<le> a * b \<Longrightarrow> a * b \<le> 10 ^ 6 \<Longrightarrow> i64_mul a b = Some (a * b)"
  by (simp_all add: i64_add_def i64_sub_def i64_mul_def i64_checked_def)

lemma day_of_year_range:
  assumes "0 \<le> e" "e \<le> 146096"
  shows "0 \<le> e - year_start (year_of_era e)" "e - year_start (year_of_era e) \<le> 365"
proof -
  note r = year_of_era_range [OF assms] year_of_era_start [OF assms]
  show "0 \<le> e - year_start (year_of_era e)" using r(3) by simp
  show "e - year_start (year_of_era e) \<le> 365"
  proof (cases "year_of_era e = 399")
    case True
    have "year_start 399 = 145731" by code_simp
    then show ?thesis using True assms by simp
  next
    case False
    then show ?thesis using r year_length [of "year_of_era e"] by (simp split: if_splits)
  qed
qed

lemma civil_from_days_shifted:
  assumes "0 \<le> s" "s < 2 ^ 63"
  shows "civil_from_days (s - 719468) =
    (case civil_shifted s of (y, m, d) \<Rightarrow> Some (y, word_of_int m, word_of_int d))"
proof -
  define k e where "k = s div 146097" and "e = s mod 146097"
  have s: "s = 146097 * k + e" and e: "0 \<le> e" "e \<le> 146096" by (simp_all add: k_def e_def)
  have k: "0 \<le> k" "146097 * k \<le> s" using assms s e by linarith+
  define y d where "y = year_of_era e" and "d = e - year_start y"
  note r = year_of_era_range [OF e, folded y_def]
  note dr = day_of_year_range [OF e, folded y_def, folded d_def]
  obtain m day where md: "month_day d = (m, day)" by (cases "month_day d")
  note mr = month_day_range(1) [OF dr md]
  have era: "i64_add (s - 719468) 719468 = Some s" "i64_div s 146097 = Some k"
    "i64_mul k 146097 = Some (s - e)" "i64_sub s (s - e) = Some e"
    using assms k e s by (simp_all add: i64_add_def i64_mul_def i64_sub_def i64_checked_def i64_div_nonneg k_def [symmetric])
  have q: "0 \<le> e div 1460" "e div 1460 \<le> e" "0 \<le> e div 36524" "e div 36524 \<le> 4"
    "0 \<le> e div 146096" "e div 146096 \<le> e div 36524" "0 \<le> y div 100" "y div 100 \<le> y div 4" "y div 4 \<le> 99"
    using e r by linarith+
  have div_small: "0 \<le> a \<Longrightarrow> a \<le> 10 ^ 6 \<Longrightarrow> 0 < b \<Longrightarrow> i64_div a b = Some (a div b)" for a b
    by (rule i64_div_nonneg) auto
  define a b c f g where abc: "a = e div 1460" "b = e div 36524" "c = e div 146096" "f = y div 4" "g = y div 100"
  note q = q [folded abc]
  have y: "(e - a + b - c) div 365 = y" by (simp add: y_def year_of_era_def abc)
  have ys: "y * 365 + (f - g) = year_start y" by (simp add: year_start_def abc)
  have yoe: "i64_sub e a = Some (e - a)" "i64_add (e - a) b = Some (e - a + b)"
    "i64_sub (e - a + b) c = Some (e - a + b - c)" "i64_div (e - a + b - c) 365 = Some y"
    using q e by (simp_all add: i64_small div_small y)
  have divs: "i64_div e 1460 = Some a" "i64_div e 36524 = Some b" "i64_div e 146096 = Some c"
    "i64_div y 4 = Some f" "i64_div y 100 = Some g"
    using e r by (simp_all add: div_small abc)
  have doy: "i64_sub f g = Some (f - g)" "i64_mul y 365 = Some (y * 365)"
    "i64_add (y * 365) (f - g) = Some (year_start y)" "i64_sub e (year_start y) = Some d"
    using q r dr by (simp_all add: i64_small ys [symmetric]) (simp add: ys i64_small d_def)
  have year: "i64_mul k 400 = Some (k * 400)" "i64_add y (k * 400) = Some (y + 400 * k)"
    "i64_add (y + 400 * k) 1 = Some (y + 400 * k + 1)"
    using k assms r by (simp_all add: i64_mul_def i64_add_def i64_checked_def)
  define p where "p = month_position d"
  have p: "0 \<le> p" "p \<le> 11" using dr unfolding p_def month_position_def by linarith+
  have mon: "m = (if p < 10 then p + 3 else p - 9)" "day = d - (153 * p + 2) div 5 + 1"
    using md by (auto simp: month_day_def p_def Let_def)
  have month: "i64_mul d 5 = Some (d * 5)" "i64_add (d * 5) 2 = Some (d * 5 + 2)"
    "i64_div (d * 5 + 2) 153 = Some p" "i64_mul p 153 = Some (p * 153)"
    "i64_add (p * 153) 2 = Some (p * 153 + 2)" "i64_div (p * 153 + 2) 5 = Some ((p * 153 + 2) div 5)"
    "i64_sub d ((p * 153 + 2) div 5) = Some (day - 1)" "i64_add (day - 1) 1 = Some day"
    "(if p < 10 then i64_add p 3 else i64_sub p 9) = Some m"
    "u32_try_from_i64 m = Some (word_of_int m)" "u32_try_from_i64 day = Some (word_of_int day)"
    using dr p mr mon
    by (simp_all add: i64_small div_small u32_try_from_i64_def p_def month_position_def mult.commute)
  have "civil_shifted s = (y + 400 * k + (if m \<le> 2 then 1 else 0), m, day)"
    using md by (simp add: s civil_shifted_eq [OF e] of_era_def flip: y_def d_def)
  moreover have "civil_from_days (s - 719468) =
      Some (if m \<le> 2 then y + 400 * k + 1 else y + 400 * k, word_of_int m, word_of_int day)"
    using assms by (simp add: civil_from_days_def EPOCH_SHIFT_DAYS_def DAYS_PER_ERA_def era yoe divs doy year month)
  ultimately show ?thesis by simp
qed

lemma civil_shifted_funpow: "(next_day ^^ n) (civil_shifted s) = civil_shifted (s + int n)"
  by (induction n) (simp_all add: next_day_civil_shifted ac_simps)

lemma civil_shifted_epoch: "civil_shifted 719468 = (1970, 1, 1)"
  by code_simp

lemma civil_shifted_month_day:
  assumes "civil_shifted s = (y, m, d)"
  shows "1 \<le> m \<and> m \<le> 12 \<and> 1 \<le> d \<and> d \<le> 31"
proof -
  define e where "e = s mod 146097"
  have e: "0 \<le> e" "e \<le> 146096" by (simp_all add: e_def)
  have "month_day (e - year_start (year_of_era e)) = (m, d)"
    using assms by (simp add: civil_shifted_def Let_def e_def split: prod.splits)
  then show ?thesis using month_day_range(1) day_of_year_range [OF e] by blast
qed

lemma days_representable: "int (unat s div 86400) + 719468 < 2 ^ 63" for s :: u64
proof -
  have "unat s < 2 ^ 64" using unsigned_less [of s, where 'a=nat] by simp
  then have "unat s div 86400 \<le> 2 ^ 64 div 86400" by (intro div_le_mono) simp
  then show ?thesis by simp
qed

lemma civil_eq:
  assumes "(next_day ^^ (unat (seconds t) div 86400)) (1970, 1, 1) = (y, m, d)"
  shows "civil t = Inr (y, word_of_int m, word_of_int d) \<and> 1 \<le> m \<and> m \<le> 12 \<and> 1 \<le> d \<and> d \<le> 31"
proof -
  define n where "n = unat (seconds t) div 86400"
  have n: "int n + 719468 < 2 ^ 63" unfolding n_def by (rule days_representable)
  have days: "uint (seconds t div 86400) = int n"
    by (simp add: n_def uint_div_distrib flip: uint_nat) (simp add: zdiv_int)
  have c: "civil_shifted (int n + 719468) = (y, m, d)"
    using assms civil_shifted_funpow [of n 719468] by (simp add: civil_shifted_epoch n_def add.commute)
  have "civil_from_days (int n) = Some (y, word_of_int m, word_of_int d)"
    using civil_from_days_shifted [of "int n + 719468"] n c by simp
  then have "civil t = Inr (y, word_of_int m, word_of_int d)"
    using n by (simp add: civil_def u64_div_def SECONDS_PER_DAY_def i64_try_from_u64_def i64_checked_def days)
  then show ?thesis using civil_shifted_month_day [OF c] by simp
qed

text \<open>The expected rendering of a calendar day and of a second of the day.\<close>

definition iso_date :: "int \<times> int \<times> int \<Rightarrow> scalar_string" where
  "iso_date = (\<lambda>(y, m, d).
     display_int_padded 4 y @ scalars ''-'' @ pad_zero 2 (display_nat (nat m)) @
     scalars ''-'' @ pad_zero 2 (display_nat (nat d)))"

definition iso_time :: "nat \<Rightarrow> scalar_string" where
  "iso_time s =
     pad_zero 2 (display_nat (s div 3600)) @ scalars '':'' @
     pad_zero 2 (display_nat (s div 60 mod 60)) @ scalars '':'' @ pad_zero 2 (display_nat (s mod 60))"

lemma split_day_eq:
  "split_day x = Inr (x div 3600, x mod 3600 div 60, x mod 3600 mod 60)"
  by (simp add: split_day_def u64_div_def u64_rem_def SECONDS_PER_HOUR_def SECONDS_PER_MINUTE_def)

lemma unat_word_of_int_small: "0 \<le> m \<Longrightarrow> m \<le> 31 \<Longrightarrow> unat (word_of_int m :: u32) = nat m"
  by (simp add: unat_eq_nat_uint uint_word_of_int)

lemma timestamp_total: "\<exists>s. timestamp t = Inr s"
proof -
  obtain y m d where "(next_day ^^ (unat (seconds t) div 86400)) (1970, 1, 1) = (y, m, d)" by (metis prod_cases3)
  from civil_eq [OF this] show ?thesis
    by (simp add: timestamp_def and_then_def u64_rem_def SECONDS_PER_DAY_def split_day_eq)
qed

text \<open>
  C29: every reading of a 64-bit clock has a date and a timestamp, and they are the calendar's: the
  date is the one reached from 1970-01-01 by stepping one day at a time, with the Gregorian leap
  years and month lengths, as many days as the clock counts, and the time is that of the seconds
  left over.  No checked operation of the conversion fails.
\<close>

theorem timestamp_calendar:
  "date t = Inr (iso_date ((next_day ^^ (unat (seconds t) div 86400)) (1970, 1, 1))) \<and>
   timestamp t =
     Inr (iso_date ((next_day ^^ (unat (seconds t) div 86400)) (1970, 1, 1)) @ scalars ''T'' @
          iso_time (unat (seconds t) mod 86400) @ scalars ''Z'')"
proof -
  obtain y m d where c: "(next_day ^^ (unat (seconds t) div 86400)) (1970, 1, 1) = (y, m, d)"
    by (metis prod_cases3)
  have r: "x mod 3600 div 60 = x div 60 mod 60" "x mod 3600 mod 60 = x mod 60" for x :: nat
    using mod_mult2_eq [of x 60 60] by simp_all
  show ?thesis
    using civil_eq [OF c]
    by (simp add: date_def timestamp_def c iso_date_def iso_time_def u64_rem_def SECONDS_PER_DAY_def
        split_day_eq unat_word_of_int_small unat_div_distrib unat_mod_distrib r)
qed

end
