(* ===== verification/Runner_Campaign.thy ===== *)
theory Runner_Campaign
  imports Runner_Record Runner_Segment Runner_Identity Runner_Time
begin

text \<open>
  Campaigns, \<open>tools/validation-runner/src/campaign.rs\<close>: the segments each tier requires, the journal
  entry and the manifest of a campaign, the decision whether its record seals, and its execution
  over a record: every segment is reused or attempted, and recorded before the next one starts.
  The seconds column of the summary is text the caller supplies for a duration.
\<close>

section \<open>Definitions\<close>

definition SEGMENT_BUDGET :: nat where "SEGMENT_BUDGET = 120 * 10 ^ 9"

definition CAMPAIGN_TYPE :: scalar_string where "CAMPAIGN_TYPE = scalars ''repository-validation''"

datatype tier = Dev | Gate

primrec tier_as_str :: "tier \<Rightarrow> scalar_string" where
  "tier_as_str Dev = scalars ''dev''"
| "tier_as_str Gate = scalars ''gate''"

definition tier_parse :: "scalar_string \<Rightarrow> runner_error + tier" where
  "tier_parse v =
     (if v = scalars ''dev'' then Inr Dev
      else if v = scalars ''gate'' then Inr Gate
      else failed (scalars ''`'' @ v @ scalars ''` is not a tier this runner executes. Use `dev` or `gate`.''))"

record prerequisite =
  pq_probe :: segment_step
  pq_remedy :: scalar_string

record segment_definition =
  sd_id :: scalar_string
  sd_purpose :: scalar_string
  sd_tiers :: "tier list"
  sd_prerequisite :: "prerequisite option"
  sd_steps :: "segment_step list"

definition definition_line :: "segment_definition \<Rightarrow> scalar_string" where
  "definition_line d = sd_id d @ scalars ''::'' @ join_with (scalars '' && '') (map step_display (sd_steps d))"

definition CLEAN_CLONE_CHECK :: string where
  \<open>CLEAN_CLONE_CHECK =
     ''dir=$(mktemp -d) || exit 1; '' @
     ''trap 'rm -rf "$dir"' EXIT; '' @
     ''url=$(git remote get-url origin) || exit 1; '' @
     ''revision=$(git rev-parse HEAD) || exit 1; '' @
     ''git clone --quiet "$url" "$dir/clone" || exit 1; '' @
     ''git -C "$dir/clone" checkout --quiet "$revision" || '' @
     ''{ echo 'the revision under test is not on the remote'; exit 1; }; '' @
     ''if [ -n "$(git -C "$dir/clone" status --porcelain --ignored)" ]; then '' @
     ''echo 'the clone carries files that the repository does not track'; exit 1; fi; '' @
     ''cd "$dir/clone" || exit 1; '' @
     ''cargo build || exit 1; '' @
     ''cargo fmt --all --check || exit 1; '' @
     ''cargo clippy --workspace --all-targets || exit 1; '' @
     ''cargo test --workspace || exit 1; '' @
     ''cargo package --package rp1db || exit 1''\<close>

definition LINT_ALLOWANCE_CHECK :: string where
  \<open>LINT_ALLOWANCE_CHECK =
     ''if git ls-files -z '*.rs' | xargs -0 grep -lnE '#!?'' @ [CHR 0x5C] @ ''[(allow|expect)'' @ [CHR 0x5C] @ ''('; then '' @
     ''echo 'tracked source carries a lint allowance'; '' @
     ''exit 1; fi''\<close>

definition LOCAL_PATH_CHECK :: string where
  \<open>LOCAL_PATH_CHECK =
     ''if git ls-files -z -- '*Cargo.toml' ':(exclude)fuzz/*' | xargs -0 grep -lE '' @
     [CHR 0x27] @ ''path['' @ ''[:space:]'' @ '']*=['' @ ''[:space:]'' @ '']*"[^"]*[.][.]'; then '' @
     ''echo 'a manifest declares a path dependency that leaves the repository'; '' @
     ''exit 1; fi''\<close>

definition PACKAGE_CONTENTS_CHECK :: string where
  \<open>PACKAGE_CONTENTS_CHECK =
     ''list=$(cargo package --list --package rp1db) || exit 1; '' @
     ''unexpected=$(printf '%s'' @ [CHR 0x5C] @ ''n' "$list" | grep -vE '' @
     [CHR 0x27] @ ''^([.]cargo_vcs_info[.]json|Cargo[.]toml|Cargo[.]toml[.]orig|Cargo[.]lock'' @
     ''|LICENSE-(MIT|APACHE)|README[.]md|CHANGELOG[.]md|src/.*[.]rs)$'); '' @
     ''if [ -n "$unexpected" ]; then '' @
     ''echo 'the package carries files the allowlist does not name:'; '' @
     ''printf '%s'' @ [CHR 0x5C] @ ''n' "$unexpected"; exit 1; fi; '' @
     ''for required in Cargo.toml README.md CHANGELOG.md LICENSE-MIT LICENSE-APACHE src/lib.rs; do '' @
     ''if ! printf '%s'' @ [CHR 0x5C] @ ''n' "$list" | grep -qx "$required"; '' @
     ''then echo "the package is missing $required"; exit 1; fi; done''\<close>

definition INTERNAL_REFERENCE_SCAN :: string where
  \<open>INTERNAL_REFERENCE_SCAN =
     ''files=$(git ls-files | grep -vE '' @
     [CHR 0x27] @ ''^([.]gitignore|tools/validation-runner/src/campaign[.]rs)$'); '' @
     ''hits=$(printf '%s'' @ [CHR 0x5C] @ ''n' "$files" | xargs grep -InE '' @
     [CHR 0x27] @ ''(AGENTS[.]md|CLAUDE[.]md|[.]agents/|[.]claude/|probes/|runs/|foundation/|tmp/'' @
     ''|[Rr]ule [0-9]|/(investigate|plan-authoring|implement|definition-of-done'' @
     ''|pr-check|pr-review|pr-merge))' /dev/null); '' @
     ''if [ -n "$hits" ]; then '' @
     ''echo 'a tracked file cites internal working material:'; '' @
     ''printf '%s'' @ [CHR 0x5C] @ ''n' "$hits"; exit 1; fi''\<close>


text \<open>A segment of the table, and a prerequisite of one.\<close>

definition segment :: "string \<Rightarrow> string \<Rightarrow> tier list \<Rightarrow> prerequisite option \<Rightarrow> segment_step list \<Rightarrow> segment_definition" where
  "segment i purpose tiers pre steps =
     \<lparr>sd_id = scalars i, sd_purpose = scalars purpose, sd_tiers = tiers, sd_prerequisite = pre, sd_steps = steps\<rparr>"

definition requires :: "segment_step \<Rightarrow> string \<Rightarrow> prerequisite option" where
  "requires p remedy = Some \<lparr>pq_probe = p, pq_remedy = scalars remedy\<rparr>"

definition core_segments :: "segment_definition list" where
  "core_segments =
     [segment ''build-and-lint'' ''the workspace compiles, is formatted, and lints clean'' [Dev, Gate] None
        [step_new ''cargo'' [''build'', ''--workspace'', ''--all-targets''],
         step_new ''cargo'' [''fmt'', ''--all'', ''--check''],
         step_new ''cargo'' [''clippy'', ''--workspace'', ''--all-targets''],
         step_new ''/bin/sh'' [''-c'', LINT_ALLOWANCE_CHECK]],
      segment ''unit-tests'' ''the crate and the runner pass their unit tests'' [Dev, Gate] None
        [step_new ''cargo'' [''test'', ''--workspace'']],
      segment ''spec-fixtures'' ''the vendored public specification fixture corpus passes'' [Dev, Gate] None
        [step_new ''cargo'' [''test'', ''--package'', ''rp1db'', ''--test'', ''spec_fixtures'']],
      segment ''connection'' ''the public connection surface completes the handshake'' [Dev, Gate] None
        [step_new ''cargo'' [''test'', ''--package'', ''rp1db'', ''--test'', ''connection'']],
      segment ''msrv'' ''the published crate compiles on its declared minimum Rust version'' [Dev, Gate]
        (requires (step_new ''cargo'' [''+1.85.0'', ''--version''])
           ''install it with `rustup toolchain install 1.85.0`'')
        [step_new ''cargo'' [''+1.85.0'', ''check'', ''--package'', ''rp1db'']],
      segment ''deps'' ''the dependency graph satisfies the committed supply-chain policy'' [Dev, Gate]
        (requires (step_new ''cargo'' [''deny'', ''--version'']) ''install it with `cargo install cargo-deny`'')
        [step_new ''cargo'' [''deny'', ''check''],
         step_new ''/bin/sh'' [''-c'', LOCAL_PATH_CHECK]]]"

definition evidence_segments :: "segment_definition list" where
  "evidence_segments =
     [segment ''package-contents'' ''the published package carries the intended files and nothing else'' [Gate] None
        [step_new ''/bin/sh'' [''-c'', PACKAGE_CONTENTS_CHECK],
         step_new ''cargo'' [''package'', ''--package'', ''rp1db'']],
      segment ''no-internal-references'' ''no tracked file cites internal working material'' [Dev, Gate] None
        [step_new ''/bin/sh'' [''-c'', INTERNAL_REFERENCE_SCAN]],
      segment ''docs'' ''the documentation builds and its links resolve'' [Dev, Gate] None
        [step_new ''cargo'' [''doc'', ''--no-deps'', ''--workspace'']],
      segment ''fuzz-frame-decoder'' ''the frame decoder survives a bounded fuzzing run'' [Dev, Gate]
        (requires (step_new ''cargo'' [''fuzz'', ''--version'']) ''install it with `cargo install cargo-fuzz`'')
        [step_new ''cargo'' [''+nightly'', ''fuzz'', ''run'', ''frame_decode'', ''--'', ''-runs=10000'',
           ''-max_total_time=45'']],
      segment ''clean-clone'' ''a clean clone builds, tests, lints, and packages on its own'' [Gate] None
        [step_new ''/bin/sh'' [''-c'', CLEAN_CLONE_CHECK]]]"

definition campaign_definition :: "segment_definition list" where
  "campaign_definition = core_segments @ evidence_segments"

definition required :: "tier \<Rightarrow> segment_definition list" where
  "required t = filter (\<lambda>d. t \<in> set (sd_tiers d)) campaign_definition"

definition definition_digest :: "segment_definition list \<Rightarrow> scalar_string" where
  "definition_digest segments = digest (join_with [newline] (map definition_line segments))"

section \<open>Results and sealing\<close>

record segment_result =
  sr_id :: scalar_string
  sr_attempt :: nat
  sr_status :: status
  sr_duration :: nat
  sr_note :: "scalar_string option"
  sr_evidence :: scalar_string
  sr_identity :: scalar_string

datatype state = Partial | Sealed | Failed

primrec state_as_str :: "state \<Rightarrow> scalar_string" where
  "state_as_str Partial = scalars ''partial''"
| "state_as_str Sealed = scalars ''sealed''"
| "state_as_str Failed = scalars ''failed''"

datatype tree_state = Clean | Modified "scalar_string list"

record final_result =
  fr_id :: scalar_string
  fr_status :: status
  fr_identity :: scalar_string

definition seal_state ::
  "scalar_string list \<Rightarrow> final_result list \<Rightarrow> scalar_string \<Rightarrow> tree_state \<Rightarrow> state \<times> scalar_string list" where
  "seal_state req finals identity tree =
     (let blocked = map (\<lambda>r. fr_id r @ scalars '' is '' @ status_as_str (fr_status r))
                      (filter (\<lambda>r. \<not> holds (fr_status r)) finals);
          missing = filter (\<lambda>i. \<not> list_ex (\<lambda>r. fr_id r = i) finals) req;
          mismatched = map (\<lambda>r. fr_id r @ scalars '' holds under a different evidence identity'')
                         (filter (\<lambda>r. holds (fr_status r) \<and> fr_identity r \<noteq> identity) finals)
      in if blocked \<noteq> [] then (Failed, blocked)
         else let reasons =
                (if missing = [] then [] else [scalars ''no result for '' @ join_with (scalars '', '') missing]) @
                mismatched @
                (case tree of
                   Clean \<Rightarrow> []
                 | Modified changes \<Rightarrow>
                     [scalars ''the working tree carries '' @ display_nat (length changes) @
                      scalars '' change(s) that the recorded revision does not''])
              in if reasons = [] then (Sealed, reasons) else (Partial, reasons))"

record report =
  rp_results :: "segment_result list"
  rp_state :: state
  rp_reasons :: "scalar_string list"

definition every_segment_holds :: "report \<Rightarrow> bool" where
  "every_segment_holds r = list_all (\<lambda>x. holds (sr_status x)) (rp_results r)"

definition reused :: "report \<Rightarrow> nat" where
  "reused r = length (filter (\<lambda>x. \<not> executed (sr_status x)) (rp_results r))"

section \<open>A campaign\<close>

record campaign =
  cp_tier :: tier
  cp_topic :: scalar_string
  cp_subject_revision :: scalar_string
  cp_identity :: evidence_identity
  cp_segments :: "segment_definition list"
  cp_budget :: nat
  cp_environment :: json_object
  cp_created :: scalar_string
  cp_resume :: bool
  cp_tree_state :: tree_state

definition reusable :: "campaign \<Rightarrow> journal_entry option \<Rightarrow> scalar_string \<Rightarrow> journal_entry option" where
  "reusable c prior identity =
     (if \<not> cp_resume c then None
      else do {
        p \<leftarrow> prior;
        st \<leftarrow> status_parse (je_status p);
        if holds st \<and> je_evidence_identity p = identity then Some p else None
      })"

definition reuse :: "scalar_string \<Rightarrow> nat \<Rightarrow> journal_entry \<Rightarrow> scalar_string \<Rightarrow> segment_result" where
  "reuse i attempt prior identity =
     \<lparr>sr_id = i, sr_attempt = attempt, sr_status = Cached, sr_duration = 0,
      sr_note = Some (scalars ''reused the result recorded by attempt '' @ display_nat (unat (je_attempt prior))),
      sr_evidence = je_evidence prior, sr_identity = identity\<rparr>"

definition duration_millis :: "nat \<Rightarrow> u64" where
  "duration_millis d = (if d div 10 ^ 6 < 2 ^ 64 then of_nat (d div 10 ^ 6) else - 1)"

definition probe_note :: "prerequisite \<Rightarrow> scalar_string" where
  "probe_note p = scalars ''`'' @ step_display (pq_probe p) @
     scalars ''` is not available on this host, so this segment did not run. '' @ pq_remedy p"

text \<open>\<open>std::fs::write\<close>: the file with exactly this text.\<close>

definition fs_write :: "path \<Rightarrow> scalar_string \<Rightarrow> unit io" where
  "fs_write p s = bind_io (file_create p) (\<lambda>_. write_all p s)"

definition attempt :: "campaign \<Rightarrow> segment_definition \<Rightarrow> path \<Rightarrow> segment_outcome io" where
  "attempt c d evidence =
     (case sd_prerequisite d of
        None \<Rightarrow> segment_execute (sd_steps d) (cp_budget c) evidence
      | Some p \<Rightarrow>
          bind_io (probe (pq_probe p)) (\<lambda>available.
            if available then segment_execute (sd_steps d) (cp_budget c) evidence
            else bind_io (fs_write evidence (scalars ''['' @ probe_note p @ scalars '']'' @ [newline])) (\<lambda>_.
                   ret \<lparr>oc_status = Skipped, oc_duration = 0, oc_note = Some (probe_note p)\<rparr>)))"

definition manifest :: "campaign \<Rightarrow> run_record \<Rightarrow> json_object" where
  "manifest c r =
     object_string (scalars ''created'') (cp_created c)
     (object_object (scalars ''environment'') (cp_environment c)
     (object_number (scalars ''segment_budget_seconds'') (of_nat (cp_budget c div 10 ^ 9))
     (object_object (scalars ''evidence_identity'') (identity_to_json (cp_identity c))
     (object_strings (scalars ''required_segments'') (map sd_id (cp_segments c))
     (object_string (scalars ''subject_revision'') (cp_subject_revision c)
     (object_string (scalars ''tier'') (tier_as_str (cp_tier c))
     (object_string (scalars ''topic'') (cp_topic c)
     (object_string (scalars ''type'') CAMPAIGN_TYPE
     (object_string (scalars ''campaign'') (rr_identifier r) object_new)))))))))"

definition entry_json :: "campaign \<Rightarrow> segment_result \<Rightarrow> scalar_string \<Rightarrow> json_object" where
  "entry_json c res started =
     (let entry =
        object_string (scalars ''evidence'') (sr_evidence res)
        (object_string (scalars ''evidence_identity'') (identity_digest (cp_identity c))
        (object_string (scalars ''subject_revision'') (cp_subject_revision c)
        (object_string (scalars ''status'') (status_as_str (sr_status res))
        (object_number (scalars ''duration_ms'') (duration_millis (sr_duration res))
        (object_string (scalars ''started'') started
        (object_number (scalars ''attempt'') (of_nat (sr_attempt res))
        (object_string (scalars ''segment'') (sr_id res) object_new)))))))
      in (case sr_note res of None \<Rightarrow> entry | Some text \<Rightarrow> object_string (scalars ''note'') text entry))"

definition summary_lines :: "(nat \<Rightarrow> scalar_string) \<Rightarrow> campaign \<Rightarrow> run_record \<Rightarrow> report \<Rightarrow> scalar_string list" where
  "summary_lines show_seconds c r rep =
     [scalars ''# '' @ rr_identifier r, [], scalars ''Type: '' @ CAMPAIGN_TYPE,
      scalars ''Tier: '' @ tier_as_str (cp_tier c), scalars ''Revision: '' @ cp_subject_revision c,
      scalars ''Evidence identity: '' @ identity_digest (cp_identity c),
      scalars ''State: '' @ state_as_str (rp_state rep), [],
      scalars ''| Segment | Attempt | Status | Seconds |'', scalars ''| --- | --- | --- | --- |''] @
     map (\<lambda>x. scalars ''| '' @ sr_id x @ scalars '' | '' @ display_nat (sr_attempt x) @ scalars '' | '' @
        status_as_str (sr_status x) @ scalars '' | '' @ show_seconds (sr_duration x) @ scalars '' |'') (rp_results rep) @
     (if rp_reasons rep = [] then []
      else [[], scalars ''## Why this record does not seal'', []] @ map (\<lambda>m. scalars ''- '' @ m) (rp_reasons rep)) @
     (let notes = filter (\<lambda>x. sr_note x \<noteq> None) (rp_results rep)
      in if notes = [] then []
         else [[], scalars ''## Notes'', []] @ map (\<lambda>x. scalars ''- '' @ sr_id x @ scalars '': '' @ the (sr_note x)) notes) @
     [[], scalars ''## Segments'', []] @
     map (\<lambda>d. scalars ''- '' @ sd_id d @ scalars '': '' @ sd_purpose d) (cp_segments c) @
     [[], scalars ''## Scope'', [],
      scalars ''This record covers the segments listed above at the stated revision and'',
      scalars ''evidence identity. It states nothing about any other revision, any other'',
      scalars ''input, or any segment it does not list.'', []]"

definition summary :: "(nat \<Rightarrow> scalar_string) \<Rightarrow> campaign \<Rightarrow> run_record \<Rightarrow> report \<Rightarrow> scalar_string" where
  "summary show_seconds c r rep = join_with [newline] (summary_lines show_seconds c r rep)"

text \<open>One round of the loop of \<open>execute\<close>: a segment is reused or attempted, then recorded.\<close>

definition produce_result ::
  "campaign \<Rightarrow> run_record \<Rightarrow> scalar_string \<Rightarrow> segment_definition \<Rightarrow> nat \<Rightarrow> journal_entry option \<Rightarrow> segment_result io" where
  "produce_result c r identity d n prior =
     (case reusable c prior identity of
        Some p \<Rightarrow> ret (reuse (sd_id d) n p identity)
      | None \<Rightarrow>
          bind_io (attempt c d (evidence_path r (sd_id d) n)) (\<lambda>oc.
            ret \<lparr>sr_id = sd_id d, sr_attempt = n, sr_status = oc_status oc,
                 sr_duration = oc_duration oc, sr_note = oc_note oc,
                 sr_evidence = evidence_reference (sd_id d) n, sr_identity = identity\<rparr>))"

definition run_segment ::
  "campaign \<Rightarrow> run_record \<Rightarrow> scalar_string io \<Rightarrow> scalar_string \<Rightarrow> segment_definition \<Rightarrow> segment_result io" where
  "run_segment c r now identity d =
     bind_io (attempts_for r (sd_id d)) (\<lambda>attempts.
       if 2 ^ 32 \<le> attempts + 1
       then lift_result (failed (scalars ''this record holds more attempts than it can count''))
       else
       bind_io now (\<lambda>started.
       bind_io (last_entry_for r (sd_id d)) (\<lambda>prior.
       bind_io (produce_result c r identity d (attempts + 1) prior) (\<lambda>res.
       bind_io (append_journal r (entry_json c res started)) (\<lambda>_. ret res)))))"

fun run_segments ::
  "campaign \<Rightarrow> run_record \<Rightarrow> scalar_string io \<Rightarrow> scalar_string \<Rightarrow> segment_definition list \<Rightarrow> segment_result list io" where
  "run_segments c r now identity [] = ret []"
| "run_segments c r now identity (d # ds) =
     bind_io (run_segment c r now identity d) (\<lambda>res.
     bind_io (run_segments c r now identity ds) (\<lambda>rest. ret (res # rest)))"

definition finish_report :: "campaign \<Rightarrow> segment_result list \<Rightarrow> report" where
  "finish_report c results =
     (let finals = map (\<lambda>x. \<lparr>fr_id = sr_id x, fr_status = sr_status x, fr_identity = sr_identity x\<rparr>) results;
          (st, reasons) = seal_state (map sd_id (cp_segments c)) finals (identity_digest (cp_identity c)) (cp_tree_state c)
      in \<lparr>rp_results = results, rp_state = st, rp_reasons = reasons\<rparr>)"

definition campaign_execute ::
  "(nat \<Rightarrow> scalar_string) \<Rightarrow> campaign \<Rightarrow> run_record \<Rightarrow> scalar_string io \<Rightarrow> report io" where
  "campaign_execute show_seconds c r now =
     bind_io (write_manifest r (manifest c r)) (\<lambda>_.
     bind_io (run_segments c r now (identity_digest (cp_identity c)) (cp_segments c)) (\<lambda>results.
       let rep = finish_report c results
       in bind_io (write_summary r (summary show_seconds c r rep)) (\<lambda>_. ret rep)))"

text \<open>\<open>main.rs\<close>: whether a campaign satisfied what its tier asks of it.\<close>

definition closes :: "tier \<Rightarrow> report \<Rightarrow> bool" where
  "closes t rep = (case t of Gate \<Rightarrow> rp_state rep = Sealed | Dev \<Rightarrow> every_segment_holds rep)"

text \<open>The clock a campaign of the command line is given: the formatted time of the host.\<close>

definition now_utc :: "utc io" where
  "now_utc = bind_io system_time (\<lambda>t. lift_result (utc_now t))"

definition now_timestamp :: "scalar_string io" where
  "now_timestamp = bind_io now_utc (\<lambda>t. lift_result (timestamp t))"

end
