(* ===== verification/Runner_Campaign_Laws.thy ===== *)
theory Runner_Campaign_Laws
  imports Runner_Campaign
begin

text \<open>
  What a campaign does to its record and to the host: the specification \<open>campaign_runs\<close> of which
  segments are reused and which are attempted, that executing a campaign follows it and records
  every result, that the journal only ever grows, also when the campaign is cut short, and what
  sealing proves.
\<close>

section \<open>Specification\<close>

definition attempts_in :: "scalar_string \<Rightarrow> journal_entry list \<Rightarrow> nat" where
  "attempts_in i es = length (filter (\<lambda>e. je_segment e = i) es)"

definition entry_of :: "campaign \<Rightarrow> segment_result \<Rightarrow> journal_entry" where
  "entry_of c res =
     \<lparr>je_segment = sr_id res, je_attempt = of_nat (sr_attempt res), je_status = status_as_str (sr_status res),
      je_evidence_identity = identity_digest (cp_identity c), je_evidence = sr_evidence res\<rparr>"

definition attempted_result :: "campaign \<Rightarrow> segment_definition \<Rightarrow> nat \<Rightarrow> status \<Rightarrow> nat \<Rightarrow> scalar_string option \<Rightarrow> segment_result" where
  "attempted_result c d n st duration reason =
     \<lparr>sr_id = sd_id d, sr_attempt = n, sr_status = st, sr_duration = duration, sr_note = reason,
      sr_evidence = evidence_reference (sd_id d) n, sr_identity = identity_digest (cp_identity c)\<rparr>"

text \<open>
  The earlier result of a segment that still stands: the last one recorded for it, when the campaign
  resumes, it passed or was itself reused, and it was recorded under the campaign's evidence
  identity.
\<close>

definition standing :: "campaign \<Rightarrow> journal_entry list \<Rightarrow> segment_definition \<Rightarrow> journal_entry option" where
  "standing c es d =
     (case last_for (sd_id d) es of
        Some p \<Rightarrow> if cp_resume c \<and> je_status p \<in> {scalars ''pass'', scalars ''cached''} \<and>
                    je_evidence_identity p = identity_digest (cp_identity c) then Some p else None
      | None \<Rightarrow> None)"

inductive segment_runs ::
  "campaign \<Rightarrow> journal_entry list \<Rightarrow> segment_definition \<Rightarrow> segment_result \<Rightarrow> host_event list \<Rightarrow> bool"
  for c es d where
  reused:
    "segment_runs c es d (reuse (sd_id d) (attempts_in (sd_id d) es + 1) p (identity_digest (cp_identity c))) []"
    if "standing c es d = Some p"
| skipped:
    "segment_runs c es d (attempted_result c d (attempts_in (sd_id d) es + 1) Skipped 0 (Some (probe_note p))) [e]"
    if "standing c es d = None"
      and "sd_prerequisite d = Some p"
      and "e \<in> {Ran (step_command (pq_probe p)), Refused (step_command (pq_probe p))}"
| attempted:
    "segment_runs c es d (attempted_result c d (attempts_in (sd_id d) es + 1) st duration reason) (probed @ h)"
    if "standing c es d = None"
      and "probed = (case sd_prerequisite d of None \<Rightarrow> [] | Some p \<Rightarrow> [Ran (step_command (pq_probe p))])"
      and "attempt_runs (sd_steps d) st reason t h"

inductive campaign_runs ::
  "campaign \<Rightarrow> journal_entry list \<Rightarrow> segment_definition list \<Rightarrow> segment_result list \<Rightarrow>
   host_event list \<Rightarrow> bool" for c where
  campaign_done: "campaign_runs c es [] [] []"
| campaign_next: "campaign_runs c es (d # ds) (res # rs) (h @ k)"
    if "segment_runs c es d res h" and "campaign_runs c (es @ [entry_of c res]) ds rs k"

inductive_cases campaign_runs_NilE: "campaign_runs c es [] rs h"
inductive_cases campaign_runs_ConsE: "campaign_runs c es (d # ds) rs h"

section \<open>Recorded entries read back\<close>

definition entry_fields :: "campaign \<Rightarrow> segment_result \<Rightarrow> scalar_string \<Rightarrow> fields" where
  "entry_fields c res started =
     [(scalars ''segment'', JString (sr_id res)), (scalars ''attempt'', JNumber (of_nat (sr_attempt res))),
      (scalars ''started'', JString started), (scalars ''duration_ms'', JNumber (duration_millis (sr_duration res))),
      (scalars ''status'', JString (status_as_str (sr_status res))),
      (scalars ''subject_revision'', JString (cp_subject_revision c)),
      (scalars ''evidence_identity'', JString (identity_digest (cp_identity c))),
      (scalars ''evidence'', JString (sr_evidence res))] @
     (case sr_note res of None \<Rightarrow> [] | Some text \<Rightarrow> [(scalars ''note'', JString text)])"

lemma entry_json_flat: "entry_json c res started = flat_object (entry_fields c res started)"
  by (simp add: entry_json_def flat_object_def entry_fields_def object_field_def split: option.split)

lemma scalars_inject: "scalars s = scalars t \<longleftrightarrow> s = t"
  by (simp add: scalars_def inj_map_eq_map [OF inj_of_char])

lemma entry_of_fields_written:
  assumes "sr_attempt res < 2 ^ 32"
  shows "entry_of_fields (entry_fields c res started) = Inr (entry_of c res)"
proof -
  have "unat (of_nat (sr_attempt res) :: u64) = sr_attempt res"
    using assms by (simp add: unat_of_nat)
  moreover have "ucast (of_nat (sr_attempt res) :: u64) = (of_nat (sr_attempt res) :: u32)"
    using assms by (simp add: unsigned_of_nat take_bit_nat_eq_self)
  ultimately show ?thesis using assms
    by (simp add: entry_of_fields_def entry_fields_def entry_of_def scalars_inject split: option.split)
qed

section \<open>The journal on disk\<close>

definition journal_path :: "run_record \<Rightarrow> path" where
  "journal_path r = path_join (rr_root r) JOURNAL_FILE"

definition journal_text :: "run_record \<Rightarrow> world \<Rightarrow> scalar_string" where
  "journal_text r w = (case map_of (w_fs w) (journal_path r) of Some (File t) \<Rightarrow> t | _ \<Rightarrow> [])"

definition journal_is :: "run_record \<Rightarrow> journal_entry list \<Rightarrow> world \<Rightarrow> bool" where
  "journal_is r es w \<longleftrightarrow>
     map_of (w_fs w) (journal_path r) \<noteq> Some Dir \<and> ends_line (journal_text r w) \<and>
     parse_journal (journal_text r w) = Inr es"

definition faultless :: "world \<Rightarrow> bool" where
  "faultless w \<longleftrightarrow> (\<forall>n. w_fault w n = None)"

text \<open>An operation that changes at most one file, and one that changes none and runs nothing.\<close>

definition only_writes :: "path \<Rightarrow> 'a io \<Rightarrow> bool" where
  "only_writes p m \<longleftrightarrow> (\<forall>w x w'. m w = Some (x, w') \<longrightarrow>
     same_host w w' \<and> (\<forall>q. q \<noteq> p \<longrightarrow> map_of (w_fs w') q = map_of (w_fs w) q))"

definition observes :: "'a io \<Rightarrow> bool" where
  "observes m \<longleftrightarrow> (\<forall>w x w'. m w = Some (x, w') \<longrightarrow>
     same_host w w' \<and> w_fs w' = w_fs w \<and> w_history w' = w_history w)"

lemma faultless_same_host: "same_host w w' \<Longrightarrow> faultless w' \<longleftrightarrow> faultless w"
  by (simp add: faultless_def same_host_def)

lemma observesD:
  "observes m \<Longrightarrow> m w = Some (x, w') \<Longrightarrow> same_host w w' \<and> w_fs w' = w_fs w \<and> w_history w' = w_history w"
  by (simp add: observes_def)

lemma bind_ioE:
  assumes "bind_io m f w = Some (r, w')"
  obtains (error) e where "m w = Some (Inl e, w')" "r = Inl e"
  | (ok) x w1 where "m w = Some (Inr x, w1)" "f x w1 = Some (r, w')"
  using assms by (auto simp: bind_io_eq_Some)

lemma map_sum_eq_Inr: "map_sum f g y = Inr z \<longleftrightarrow> (\<exists>x. y = Inr x \<and> z = g x)"
  by (cases y) auto

lemma bind_io_ret:
  "bind_io m (\<lambda>x. ret (g x)) w = Some (r, w') \<longleftrightarrow> (\<exists>y. m w = Some (y, w') \<and> r = map_sum id g y)"
  by (auto simp: bind_io_def ret_def split: option.splits sum.splits)

lemma observes_bind:
  assumes m: "observes m" and f: "\<And>x. observes (f x)"
  shows "observes (bind_io m f)"
  unfolding observes_def
proof (intro allI impI)
  fix w r w' assume "bind_io m f w = Some (r, w')"
  then show "same_host w w' \<and> w_fs w' = w_fs w \<and> w_history w' = w_history w"
  proof (cases rule: bind_ioE)
    case (ok x w1)
    then show ?thesis using observesD [OF m ok(1)] observesD [OF f ok(2)] same_host_trans [of w w1 w'] by simp
  qed (use observesD [OF m] in blast)
qed

lemma observes_bindE:
  assumes "observes m" "bind_io m f w = Some (r, w')"
  obtains (error) e where "r = Inl e" "same_host w w'" "w_fs w' = w_fs w"
  | (ok) x w1 where "m w = Some (Inr x, w1)" "f x w1 = Some (r, w')"
      "same_host w w1" "w_fs w1 = w_fs w" "w_history w1 = w_history w"
  using assms(2)
proof (cases rule: bind_ioE)
  case (error e)
  then show ?thesis using that(1) observesD [OF assms(1)] by blast
next
  case (ok x w1)
  then show ?thesis using that(2) observesD [OF assms(1)] by blast
qed

lemma observes_basic [simp]:
  "observes (ret x)" "observes (lift_result y)" "observes (path_query f)" "observes (read_to_string p)"
  "observes (sync_all p)" "observes system_time"
  by (auto simp: observes_def ret_def lift_result_def path_query_def read_to_string_def sync_all_def
      system_time_def file_op_def split: option.splits node.splits)

lemma observes_entries [simp]:
  "observes (record_entries r)" "observes (attempts_for r i)" "observes (last_entry_for r i)"
  by (auto simp: record_entries_def attempts_for_def last_entry_for_def path_exists_def Let_def
      intro!: observes_bind)

lemma only_writesD:
  "only_writes p m \<Longrightarrow> m w = Some (x, w') \<Longrightarrow> same_host w w' \<and> (q \<noteq> p \<longrightarrow> map_of (w_fs w') q = map_of (w_fs w) q)"
  by (simp add: only_writes_def)

lemma only_writes_bind:
  assumes m: "only_writes p m" and f: "\<And>x. only_writes p (f x)"
  shows "only_writes p (bind_io m f)"
  unfolding only_writes_def
proof (intro allI impI)
  fix w r w' assume "bind_io m f w = Some (r, w')"
  then show "same_host w w' \<and> (\<forall>q. q \<noteq> p \<longrightarrow> map_of (w_fs w') q = map_of (w_fs w) q)"
  proof (cases rule: bind_ioE)
    case (ok x w1)
    then show ?thesis using only_writesD [OF m ok(1)] only_writesD [OF f ok(2)] same_host_trans [of w w1 w'] by simp
  qed (use only_writesD [OF m] in blast)
qed

lemma only_writes_observes: "observes m \<Longrightarrow> only_writes p m"
  by (simp add: observes_def only_writes_def)

lemma only_writes_quiet: "only_writes p (ret x)" "only_writes p (sync_all q)"
  by (rule only_writes_observes, simp)+

lemma only_writes_file_ops:
  "only_writes p (file_create p)" "only_writes p (open_append p)" "only_writes p (write_all p s)"
  by (auto simp: only_writes_def file_create_def open_append_def open_file_def write_all_def file_op_def
      append_text_def update_conv' split: option.splits if_splits)

lemma only_writes_probe: "only_writes p (probe s)"
  by (auto simp: only_writes_def probe_def command_output_of_def split: sum.splits option.splits)

lemma only_writes_segment: "only_writes p (segment_execute steps budget p)"
  unfolding only_writes_def using segment_execute_effect by blast

lemma only_writes_attempt: "only_writes p (attempt c d p)"
  by (auto simp: attempt_def fs_write_def split: option.split
      intro!: only_writes_bind only_writes_file_ops only_writes_probe only_writes_segment only_writes_quiet)

lemma only_writes_manifest: "only_writes (path_join (rr_root r) MANIFEST_FILE) (write_manifest r m)"
  and only_writes_summary: "only_writes (path_join (rr_root r) SUMMARY_FILE) (write_summary r s)"
  and only_writes_journal: "only_writes (journal_path r) (append_journal r e)"
  by (auto simp: write_manifest_def write_summary_def append_journal_def journal_path_def Let_def
      intro!: only_writes_bind only_writes_file_ops only_writes_quiet)

text \<open>The files of a record are distinct.\<close>

definition plain_id :: "segment_definition \<Rightarrow> bool" where
  "plain_id d \<longleftrightarrow> take 1 (sd_id d) \<noteq> scalars ''/''"

lemma record_paths:
  "path_join root MANIFEST_FILE = root @ [MANIFEST_FILE]" "path_join root SUMMARY_FILE = root @ [SUMMARY_FILE]"
  "path_join root JOURNAL_FILE = root @ [JOURNAL_FILE]"
  "path_join root SEGMENTS_DIRECTORY = root @ [SEGMENTS_DIRECTORY]"
  by (simp_all add: path_join_def components_def MANIFEST_FILE_def SUMMARY_FILE_def JOURNAL_FILE_def
      SEGMENTS_DIRECTORY_def scalars_def)

lemma journal_path_distinct:
  "journal_path r \<noteq> path_join (rr_root r) MANIFEST_FILE" "journal_path r \<noteq> path_join (rr_root r) SUMMARY_FILE"
  "plain_id d \<Longrightarrow> journal_path r \<noteq> evidence_path r (sd_id d) n"
proof -
  show "journal_path r \<noteq> path_join (rr_root r) MANIFEST_FILE" "journal_path r \<noteq> path_join (rr_root r) SUMMARY_FILE"
    unfolding journal_path_def record_paths
    by (simp_all add: MANIFEST_FILE_def SUMMARY_FILE_def JOURNAL_FILE_def scalars_inject)
  assume "plain_id d"
  then have "take 1 (evidence_name (sd_id d) n) \<noteq> scalars ''/''"
    by (cases "sd_id d") (auto simp: plain_id_def evidence_name_def scalars_def)
  then show "journal_path r \<noteq> evidence_path r (sd_id d) n"
    unfolding journal_path_def evidence_path_def record_paths
    by (simp add: path_join_def SEGMENTS_DIRECTORY_def JOURNAL_FILE_def scalars_inject)
qed

section \<open>Effects on the journal\<close>

lemma journal_text_same: "map_of (w_fs w') (journal_path r) = map_of (w_fs w) (journal_path r) \<Longrightarrow>
   journal_text r w' = journal_text r w \<and> (journal_is r es w' \<longleftrightarrow> journal_is r es w)"
  by (simp add: journal_text_def journal_is_def)

lemma open_append_cases:
  obtains (error) e where "open_append p w = Some (Inl e, tick w)"
  | (ok) w1 where "open_append p w = Some (Inr (), w1)" "same_host w w1" "w_history w1 = w_history w"
      "map_of (w_fs w) p \<noteq> Some Dir"
      "map_of (w_fs w1) = (map_of (w_fs w))(p \<mapsto> File (case map_of (w_fs w) p of Some (File t) \<Rightarrow> t | _ \<Rightarrow> []))"
proof (cases "w_fault w (w_tick w) = None \<and> \<not> (p = [] \<or> is_dir_in (w_fs w) p \<or> \<not> is_dir_in (w_fs w) (butlast p))")
  case True
  then have "map_of (w_fs w) p \<noteq> Some Dir" by (auto simp: is_dir_in_def)
  with True show ?thesis
    by (intro ok [of "(tick w)\<lparr>w_fs := if map_of (w_fs w) p = None then AList.update p (File []) (w_fs w) else w_fs w\<rparr>"])
       (auto simp: open_append_def open_file_def file_op_def update_conv' fun_upd_idem split: option.splits node.splits)
next
  case False
  then have "\<exists>e. open_append p w = Some (Inl e, tick w)"
    by (cases "w_fault w (w_tick w)") (auto simp: open_append_def open_file_def file_op_def)
  then show ?thesis using error by blast
qed

lemma append_journal_effect:
  assumes "append_journal r e w = Some (x, w')"
  shows "\<exists>t u. journal_text r w' = journal_text r w @ t \<and> object_encode e @ [newline] = t @ u \<and>
     w_history w' = w_history w \<and>
     (\<forall>y. x = Inr y \<longrightarrow> u = [] \<and> map_of (w_fs w') (journal_path r) \<noteq> Some Dir)"
proof -
  define p where "p = journal_path r"
  show ?thesis
  proof (cases rule: open_append_cases [of p w])
    case (error err)
    then have "x = Inl err" "w' = tick w"
      using assms by (simp_all add: append_journal_def bind_io_def p_def journal_path_def Let_def)
    then show ?thesis
      by (intro exI [of _ "[]"] exI [of _ "object_encode e @ [newline]"]) (simp add: journal_text_def)
  next
    case (ok w1)
    have rest: "bind_io (write_all p (object_encode e @ [newline])) (\<lambda>_. sync_all p) w1 = Some (x, w')"
      using assms ok by (simp add: append_journal_def bind_io_def p_def journal_path_def Let_def)
    have jt: "journal_text r w1 = journal_text r w" "map_of (w_fs w1) p = Some (File (journal_text r w))"
      using ok by (simp_all add: journal_text_def p_def)
    have "emits p (bind_io (write_all p (object_encode e @ [newline])) (\<lambda>_. sync_all p))
        (\<lambda>x t h. h = [] \<and> (\<exists>u. object_encode e @ [newline] = t @ u) \<and> (\<forall>y. x = Inr y \<longrightarrow> t = object_encode e @ [newline]))"
      by (rule emits_bind [OF emits_write_prefix]) (auto intro!: emits_mono [OF emits_sync])
    from emitsD [OF this rest] obtain t u where t: "log_grew p t [] w1 w'" "object_encode e @ [newline] = t @ u"
      "\<forall>y. x = Inr y \<longrightarrow> t = object_encode e @ [newline]" by blast
    then have "map_of (w_fs w') p = Some (File (journal_text r w @ t))" using jt by (simp add: log_grew_def)
    moreover have "w_history w' = w_history w" using t(1) ok by (simp add: log_grew_def)
    ultimately show ?thesis using t(2,3) jt
      by (intro exI [of _ t] exI [of _ u]) (auto simp: journal_text_def p_def)
  qed
qed

lemma only_writes_produce: "only_writes (evidence_path r (sd_id d) n) (produce_result c r identity d n prior)"
  by (auto simp: produce_result_def split: option.split
      intro!: only_writes_bind only_writes_attempt only_writes_quiet)

definition entry_line :: "campaign \<Rightarrow> segment_result \<times> scalar_string \<Rightarrow> scalar_string" where
  "entry_line c e = object_encode (entry_json c (fst e) (snd e)) @ [newline]"

definition started_line :: "campaign \<Rightarrow> scalar_string \<Rightarrow> bool" where
  "started_line c t \<longleftrightarrow> (\<exists>e u. entry_line c e = t @ u)"

lemma started_line_Nil [simp]: "started_line c []"
  by (auto simp: started_line_def)

section \<open>Reading the journal and producing a result\<close>

definition keeps_history :: "'a io \<Rightarrow> bool" where
  "keeps_history m \<longleftrightarrow> (\<forall>w x w'. m w = Some (x, w') \<longrightarrow> w_history w' = w_history w)"

lemma keeps_history_bind: "keeps_history m \<Longrightarrow> (\<And>x. keeps_history (f x)) \<Longrightarrow> keeps_history (bind_io m f)"
  by (auto simp: keeps_history_def bind_io_eq_Some)

lemma keeps_history_file_ops:
  "keeps_history (file_create p)" "keeps_history (write_all p s)" "keeps_history (sync_all p)"
  by (auto simp: keeps_history_def file_create_def open_file_def write_all_def sync_all_def file_op_def
      split: option.splits if_splits)

lemma keeps_history_record:
  "keeps_history (write_manifest r m)" "keeps_history (write_summary r s)" "keeps_history (fs_write p t)"
  by (auto simp: write_manifest_def write_summary_def fs_write_def Let_def
      intro!: keeps_history_bind keeps_history_file_ops)

lemma record_entries_eq:
  assumes "faultless w" "journal_is r es w"
  shows "\<exists>w1. record_entries r w = Some (Inr es, w1)"
proof -
  define p where "p = journal_path r"
  have p: "p \<noteq> []" by (simp add: p_def journal_path_def record_paths)
  have none: "parse_journal [] = Inr []" by (simp add: parse_journal_def lines_def)
  have "bind_io (path_exists p) (\<lambda>x. if \<not> x then ret [] else
      bind_io (read_to_string p) (\<lambda>j. lift_result (parse_journal j))) w =
      Some (Inr es, if map_of (w_fs w) p = None then tick w else tick (tick w))"
  proof (cases "map_of (w_fs w) p")
    case None
    then have "es = []" using assms(2) none by (simp add: journal_is_def journal_text_def p_def)
    then show ?thesis using None p assms(1)
      by (simp add: bind_io_def path_exists_def path_query_def is_dir_in_def is_file_in_def ret_def faultless_def)
  next
    case (Some n)
    then obtain t where n: "n = File t" "parse_journal t = Inr es"
      using assms(2) by (cases n) (auto simp: journal_is_def journal_text_def p_def)
    have "tick (tick w)\<lparr>w_fs := w_fs w\<rparr> = tick (tick w)" by (simp add: tick_def)
    then show ?thesis using Some n assms(1)
      by (simp add: bind_io_def path_exists_def path_query_def is_file_in_def read_to_string_def file_op_def
          lift_result_def faultless_def tick_def)
  qed
  then show ?thesis unfolding record_entries_def Let_def p_def journal_path_def by blast
qed

lemma attempts_for_value:
  assumes "faultless w" "journal_is r es w" "attempts_for r i w = Some (Inr n, w')"
  shows "n = attempts_in i es"
  using record_entries_eq [OF assms(1,2)] assms(3)
  by (auto simp: attempts_for_def bind_io_eq_Some lift_result_def attempts_in_def Let_def split: if_splits)

lemma last_entry_for_value:
  assumes "faultless w" "journal_is r es w" "last_entry_for r i w = Some (Inr e, w')"
  shows "e = last_for i es"
  using record_entries_eq [OF assms(1,2)] assms(3)
  by (auto simp: last_entry_for_def bind_io_eq_Some ret_def)

lemma probe_events:
  assumes "probe s w = Some (x, w')"
  obtains b e where "x = Inr b" "w_history w' = w_history w @ [e]"
    "e \<in> {Ran (step_command s), Refused (step_command s)}" "b \<longrightarrow> e = Ran (step_command s)"
proof (cases "w_output w (w_tick w) (step_command s)")
  case None
  then show ?thesis using assms by (simp add: probe_def command_output_of_def)
next
  case (Some ended)
  show ?thesis
  proof (cases ended)
    case (Inl err)
    with Some have "x = Inr False" "w' = saw [Refused (step_command s)] (tick w)"
      using assms by (simp_all add: probe_def command_output_of_def)
    then show ?thesis using that [of False] by simp
  next
    case (Inr out)
    with Some have "x = Inr (out_success out)" "w' = saw [Ran (step_command s)] (tick w)"
      using assms by (simp_all add: probe_def command_output_of_def)
    then show ?thesis using that [of "out_success out"] by simp
  qed
qed

lemma segment_execute_outcome:
  assumes "segment_execute steps budget p w = Some (Inr oc, w')"
  obtains t h where "w_history w' = w_history w @ h" "attempt_runs steps (oc_status oc) (oc_note oc) t h"
proof -
  obtain h where h: "w_history w' = w_history w @ h" and "\<forall>oc'. Inr oc = (Inr oc' :: runner_error + segment_outcome) \<longrightarrow>
      (\<exists>t. map_of (w_fs w') p = Some (File t) \<and> attempt_runs steps (oc_status oc') (oc_note oc') t h)"
    using segment_execute_effect [OF assms] by (elim conjE exE)
  then obtain t where "attempt_runs steps (oc_status oc) (oc_note oc) t h" by (metis (no_types))
  with h show ?thesis by (rule that)
qed

lemma attempt_runs_or_skips:
  assumes "attempt c d p w = Some (Inr oc, w')"
  obtains (skipped) q e where "sd_prerequisite d = Some q" "w_history w' = w_history w @ [e]"
      "e \<in> {Ran (step_command (pq_probe q)), Refused (step_command (pq_probe q))}"
      "oc = \<lparr>oc_status = Skipped, oc_duration = 0, oc_note = Some (probe_note q)\<rparr>"
  | (attempted) t h where
      "w_history w' = w_history w @
         (case sd_prerequisite d of None \<Rightarrow> [] | Some q \<Rightarrow> [Ran (step_command (pq_probe q))]) @ h"
      "attempt_runs (sd_steps d) (oc_status oc) (oc_note oc) t h"
proof (cases "sd_prerequisite d")
  case None
  then have "segment_execute (sd_steps d) (cp_budget c) p w = Some (Inr oc, w')" using assms by (simp add: attempt_def)
  then show ?thesis by (rule segment_execute_outcome) (rule attempted, simp_all add: None)
next
  case (Some q)
  from assms [unfolded attempt_def Some option.case] show ?thesis
  proof (cases rule: bind_ioE)
    case (ok available w1)
    obtain e where ev: "w_history w1 = w_history w @ [e]"
      "e \<in> {Ran (step_command (pq_probe q)), Refused (step_command (pq_probe q))}"
      "available \<longrightarrow> e = Ran (step_command (pq_probe q))"
      using ok(1) by (rule probe_events) simp
    show ?thesis
    proof (cases available)
      case True
      then have "segment_execute (sd_steps d) (cp_budget c) p w1 = Some (Inr oc, w')" using ok(2) by simp
      then obtain t h where "w_history w' = w_history w1 @ h" "attempt_runs (sd_steps d) (oc_status oc) (oc_note oc) t h"
        by (rule segment_execute_outcome)
      then show ?thesis using attempted [of h t] ev True Some by simp
    next
      case False
      then have "w_history w' = w_history w1 \<and> oc = \<lparr>oc_status = Skipped, oc_duration = 0, oc_note = Some (probe_note q)\<rparr>"
        using ok(2) keeps_history_record(3) by (auto simp: bind_io_eq_Some ret_def keeps_history_def)
      then show ?thesis using skipped [OF Some _ ev(2)] ev(1) by simp
    qed
  qed simp
qed

lemma reusable_standing:
  "reusable c (last_for (sd_id d) es) (identity_digest (cp_identity c)) = standing c es d"
  by (simp add: reusable_def standing_def status_parse_def holds_def scalars_inject
      split: option.split Option.bind_split)

lemma produce_result_runs:
  assumes "produce_result c r (identity_digest (cp_identity c)) d (attempts_in (sd_id d) es + 1)
      (last_for (sd_id d) es) w = Some (Inr res, w')"
  shows "\<exists>h. w_history w' = w_history w @ h \<and> segment_runs c es d res h \<and> sr_attempt res = attempts_in (sd_id d) es + 1"
proof (cases "standing c es d")
  case (Some p)
  have "sr_attempt (reuse i n p identity) = n" for i n identity by (simp add: reuse_def)
  then show ?thesis using assms segment_runs.reused [OF Some] Some by (auto simp: produce_result_def reusable_standing ret_def)
next
  case None
  then obtain oc where a: "attempt c d (evidence_path r (sd_id d) (attempts_in (sd_id d) es + 1)) w = Some (Inr oc, w')"
    and res: "res = attempted_result c d (attempts_in (sd_id d) es + 1) (oc_status oc) (oc_duration oc) (oc_note oc)"
    using assms by (auto simp: produce_result_def reusable_standing bind_io_eq_Some ret_def attempted_result_def)
  from a show ?thesis
  proof (cases rule: attempt_runs_or_skips)
    case (skipped q e)
    then show ?thesis using segment_runs.skipped [OF None skipped(1,3)] res
      by (auto simp: attempted_result_def)
  next
    case (attempted t h)
    then show ?thesis using segment_runs.attempted [OF None refl attempted(2)] res
      by (intro exI) (auto simp: attempted_result_def)
  qed
qed

section \<open>Executing a campaign\<close>

text \<open>
  What a campaign relies on of the clock it is given: reading it changes no file and runs no
  command.
\<close>

locale record_clock =
  fixes now :: "scalar_string io"
  assumes reads_only: "observes now"
begin

lemma run_segment_steps:
  assumes "run_segment c r now identity d w = Some (x, w')"
  obtains (early) e where "x = Inl e" "same_host w w'" "w_fs w' = w_fs w"
  | (unproduced) e n prior w3 where "x = Inl e" "same_host w w3" "w_fs w3 = w_fs w"
      "produce_result c r identity d n prior w3 = Some (Inl e, w')"
  | (produced) n started prior res w1 w2 w3 w4 y where
      "attempts_for r (sd_id d) w = Some (Inr n, w1)" "n + 1 < 2 ^ 32" "same_host w w2" "w_fs w2 = w_fs w"
      "w_history w2 = w_history w" "last_entry_for r (sd_id d) w2 = Some (Inr prior, w3)"
      "produce_result c r identity d (n + 1) prior w3 = Some (Inr res, w4)"
      "append_journal r (entry_json c res started) w4 = Some (y, w')"
      "x = (case y of Inl e \<Rightarrow> Inl e | Inr _ \<Rightarrow> Inr res)"
  using observes_entries(2) assms [unfolded run_segment_def]
proof (cases rule: observes_bindE)
  case (error e)
  then show ?thesis by (rule early)
next
  case a: (ok n w1)
  show ?thesis
  proof (cases "2 ^ 32 \<le> n + 1")
    case True
    then show ?thesis using a by (intro early) (auto simp: lift_result_def failed_def)
  next
    case False
    then have "bind_io now (\<lambda>started. bind_io (last_entry_for r (sd_id d)) (\<lambda>prior.
        bind_io (produce_result c r identity d (n + 1) prior) (\<lambda>res.
        bind_io (append_journal r (entry_json c res started)) (\<lambda>_. ret res)))) w1 = Some (x, w')"
      using a(2) by simp
    with reads_only show ?thesis
    proof (cases rule: observes_bindE)
      case (error e)
      then show ?thesis using early [of e] a(4) same_host_trans [OF a(3) error(2)] by simp
    next
      case b: (ok started w2)
      from observes_entries(3) b(2) show ?thesis
      proof (cases rule: observes_bindE)
        case (error e)
        then show ?thesis
          using early [of e] a(4) b(4) same_host_trans [OF a(3) same_host_trans [OF b(3) error(2)]] by simp
      next
        case l: (ok prior w3)
        have h: "same_host w w2" "same_host w w3"
          using same_host_trans [OF a(3) b(3)] same_host_trans [OF same_host_trans [OF a(3) b(3)] l(3)] by simp_all
        from l(2) show ?thesis
        proof (cases rule: bind_ioE)
          case (error e)
          then show ?thesis using unproduced [OF _ h(2) _ error(1)] a(4) b(4) l(4) by simp
        next
          case p: (ok res w4)
          then obtain y where "append_journal r (entry_json c res started) w4 = Some (y, w')"
            "x = (case y of Inl e \<Rightarrow> Inl e | Inr _ \<Rightarrow> Inr res)"
            by (auto simp: bind_io_eq_Some ret_def)
          then show ?thesis using produced [OF a(1) _ h(1) _ _ l(1) p(1)] a(4,5) b(4,5) False by simp
        qed
      qed
    qed
  qed
qed

lemma run_segment_journal:
  assumes run: "run_segment c r now identity d w = Some (x, w')" and d: "plain_id d"
  shows "same_host w w' \<and>
    (case x of
       Inr res \<Rightarrow> \<exists>started. journal_text r w' = journal_text r w @ entry_line c (res, started)
     | Inl _ \<Rightarrow> \<exists>t. journal_text r w' = journal_text r w @ t \<and> started_line c t)"
  using run
proof (cases rule: run_segment_steps)
  case (early e)
  then show ?thesis by (auto simp: journal_text_def intro: exI [of _ "[]"])
next
  case (unproduced e n prior w3)
  then have "journal_text r w' = journal_text r w"
    using only_writesD [OF only_writes_produce unproduced(4)] journal_path_distinct(3) [OF d]
    by (simp add: journal_text_def)
  moreover have "same_host w w'"
    using same_host_trans [OF unproduced(2)] only_writesD [OF only_writes_produce unproduced(4)] by simp
  ultimately show ?thesis using unproduced(1) by (auto intro: exI [of _ "[]"])
next
  case (produced n started prior res w1 w2 w3 w4 y)
  note w3 = observesD [OF observes_entries(3) produced(6)]
  note w4 = only_writesD [OF only_writes_produce produced(7)]
  note w' = only_writesD [OF only_writes_journal produced(8)]
  have jt: "journal_text r w4 = journal_text r w"
    using w3 w4 produced(4) journal_path_distinct(3) [OF d] by (simp add: journal_text_def)
  have host: "same_host w w'"
    using same_host_trans [OF produced(3) same_host_trans [of w2 w3 w']] same_host_trans [of w3 w4 w'] w3 w4 w' by simp
  obtain t u where t: "journal_text r w' = journal_text r w @ t" "entry_line c (res, started) = t @ u"
    "\<forall>z. y = Inr z \<longrightarrow> u = []"
    using append_journal_effect [OF produced(8)] jt by (auto simp: entry_line_def)
  then show ?thesis using host produced(9) by (cases y) (auto simp: started_line_def)
qed

lemma run_segments_journal:
  assumes "run_segments c r now identity ds w = Some (x, w')" "list_all plain_id ds"
  shows "same_host w w' \<and> (\<exists>recorded rest.
    journal_text r w' = journal_text r w @ concat (map (entry_line c) recorded) @ rest \<and> started_line c rest \<and>
    (\<forall>rs. x = Inr rs \<longrightarrow> map fst recorded = rs \<and> rest = []))"
  using assms
proof (induction ds arbitrary: w x)
  case Nil
  then show ?case by (auto simp: ret_def intro!: exI [of _ "[]"])
next
  case (Cons d ds)
  from Cons.prems(1) [unfolded run_segments.simps] show ?case
  proof (cases rule: bind_ioE)
    case (error e)
    obtain t where "same_host w w'" "journal_text r w' = journal_text r w @ t" "started_line c t"
      using run_segment_journal [OF error(1)] Cons.prems(2) by auto
    then show ?thesis using error(2) by (intro conjI exI [of _ "[]"] exI [of _ t]) simp_all
  next
    case (ok res w1)
    obtain y where y: "run_segments c r now identity ds w1 = Some (y, w')"
      "x = map_sum id ((#) res) y"
      using ok(2) by (auto simp: bind_io_ret)
    obtain started where s: "same_host w w1" "journal_text r w1 = journal_text r w @ entry_line c (res, started)"
      using run_segment_journal [OF ok(1)] Cons.prems(2) by auto
    obtain recorded rest where "same_host w1 w'"
      "journal_text r w' = journal_text r w1 @ concat (map (entry_line c) recorded) @ rest" "started_line c rest"
      "\<forall>rs. y = Inr rs \<longrightarrow> map fst recorded = rs \<and> rest = []"
      using Cons.IH [OF y(1)] Cons.prems(2) by auto
    then show ?thesis using s y(2) same_host_trans [of w w1 w']
      by (intro conjI exI [of _ "(res, started) # recorded"] exI [of _ rest]) (auto simp: map_sum_eq_Inr)
  qed
qed

lemma run_segment_runs:
  assumes run: "run_segment c r now (identity_digest (cp_identity c)) d w = Some (Inr res, w')"
    and w: "faultless w" "journal_is r es w" and d: "plain_id d"
  shows "faultless w' \<and> journal_is r (es @ [entry_of c res]) w' \<and>
    (\<exists>h. w_history w' = w_history w @ h \<and> segment_runs c es d res h)"
  using run
proof (cases rule: run_segment_steps)
  case (produced n started prior res' w1 w2 w3 w4 y)
  have y: "y = Inr ()" "res' = res" using produced(9) by (auto split: sum.splits)
  have w2: "faultless w2" "journal_is r es w2"
    using w faultless_same_host [OF produced(3)] journal_text_same [of w2 r w] produced(4) by simp_all
  have n: "n = attempts_in (sd_id d) es" by (rule attempts_for_value [OF w produced(1)])
  have prior: "prior = last_for (sd_id d) es" by (rule last_entry_for_value [OF w2 produced(6)])
  note w3 = observesD [OF observes_entries(3) produced(6)]
  obtain h where h: "w_history w4 = w_history w3 @ h" "segment_runs c es d res h" "sr_attempt res = n + 1"
    using produce_result_runs [of c r d es w3 res w4] produced(7) n prior y by auto
  note w4 = only_writesD [OF only_writes_produce produced(7)]
  note w' = only_writesD [OF only_writes_journal produced(8)]
  have j4: "journal_text r w4 = journal_text r w"
    using w3 w4 produced(4) journal_path_distinct(3) [OF d] by (simp add: journal_text_def)
  have j': "journal_text r w' = journal_text r w @ object_encode (flat_object (entry_fields c res started)) @ [newline]"
    "w_history w' = w_history w4" "map_of (w_fs w') (journal_path r) \<noteq> Some Dir"
    using append_journal_effect [OF produced(8)] j4 y by (auto simp: entry_json_flat)
  have "parse_journal (journal_text r w') = Inr (es @ [entry_of c res])"
    using parse_journal_line [of "journal_text r w" "[]"] w(2) h(3) produced(2)
    by (simp add: j' journal_is_def and_then_def entry_of_fields_written)
  moreover have "faultless w'"
    using w2 w3 w4 w' faultless_same_host by (metis (no_types, opaque_lifting))
  ultimately show ?thesis using h w3 produced(5) j' by (auto simp: journal_is_def ends_line_def)
qed (use run in auto)

lemma run_segments_runs:
  assumes "run_segments c r now (identity_digest (cp_identity c)) ds w = Some (Inr rs, w')"
    and "faultless w" "journal_is r es w" "list_all plain_id ds"
  shows "faultless w' \<and> journal_is r (es @ map (entry_of c) rs) w' \<and>
    (\<exists>h. w_history w' = w_history w @ h \<and> campaign_runs c es ds rs h)"
  using assms
proof (induction ds arbitrary: w es rs)
  case Nil
  then show ?case by (auto simp: ret_def intro: campaign_runs.campaign_done)
next
  case (Cons d ds)
  from Cons.prems(1) [unfolded run_segments.simps] show ?case
  proof (cases rule: bind_ioE)
    case (ok res w1)
    obtain rest where rest: "run_segments c r now (identity_digest (cp_identity c)) ds w1 = Some (Inr rest, w')" "rs = res # rest"
      using ok(2) by (auto simp: bind_io_ret) (metis map_sum_eq_Inr)
    obtain h where w1: "faultless w1" "journal_is r (es @ [entry_of c res]) w1"
      "w_history w1 = w_history w @ h" "segment_runs c es d res h"
      using run_segment_runs [OF ok(1) Cons.prems(2,3)] Cons.prems(4) by auto
    obtain k where k: "w_history w' = w_history w1 @ k" "campaign_runs c (es @ [entry_of c res]) ds rest k"
      "faultless w'" "journal_is r ((es @ [entry_of c res]) @ map (entry_of c) rest) w'"
      using Cons.IH [OF rest(1) w1(1,2)] Cons.prems(4) by auto
    have "campaign_runs c es (d # ds) (res # rest) (h @ k)" by (rule campaign_runs.campaign_next [OF w1(4) k(2)])
    then show ?thesis using k w1(3) rest(2) by auto
  qed simp
qed

lemma campaign_execute_refines:
  assumes "campaign_execute show_seconds c r now w = Some (Inr rep, w')"
    and "faultless w" "journal_is r es w" "list_all plain_id (cp_segments c)"
  shows "faultless w' \<and> rep = finish_report c (rp_results rep) \<and>
    journal_is r (es @ map (entry_of c) (rp_results rep)) w' \<and>
    (\<exists>h. w_history w' = w_history w @ h \<and> campaign_runs c es (cp_segments c) (rp_results rep) h)"
proof -
  from assms(1) obtain w1 rs w2 where
    w1: "write_manifest r (manifest c r) w = Some (Inr (), w1)" and
    run: "run_segments c r now (identity_digest (cp_identity c)) (cp_segments c) w1 = Some (Inr rs, w2)" and
    w': "write_summary r (summary show_seconds c r (finish_report c rs)) w2 = Some (Inr (), w')" and
    rep: "rep = finish_report c rs"
    by (auto simp: campaign_execute_def bind_io_eq_Some ret_def Let_def)
  note m = only_writesD [OF only_writes_manifest w1] and s = only_writesD [OF only_writes_summary w']
  have k: "w_history w1 = w_history w" "w_history w' = w_history w2"
    using keeps_history_record(1,2) w1 w' unfolding keeps_history_def by blast+
  have j1: "faultless w1" "journal_is r es w1"
    using assms(2,3) m faultless_same_host [of w w1] journal_text_same [of w1 r w] journal_path_distinct(1) by simp_all
  obtain h where "faultless w2" "journal_is r (es @ map (entry_of c) rs) w2" "w_history w2 = w_history w1 @ h"
    "campaign_runs c es (cp_segments c) rs h"
    using run_segments_runs [OF run j1 assms(4)] by blast
  moreover have "rp_results rep = rs" by (simp add: rep finish_report_def Let_def split: prod.split)
  ultimately show ?thesis
    using k s journal_text_same [of w' r w2] journal_path_distinct(2) [of r] faultless_same_host [of w2 w']
    by (auto simp: rep)
qed

lemma campaign_execute_journal:
  assumes "campaign_execute show_seconds c r now w = Some (x, w')" "list_all plain_id (cp_segments c)"
  shows "\<exists>recorded rest.
    journal_text r w' = journal_text r w @ concat (map (entry_line c) recorded) @ rest \<and> started_line c rest \<and>
    (\<forall>rep. x = Inr rep \<longrightarrow> map fst recorded = rp_results rep \<and> rest = [])"
  using assms(1) [unfolded campaign_execute_def]
proof (cases rule: bind_ioE)
  case (error e)
  then show ?thesis
    using only_writesD [OF only_writes_manifest error(1)] journal_path_distinct(1)
    by (intro exI [of _ "[]"]) (auto simp: journal_text_def)
next
  case (ok u w1)
  have j1: "journal_text r w1 = journal_text r w"
    using only_writesD [OF only_writes_manifest ok(1)] journal_path_distinct(1) by (simp add: journal_text_def)
  from ok(2) show ?thesis
  proof (cases rule: bind_ioE)
    case (error e)
    then show ?thesis using run_segments_journal [OF error(1) assms(2)] j1 by auto
  next
    case s: (ok rs w2)
    obtain y where y: "write_summary r (summary show_seconds c r (finish_report c rs)) w2 = Some (y, w')"
      "x = map_sum id (\<lambda>_. finish_report c rs) y"
      using s(2) by (auto simp: Let_def bind_io_ret)
    have "journal_text r w' = journal_text r w2"
      using only_writesD [OF only_writes_summary y(1)] journal_path_distinct(2) by (simp add: journal_text_def)
    moreover have "rp_results (finish_report c rs) = rs" by (simp add: finish_report_def Let_def split: prod.split)
    moreover obtain recorded where "journal_text r w2 = journal_text r w @ concat (map (entry_line c) recorded)"
      "map fst recorded = rs" using run_segments_journal [OF s(1) assms(2)] j1 by auto
    ultimately show ?thesis
      using y(2) by (intro exI [of _ recorded] exI [of _ "[]"]) (simp add: map_sum_eq_Inr)
  qed
qed

end

interpretation wall: record_clock now_timestamp
  by unfold_locales (simp add: now_timestamp_def now_utc_def observes_bind)

section \<open>What a report says\<close>

lemma standing_Some:
  "standing c es d = Some p \<longleftrightarrow>
     cp_resume c \<and> last_for (sd_id d) es = Some p \<and> je_status p \<in> {scalars ''pass'', scalars ''cached''} \<and>
     je_evidence_identity p = identity_digest (cp_identity c)"
  by (auto simp: standing_def split: option.splits if_splits)

lemma holds_as_str: "status_as_str st \<in> {scalars ''pass'', scalars ''cached''} \<longleftrightarrow> holds st"
  by (cases st) (simp_all add: holds_def scalars_inject)

lemma last_for_snoc: "last_for i (es @ [e]) = (if je_segment e = i then Some e else last_for i es)"
  by (simp add: last_for_def)

lemma last_for_append: "last_for i (es @ fs) = (case last_for i fs of Some e \<Rightarrow> Some e | None \<Rightarrow> last_for i es)"
  by (induction fs rule: rev_induct) (auto simp: last_for_snoc append_assoc [symmetric] last_for_def simp del: append_assoc)

lemma last_for_ids: "i \<in> je_segment ` set es \<Longrightarrow> \<exists>e \<in> set es. last_for i es = Some e \<and> je_segment e = i"
  by (induction es rule: rev_induct) (auto simp: last_for_snoc)

lemma segment_runs_identity:
  "segment_runs c es d res h \<Longrightarrow> sr_id res = sd_id d \<and> sr_identity res = identity_digest (cp_identity c)"
  by (induction rule: segment_runs.induct) (simp_all add: reuse_def attempted_result_def)

lemma campaign_runs_ids:
  "campaign_runs c es ds rs h \<Longrightarrow>
     map sr_id rs = map sd_id ds \<and> list_all (\<lambda>r. sr_identity r = identity_digest (cp_identity c)) rs"
  by (induction rule: campaign_runs.induct) (auto dest: segment_runs_identity)

lemma all_reused:
  assumes "campaign_runs c es ds rs h" "cp_resume c"
    and "\<forall>d \<in> set ds. \<exists>p. standing c es d = Some p"
  shows "h = [] \<and> list_all (\<lambda>r. sr_status r = Cached) rs"
  using assms
proof (induction rule: campaign_runs.induct)
  case (campaign_next es d res h ds rs k)
  obtain p where p: "standing c es d = Some p"
    using campaign_next.prems(2) by auto
  have r: "h = []" "sr_status res = Cached" "sr_id res = sd_id d"
    using campaign_next.hyps(1) p by (auto elim!: segment_runs.cases simp: reuse_def)
  have "\<exists>p. standing c (es @ [entry_of c res]) d' = Some p"
    if "d' \<in> set ds" for d'
    using campaign_next.prems that r(2,3)
    by (auto simp: last_for_snoc standing_Some entry_of_def)
  then show ?case using campaign_next.IH campaign_next.prems r by auto
qed simp

lemma produce_result_id:
  "produce_result c r identity d n prior w = Some (Inr res, w') \<Longrightarrow> sr_id res = sd_id d \<and> sr_identity res = identity"
  by (auto simp: produce_result_def reuse_def ret_def bind_io_eq_Some split: option.splits)

lemma run_segment_id:
  assumes "run_segment c r now identity d w = Some (Inr res, w')"
  shows "sr_id res = sd_id d \<and> sr_identity res = identity"
proof -
  obtain n prior w3 w4 where "produce_result c r identity d n prior w3 = Some (Inr res, w4)"
    using assms by (auto simp: run_segment_def bind_io_eq_Some ret_def lift_result_def failed_def split: if_splits)
  then show ?thesis by (rule produce_result_id)
qed

lemma run_segments_ids:
  "run_segments c r now identity ds w = Some (Inr rs, w') \<Longrightarrow>
     map sr_id rs = map sd_id ds \<and> list_all (\<lambda>x. sr_identity x = identity) rs"
  by (induction ds arbitrary: w rs) (auto simp: ret_def bind_io_eq_Some dest!: run_segment_id)

lemma campaign_execute_report:
  assumes "campaign_execute show_seconds c r now w = Some (Inr rep, w')"
  shows "map sr_id (rp_results rep) = map sd_id (cp_segments c) \<and>
    list_all (\<lambda>x. sr_identity x = identity_digest (cp_identity c)) (rp_results rep) \<and>
    rep = finish_report c (rp_results rep)"
proof -
  obtain rs w1 w2 where "run_segments c r now (identity_digest (cp_identity c)) (cp_segments c) w1 = Some (Inr rs, w2)"
    "rep = finish_report c rs"
    using assms by (auto simp: campaign_execute_def bind_io_eq_Some ret_def Let_def)
  moreover from this(2) have "rp_results rep = rs" by (simp add: finish_report_def Let_def split: prod.split)
  ultimately show ?thesis using run_segments_ids by auto
qed

lemma seal_state_cases:
  "fst (seal_state req finals identity tree) =
     (if list_ex (\<lambda>r. \<not> holds (fr_status r)) finals then Failed
      else if tree = Clean \<and> list_all (\<lambda>r. fr_identity r = identity) finals \<and>
        list_all (\<lambda>i. list_ex (\<lambda>r. fr_id r = i) finals) req then Sealed
      else Partial)"
  by (auto simp: seal_state_def Let_def list_ex_iff list_all_iff filter_empty_conv split: tree_state.splits)

lemma finish_report_state:
  assumes "map sr_id rs = map sd_id (cp_segments c)"
    "list_all (\<lambda>r. sr_identity r = identity_digest (cp_identity c)) rs"
  shows "rp_state (finish_report c rs) =
    (if list_ex (\<lambda>r. \<not> holds (sr_status r)) rs then Failed else if cp_tree_state c = Clean then Sealed else Partial)"
proof -
  define finals where "finals = map (\<lambda>x. \<lparr>fr_id = sr_id x, fr_status = sr_status x, fr_identity = sr_identity x\<rparr>) rs"
  have "rp_state (finish_report c rs) =
      fst (seal_state (map sd_id (cp_segments c)) finals (identity_digest (cp_identity c)) (cp_tree_state c))"
    by (simp add: finish_report_def finals_def Let_def split: prod.split)
  moreover have "list_all (\<lambda>i. list_ex (\<lambda>r. fr_id r = i) finals) (map sd_id (cp_segments c))"
    unfolding assms(1) [symmetric] by (auto simp: list_all_iff list_ex_iff finals_def)
  ultimately show ?thesis using assms(2)
    by (simp add: seal_state_cases finals_def list_ex_iff list_all_iff)
qed

text \<open>
  C18: what executing a campaign does, on a host whose file operations do not fail and a record whose
  journal can be read.  Each required segment, in order, is reused exactly when the campaign resumes
  and the last entry of that segment holds under the same evidence identity; otherwise it is skipped
  because its prerequisite is missing, or attempted as the specification of an attempt says.  The
  commands the host saw are those of the attempts, every result is in the journal after the entries
  that were there, and the report is the one its results and the working tree call for.
\<close>

theorem campaign_follows_specification:
  assumes "campaign_execute show_seconds c r now_timestamp w = Some (Inr rep, w')"
    and "faultless w" "journal_is r es w" "list_all plain_id (cp_segments c)"
  shows "(\<exists>h. campaign_runs c es (cp_segments c) (rp_results rep) h \<and> w_history w' = w_history w @ h) \<and>
    journal_is r (es @ map (entry_of c) (rp_results rep)) w' \<and>
    rp_state rep =
      (if list_ex (\<lambda>x. \<not> holds (sr_status x)) (rp_results rep) then Failed
       else if cp_tree_state c = Clean then Sealed else Partial)"
proof -
  note e = wall.campaign_execute_refines [OF assms]
  then obtain h where h: "campaign_runs c es (cp_segments c) (rp_results rep) h" "w_history w' = w_history w @ h" by blast
  show ?thesis using e h finish_report_state [of "rp_results rep" c] campaign_runs_ids [OF h(1)] by metis
qed

text \<open>
  C19: the journal of a record only ever grows, whatever fails.  After executing a campaign, also one
  cut short by an error of the host at any point, the journal is what it was, followed by the whole
  lines of the results recorded so far, followed at most by the beginning of one more line; when the
  campaign ends with a report, it has exactly the lines of all its results.
\<close>

theorem campaign_journal_grows:
  assumes "campaign_execute show_seconds c r now_timestamp w = Some (x, w')"
    and "list_all plain_id (cp_segments c)"
  shows "\<exists>recorded rest.
    journal_text r w' = journal_text r w @ concat (map (entry_line c) recorded) @ rest \<and>
    started_line c rest \<and>
    (\<forall>rep. x = Inr rep \<longrightarrow> map fst recorded = rp_results rep \<and> rest = [])"
  using wall.campaign_execute_journal [OF assms] .

text \<open>
  C22: when a set of results seals.  Whatever the results, the record fails exactly when some result
  does not hold; otherwise it seals exactly when the tree is clean, every result is under the
  evidence identity of the campaign and every required segment has a result, and stays partial if
  not.  It states a reason exactly when it does not seal, and a gate campaign succeeds exactly when
  it seals.
\<close>

theorem seal_state_exact:
  "fst (seal_state req finals identity tree) =
     (if list_ex (\<lambda>r. \<not> holds (fr_status r)) finals then Failed
      else if tree = Clean \<and> list_all (\<lambda>r. fr_identity r = identity) finals \<and> set req \<subseteq> fr_id ` set finals
      then Sealed else Partial) \<and>
   (snd (seal_state req finals identity tree) = [] \<longleftrightarrow> fst (seal_state req finals identity tree) = Sealed) \<and>
   (closes Gate rep \<longleftrightarrow> rp_state rep = Sealed)"
proof (intro conjI)
  show "snd (seal_state req finals identity tree) = [] \<longleftrightarrow> fst (seal_state req finals identity tree) = Sealed"
    by (auto simp: seal_state_def Let_def filter_empty_conv)
  have "list_all (\<lambda>i. list_ex (\<lambda>r. fr_id r = i) finals) req \<longleftrightarrow> set req \<subseteq> fr_id ` set finals"
    by (auto simp: list_all_iff list_ex_iff)
  then show "fst (seal_state req finals identity tree) =
     (if list_ex (\<lambda>r. \<not> holds (fr_status r)) finals then Failed
      else if tree = Clean \<and> list_all (\<lambda>r. fr_identity r = identity) finals \<and> set req \<subseteq> fr_id ` set finals
      then Sealed else Partial)" by (simp add: seal_state_cases)
  show "closes Gate rep \<longleftrightarrow> rp_state rep = Sealed" by (simp add: closes_def)
qed

text \<open>
  C36: evidence taken from a modified working tree can seal.  A campaign over a modified tree whose
  segments all hold is recorded as partial; resuming it once the tree is clean again, at the same
  revision, reuses every one of those results, runs no command, and seals the record.
\<close>

theorem modified_tree_evidence_seals:
  assumes "campaign_execute show_seconds c r now_timestamp w = Some (Inr rep1, w1)"
    and "cp_tree_state c = Modified changes" "every_segment_holds rep1"
    and "campaign_execute show_seconds (c\<lparr>cp_resume := True, cp_tree_state := Clean\<rparr>) r now_timestamp w1 =
      Some (Inr rep2, w2)"
    and "faultless w" "journal_is r es w" "list_all plain_id (cp_segments c)"
  shows "rp_state rep1 = Partial \<and> rp_state rep2 = Sealed \<and> w_history w2 = w_history w1 \<and>
    list_all (\<lambda>x. sr_status x = Cached) (rp_results rep2)"
proof -
  define c2 where "c2 = c\<lparr>cp_resume := True, cp_tree_state := Clean\<rparr>"
  define es1 where "es1 = es @ map (entry_of c) (rp_results rep1)"
  note e1 = wall.campaign_execute_refines [OF assms(1,5,6,7)]
  then obtain h where h: "campaign_runs c es (cp_segments c) (rp_results rep1) h" by blast
  have w1: "faultless w1" "journal_is r es1 w1"
    using e1 by (simp_all add: es1_def)
  have "list_all plain_id (cp_segments c2)" using assms(7) by (simp add: c2_def)
  note e2 = wall.campaign_execute_refines [OF assms(4) [folded c2_def] w1 this]
  then obtain k where k: "campaign_runs c2 es1 (cp_segments c2) (rp_results rep2) k" "w_history w2 = w_history w1 @ k"
    by blast
  have "\<exists>p. standing c2 es1 d = Some p"
    if "d \<in> set (cp_segments c2)" for d
  proof -
    define xs where "xs = map (entry_of c) (rp_results rep1)"
    have "sd_id d \<in> set (map sr_id (rp_results rep1))"
      using that campaign_runs_ids [OF h] by (simp add: c2_def)
    then have "sd_id d \<in> je_segment ` set xs" by (simp add: xs_def image_image entry_of_def)
    then obtain e where e: "e \<in> set xs" "last_for (sd_id d) xs = Some e" using last_for_ids by blast
    then obtain res where res: "res \<in> set (rp_results rep1)" "e = entry_of c res" by (auto simp: xs_def)
    have "last_for (sd_id d) es1 = Some e" using e(2) by (simp add: es1_def xs_def [symmetric] last_for_append)
    moreover have "holds (sr_status res)" using assms(3) res(1) by (simp add: every_segment_holds_def list_all_iff)
    ultimately show ?thesis by (simp add: standing_Some holds_as_str [simplified] c2_def res(2) entry_of_def)
  qed
  then have r: "k = []" "list_all (\<lambda>x. sr_status x = Cached) (rp_results rep2)"
    using all_reused [OF k(1)] by (auto simp: c2_def)
  have "rp_state rep1 = Partial"
    using e1 finish_report_state [of "rp_results rep1" c] campaign_runs_ids [OF h] assms(2,3)
    by (simp add: every_segment_holds_def list_ex_iff list_all_iff)
  moreover have "rp_state rep2 = Sealed"
    using e2 finish_report_state [of "rp_results rep2" c2] campaign_runs_ids [OF k(1)] r(2)
    by (simp add: c2_def list_ex_iff list_all_iff holds_def)
  ultimately show ?thesis using r k(2) by simp
qed

end
