(* ===== verification/Runner_Record_Laws.thy ===== *)
theory Runner_Record_Laws
  imports Runner_Record
begin

text \<open>
  Two campaigns never share a record directory: the sequence number a new record takes is above
  those of every record of the same date, so the directory it names did not exist.
\<close>

lemma two_digits:
  assumes "n \<le> 99"
  shows "length (pad_zero 2 (display_nat n)) = 2" "list_all is_ascii_digit (pad_zero 2 (display_nat n))"
    "digits_value (pad_zero 2 (display_nat n)) = n"
proof -
  have "length (pad_zero 2 (display_nat n)) = 2 \<and> list_all is_ascii_digit (pad_zero 2 (display_nat n)) \<and>
      digits_value (pad_zero 2 (display_nat n)) = n"
  proof (cases "n < 10")
    case True
    then have "display_nat n = [48 + n]" by (subst display_nat_rec) simp
    then show ?thesis using True by (simp add: pad_zero_def is_ascii_digit_def digits_value_def)
  next
    case False
    have "n div 10 < 10" using assms by linarith
    then have "display_nat (n div 10) = [48 + n div 10]" by (subst display_nat_rec) simp
    then have "display_nat n = [48 + n div 10, 48 + n mod 10]" using False by (subst display_nat_rec) simp
    moreover have "n div 10 \<le> 9" "n mod 10 \<le> 9" using assms mod_less_divisor [of 10 n] by linarith+
    ultimately show ?thesis by (simp add: pad_zero_def is_ascii_digit_def digits_value_def)
  qed
  then show "length (pad_zero 2 (display_nat n)) = 2" "list_all is_ascii_digit (pad_zero 2 (display_nat n))"
    "digits_value (pad_zero 2 (display_nat n)) = n" by simp_all
qed

lemma str_get_to_0 [simp]: "str_get_to s 0 = Some []"
  by (cases s) simp_all

lemma name_sequence_own:
  assumes "n \<le> 99"
  shows "name_sequence pre (pre @ pad_zero 2 (display_nat n) @ rest) = Some n"
proof -
  obtain a b where ab: "pad_zero 2 (display_nat n) = [a, b]" "is_ascii_digit a" "is_ascii_digit b"
    using two_digits(1,2) [OF assms] by (auto simp: numeral_2_eq_2 length_Suc_conv)
  then have "a \<noteq> 43" "utf8_length a = 1" "utf8_length b = 1" by (auto simp: is_ascii_digit_def utf8_length_def)
  then show ?thesis
    using ab two_digits(3) [OF assms] assms
    by (simp add: name_sequence_def strip_prefix_def parse_unsigned_def)
qed

lemma highest_sequence_mono: "highest \<le> highest_sequence pre highest names"
  by (induction pre highest names rule: highest_sequence.induct) (auto split: option.splits)

lemma highest_sequence_ge:
  "name \<in> set names \<Longrightarrow> name_sequence pre name = Some n \<Longrightarrow> n \<le> highest_sequence pre highest names"
proof (induction pre highest names rule: highest_sequence.induct)
  case (2 pre highest m names)
  then show ?case using highest_sequence_mono [of "max highest n" pre names] by (auto split: option.splits)
qed simp

lemma make_dirs_dom: "map_of (make_dirs p fs) q = None \<longleftrightarrow> map_of fs q = None \<and> q \<notin> set (prefixes_of p)"
proof -
  have "map_of (fold (\<lambda>q fs. if map_of fs q = None then fs @ [(q, Dir)] else fs) ps fs) q = None \<longleftrightarrow>
      map_of fs q = None \<and> q \<notin> set ps" for ps
    by (induction ps arbitrary: fs) (auto simp: map_add_def split: option.splits)
  then show ?thesis by (simp add: make_dirs_def)
qed

lemma children_iff: "name \<in> set (children p fs) \<longleftrightarrow> map_of fs (p @ [name]) \<noteq> None"
proof -
  have "name \<in> set (children p fs) \<longleftrightarrow> p @ [name] \<in> fst ` set fs"
    by (auto simp: children_def image_iff) (metis append_butlast_last_id fst_conv, force)
  then show ?thesis by (simp add: map_of_eq_None_iff)
qed

lemma next_sequence_fresh:
  assumes "next_sequence tier_root date w = Some (Inr n, w')"
  shows "w_fs w' = w_fs w" "1 \<le> n" "n \<le> 99"
    "map_of (w_fs w) (tier_root @ [date @ scalars ''-'' @ pad_zero 2 (display_nat n) @ rest]) = None"
proof -
  define names where "names = children tier_root (w_fs w)"
  define pre where "pre = date @ scalars ''-''"
  have n: "n = highest_sequence pre 0 names + 1" "n \<le> 99" and fs: "w_fs w' = w_fs w"
    using assms by (auto simp: next_sequence_def bind_io_eq_Some read_dir_def file_op_def ret_def lift_result_def
        Let_def MAX_SEQUENCE_def names_def pre_def split: option.splits if_splits)
  then show "w_fs w' = w_fs w" "1 \<le> n" "n \<le> 99" by simp_all
  have "pre @ pad_zero 2 (display_nat n) @ rest \<notin> set names"
    using highest_sequence_ge [OF _ name_sequence_own [OF n(2)], of pre rest names 0] n(1) by auto
  then show "map_of (w_fs w) (tier_root @ [date @ scalars ''-'' @ pad_zero 2 (display_nat n) @ rest]) = None"
    by (simp add: names_def pre_def children_iff)
qed

lemma path_join_name:
  assumes "s \<noteq> []" "s \<noteq> scalars ''.''" "of_char (CHR ''/'') \<notin> set s"
  shows "path_join p s = p @ [s]"
proof -
  have "take 1 s \<noteq> scalars ''/''" using assms(1,3) by (cases s) (auto simp: scalars_def)
  then show ?thesis
    using split_on_absent [OF assms(3), simplified] assms(1,2) by (simp add: path_join_def components_def)
qed

text \<open>The name of a new record.\<close>

definition record_name :: "scalar_string \<Rightarrow> nat \<Rightarrow> scalar_string \<Rightarrow> scalar_string" where
  "record_name date n topic = date @ scalars ''-'' @ pad_zero 2 (display_nat n) @ scalars ''-'' @ topic"

text \<open>
  C28: creating a record takes a directory of its own.  The record's name carries the date, a two-digit
  sequence number between 1 and 99 and the topic, and no file or directory of that name existed in
  the tier before, so two campaigns never write into the same record.
\<close>

theorem record_create_fresh:
  assumes "record_create records_root tier date topic w = Some (Inr r, w')"
    and "of_char (CHR ''/'') \<notin> set date" "of_char (CHR ''/'') \<notin> set topic"
  shows "\<exists>n. 1 \<le> n \<and> n \<le> 99 \<and> rr_identifier r = record_name date n topic \<and>
    rr_root r = path_join records_root tier @ [rr_identifier r] \<and> map_of (w_fs w) (rr_root r) = None"
proof -
  define tier_root where "tier_root = path_join records_root tier"
  obtain w1 n w2 where w1: "create_dir_all tier_root w = Some (Inr (), w1)"
    and n: "next_sequence tier_root date w1 = Some (Inr n, w2)"
    and r: "rr_identifier r = record_name date n topic" "rr_root r = path_join tier_root (record_name date n topic)"
    using assms(1) by (auto simp: record_create_def Let_def bind_io_eq_Some ret_def tier_root_def record_name_def)
  note f = next_sequence_fresh [OF n]
  have d: "of_char (CHR ''/'') \<notin> set (pad_zero 2 (display_nat n))"
    using display_nat_digits [of n] by (auto simp: pad_zero_def list_all_iff is_ascii_digit_def)
  have "2 \<le> length (record_name date n topic)" by (simp add: record_name_def scalars_def)
  then have "path_join tier_root (record_name date n topic) = tier_root @ [record_name date n topic]"
    using assms(2,3) d by (intro path_join_name) (auto simp: record_name_def scalars_def)
  moreover have "map_of (w_fs w) (tier_root @ [record_name date n topic]) = None"
  proof -
    have "w_fs w1 = make_dirs tier_root (w_fs w)"
      using w1 by (auto simp: create_dir_all_def file_op_def split: option.splits if_splits)
    then show ?thesis using f(4) [of "scalars ''-'' @ topic"] make_dirs_dom by (auto simp: record_name_def)
  qed
  ultimately show ?thesis using r f(2,3) by (auto simp: tier_root_def)
qed

theorem record_create_fresh_witness:
  "\<exists>r w'. record_create [] (scalars ''dev'') (scalars ''d'') (scalars ''t'') (calm_host []) = Some (Inr r, w') \<and>
     map_of (w_fs (calm_host [])) (rr_root r) = None"
proof -
  have p: "path_join [] (scalars ''dev'') = [scalars ''dev'']" by (simp add: path_join_def components_def scalars_def)
  have "create_dir_all [scalars ''dev''] (calm_host []) =
      Some (Inr (), (tick (calm_host []))\<lparr>w_fs := [([scalars ''dev''], Dir)]\<rparr>)"
    by (simp add: create_dir_all_def file_op_def calm_host_def is_file_in_def make_dirs_def)
  moreover have "next_sequence [scalars ''dev''] (scalars ''d'') ((tick (calm_host []))\<lparr>w_fs := [([scalars ''dev''], Dir)]\<rparr>) =
      Some (Inr 1, (tick (tick (calm_host [])))\<lparr>w_fs := [([scalars ''dev''], Dir)]\<rparr>)"
    by (simp add: next_sequence_def bind_io_def read_dir_def file_op_def calm_host_def is_dir_in_def children_def
        ret_def MAX_SEQUENCE_def tick_def)
  moreover obtain w' where "create_dir_all
      (path_join (path_join [scalars ''dev''] (record_name (scalars ''d'') 1 (scalars ''t''))) SEGMENTS_DIRECTORY)
      ((tick (tick (calm_host [])))\<lparr>w_fs := [([scalars ''dev''], Dir)]\<rparr>) = Some (Inr (), w')"
    by (simp add: create_dir_all_def file_op_def calm_host_def is_file_in_def tick_def list_ex_iff)
  ultimately obtain r where
    r: "record_create [] (scalars ''dev'') (scalars ''d'') (scalars ''t'') (calm_host []) = Some (Inr r, w')"
    by (simp add: record_create_def Let_def bind_io_def ret_def p record_name_def)
  have "of_char (CHR ''/'') \<notin> set (scalars ''d'')" "of_char (CHR ''/'') \<notin> set (scalars ''t'')"
    by (simp_all add: scalars_def)
  then show ?thesis using record_create_fresh [OF r] r by blast
qed

end
