(* ===== verification/Runner_Completion.thy ===== *)
theory Runner_Completion
  imports Runner_Campaign_Laws Runner_Record_Laws
begin

text \<open>
  That campaigns complete: on a host whose operations succeed and whose clock advances, executing a
  campaign over a proper record directory returns a report, whatever the commands of its segments do,
  as long as the probes of its prerequisites, which run without a budget, end; and that a probe that
  never ends keeps the campaign from returning.  The conditional theorems about campaigns apply to
  every execution that completes.
\<close>

section \<open>Operations that succeed\<close>

definition host_ok :: "world \<Rightarrow> bool" where
  "host_ok w \<longleftrightarrow> faultless w \<and> clock_advances w \<and> (\<forall>n. w_wall w n \<noteq> None) \<and>
     (\<forall>n e. snd (w_poll w n) \<noteq> WaitFailed e)"

definition succeeds :: "'a io \<Rightarrow> bool" where
  "succeeds m \<longleftrightarrow> (\<forall>w. host_ok w \<longrightarrow> (\<exists>x w'. m w = Some (Inr x, w') \<and> same_host w w'))"

lemma host_ok_same_host: "same_host w w' \<Longrightarrow> host_ok w' \<longleftrightarrow> host_ok w"
  by (simp add: host_ok_def faultless_def clock_advances_def same_host_def)

text \<open>The probe of the prerequisite ends, whenever it is run; and it never ends.\<close>

definition probe_ends :: "world \<Rightarrow> segment_definition \<Rightarrow> bool" where
  "probe_ends w d \<longleftrightarrow> (\<forall>q n. sd_prerequisite d = Some q \<longrightarrow> w_output w n (step_command (pq_probe q)) \<noteq> None)"

definition probe_hangs :: "world \<Rightarrow> segment_definition \<Rightarrow> bool" where
  "probe_hangs w d \<longleftrightarrow> (\<exists>q. sd_prerequisite d = Some q \<and> (\<forall>n. w_output w n (step_command (pq_probe q)) = None))"

definition host_for :: "segment_definition list \<Rightarrow> world \<Rightarrow> bool" where
  "host_for ds w \<longleftrightarrow> host_ok w \<and> list_all (probe_ends w) ds"

lemma host_for_ok: "host_for ds w \<Longrightarrow> host_ok w"
  by (simp add: host_for_def)

lemma host_for_same_host: "same_host w w' \<Longrightarrow> host_for ds w' \<longleftrightarrow> host_for ds w"
  using host_ok_same_host [of w w'] by (auto simp: host_for_def probe_ends_def same_host_def list_all_iff)

lemma probe_hangs_same_host: "same_host w w' \<Longrightarrow> probe_hangs w' d \<longleftrightarrow> probe_hangs w d"
  by (simp add: probe_hangs_def same_host_def)

lemma succeeds_bind: "succeeds m \<Longrightarrow> (\<And>x. succeeds (f x)) \<Longrightarrow> succeeds (bind_io m f)"
  unfolding succeeds_def bind_io_eq_Some by (meson host_ok_same_host same_host_trans)

lemma succeeds_basic [simp]:
  "succeeds (ret x)" "succeeds instant_now" "succeeds (sync_all p)" "succeeds (try_clone p)"
  "succeeds (write_all p s)" "succeeds (spawn_child c)" "succeeds kill_child" "succeeds (wait_child p)"
  by (simp_all add: succeeds_def host_ok_def faultless_def ret_def instant_now_def sync_all_def try_clone_def
      file_op_def write_all_def spawn_child_def kill_child_def wait_child_def Let_def)

lemma succeeds_now: "succeeds now_timestamp"
  unfolding succeeds_def
proof (intro allI impI)
  fix w assume "host_ok w"
  then obtain t where "w_wall w (w_tick w) = Some t" unfolding host_ok_def by (metis option.exhaust)
  then show "\<exists>x w'. now_timestamp w = Some (Inr x, w') \<and> same_host w w'"
    using timestamp_total [of "\<lparr>seconds = t\<rparr>"]
    by (auto simp: now_timestamp_def now_utc_def bind_io_def system_time_def utc_now_def lift_result_def)
qed

lemma probe_returns:
  assumes "probe_ends w d" "sd_prerequisite d = Some q"
  obtains b w' where "probe (pq_probe q) w = Some (Inr b, w')" "same_host w w'" "w_fs w' = w_fs w"
proof -
  obtain x where "w_output w (w_tick w) (step_command (pq_probe q)) = Some x"
    using assms unfolding probe_ends_def by blast
  then have "\<exists>b e. probe (pq_probe q) w = Some (Inr b, saw [e] (tick w))"
    by (cases x) (auto simp: probe_def command_output_of_def)
  then show ?thesis using that by fastforce
qed

lemma try_wait_ok:
  assumes "host_ok w"
  obtains r w1 where "try_wait log w = Some (Inr r, w1)" "same_host w w1" "w_tick w1 = w_tick w + 1"
proof -
  obtain t st where p: "w_poll w (w_tick w) = (t, st)" by (cases "w_poll w (w_tick w)")
  then have "st \<noteq> WaitFailed e" for e using assms by (metis host_ok_def snd_conv)
  then show ?thesis using that p
    by (cases st) (auto simp: try_wait_def Let_def tick_def saw_def same_host_def)
qed

lemma succeeds_poll_loop: "succeeds (poll_loop log s started remaining)"
  unfolding succeeds_def
proof (intro allI impI)
  fix w assume w: "host_ok w"
  then obtain n where n: "\<forall>m \<ge> n. started + remaining \<le> w_clock w m"
    unfolding host_ok_def clock_advances_def by blast
  from w n show "\<exists>x w'. poll_loop log s started remaining w = Some (Inr x, w') \<and> same_host w w'"
  proof (induction "n - w_tick w" arbitrary: w rule: less_induct)
    case less
    obtain r w1 where tw: "try_wait log w = Some (Inr r, w1)" and w1: "same_host w w1" "w_tick w1 = w_tick w + 1"
      using try_wait_ok [OF less.prems(1)] by blast
    have kill: "succeeds (bind_io kill_child (\<lambda>_. bind_io (wait_child log) (\<lambda>_. ret TimedOut)))"
      by (intro succeeds_bind) simp_all
    show ?case
    proof (cases r)
      case (Some code)
      then show ?thesis using tw w1 by (subst poll_loop.simps) simp
    next
      case None
      show ?thesis
      proof (cases "w_clock w1 (w_tick w1) - started \<ge> remaining")
        case True
        have h: "same_host w (tick w1)" using w1 by (simp add: same_host_def tick_def)
        then show ?thesis using kill less.prems(1) host_ok_same_host [OF h] tw None True same_host_trans [OF h]
          by (subst poll_loop.simps) (auto simp: succeeds_def)
      next
        case False
        have h: "same_host w (tick (tick w1))" using w1 by (simp add: same_host_def tick_def)
        have c: "w_clock w1 = w_clock w" using w1 by (simp add: same_host_def)
        have "w_tick w1 < n" using False less.prems(2) [rule_format, of "w_tick w1"] c by fastforce
        then have m: "n - w_tick (tick (tick w1)) < n - w_tick w" using w1 by (simp add: tick_def)
        have "\<exists>x w'. poll_loop log s started remaining (tick (tick w1)) = Some (Inr x, w') \<and> same_host (tick (tick w1)) w'"
          using less.hyps [OF m] less.prems host_ok_same_host [OF h] c by (simp add: tick_def)
        then show ?thesis using tw None False same_host_trans [OF h] by (subst poll_loop.simps) auto
      qed
    qed
  qed
qed

lemma succeeds_run_step: "succeeds (run_step log s remaining)"
  unfolding run_step_def
  by (intro succeeds_bind succeeds_basic) (auto split: option.split intro!: succeeds_bind succeeds_poll_loop)

lemma succeeds_stops [simp]:
  "succeeds (log_line log s)" "succeeds (elapsed_since started)" "succeeds (timed_out log t d)"
  "succeeds (stop_timed_out log started t)" "succeeds (stop_failed log started reason)"
  by (auto simp: log_line_def elapsed_since_def timed_out_def stop_timed_out_def stop_failed_def Let_def
      intro!: succeeds_bind)

lemma succeeds_run_steps: "succeeds (run_steps log budget started steps)"
  by (induction steps) (auto intro!: succeeds_bind succeeds_run_step split: step_result.split)

section \<open>A proper record directory\<close>

definition creatable :: "path \<Rightarrow> world \<Rightarrow> bool" where
  "creatable p w \<longleftrightarrow> p \<noteq> [] \<and> map_of (w_fs w) p \<noteq> Some Dir \<and> is_dir_in (w_fs w) (butlast p)"

definition ready :: "run_record \<Rightarrow> world \<Rightarrow> bool" where
  "ready r w \<longleftrightarrow> is_dir_in (w_fs w) (rr_root r) \<and> is_dir_in (w_fs w) (rr_root r @ [SEGMENTS_DIRECTORY]) \<and>
     (\<forall>q \<in> {MANIFEST_FILE, JOURNAL_FILE, SUMMARY_FILE}. map_of (w_fs w) (rr_root r @ [q]) \<noteq> Some Dir) \<and>
     (\<forall>q. map_of (w_fs w) (rr_root r @ [SEGMENTS_DIRECTORY, q]) \<noteq> Some Dir)"

text \<open>A segment whose name is one path component.\<close>

definition simple_id :: "segment_definition \<Rightarrow> bool" where
  "simple_id d \<longleftrightarrow> of_char (CHR ''/'') \<notin> set (sd_id d)"

lemma simple_plain: "simple_id d \<Longrightarrow> plain_id d"
  by (cases "sd_id d") (auto simp: simple_id_def plain_id_def scalars_def)

lemma evidence_path_simple:
  assumes "simple_id d"
  shows "evidence_path r (sd_id d) n = rr_root r @ [SEGMENTS_DIRECTORY, evidence_name (sd_id d) n]"
proof -
  define e where "e = evidence_name (sd_id d) n"
  have "of_char (CHR ''/'') \<notin> set (display_nat n)"
    using display_nat_digits [of n] by (auto simp: list_all_iff is_ascii_digit_def)
  then have "of_char (CHR ''/'') \<notin> set e"
    using assms by (auto simp: e_def evidence_name_def simple_id_def pad_zero_def scalars_def)
  then have s: "split_on (of_char (CHR ''/'')) e = [e]" by (rule split_on_absent)
  have "length e > 1" by (simp add: e_def evidence_name_def scalars_def)
  then have "e \<noteq> []" "e \<noteq> scalars ''.''" by (auto simp: scalars_def)
  moreover have "take 1 e \<noteq> scalars ''/''"
    using \<open>of_char (CHR ''/'') \<notin> set e\<close> by (cases e) (auto simp: scalars_def)
  ultimately have "path_join p e = p @ [e]" for p by (simp add: path_join_def components_def s [simplified])
  then show ?thesis by (simp add: evidence_path_def record_paths e_def)
qed

lemma ready_creatable:
  assumes "ready r w"
  shows "creatable (path_join (rr_root r) MANIFEST_FILE) w" "creatable (path_join (rr_root r) SUMMARY_FILE) w"
    "creatable (journal_path r) w" "simple_id d \<Longrightarrow> creatable (evidence_path r (sd_id d) n) w"
  using assms by (simp_all add: ready_def creatable_def record_paths journal_path_def evidence_path_simple butlast_append)

lemma ready_write:
  assumes "ready r w" "\<forall>q. q \<noteq> p \<longrightarrow> map_of (w_fs w') q = map_of (w_fs w) q"
    and "creatable p w" "map_of (w_fs w') p \<noteq> Some Dir"
  shows "ready r w'"
proof -
  have d: "map_of (w_fs w') q = Some Dir \<longleftrightarrow> map_of (w_fs w) q = Some Dir" for q
    using assms(2-4) by (cases "q = p") (auto simp: creatable_def)
  show ?thesis using assms(1) unfolding ready_def is_dir_in_def d .
qed

lemma file_create_ok:
  "faultless w \<Longrightarrow> creatable p w \<Longrightarrow>
     file_create p w = Some (Inr (), (tick w)\<lparr>w_fs := AList.update p (File []) (w_fs w)\<rparr>)"
  by (auto simp: file_create_def open_file_def file_op_def faultless_def creatable_def is_dir_in_def)

lemma write_new_file:
  assumes "host_ok w" "creatable p w" "m = write_all p s \<or> m = bind_io (write_all p s) (\<lambda>_. sync_all p)"
  shows "\<exists>w'. bind_io (file_create p) (\<lambda>_. m) w = Some (Inr (), w') \<and> map_of (w_fs w') p = Some (File s)"
proof -
  have "faultless w" using assms(1) by (simp add: host_ok_def)
  then show ?thesis using file_create_ok [of w p] assms(2,3)
    by (auto simp: bind_io_def write_all_def sync_all_def file_op_def faultless_def append_text_def update_conv' tick_def)
qed

text \<open>An operation over a record that succeeds and leaves it proper.\<close>

definition completes :: "segment_definition list \<Rightarrow> run_record \<Rightarrow> 'a io \<Rightarrow> bool" where
  "completes ds r m \<longleftrightarrow> (\<forall>w. host_for ds w \<and> ready r w \<longrightarrow>
     (\<exists>x w'. m w = Some (Inr x, w') \<and> same_host w w' \<and> ready r w'))"

lemma completesI:
  assumes "only_writes p m"
    and "\<And>w. host_for ds w \<Longrightarrow> ready r w \<Longrightarrow> creatable p w \<and> (\<exists>x w'. m w = Some (Inr x, w') \<and> map_of (w_fs w') p \<noteq> Some Dir)"
  shows "completes ds r m"
  unfolding completes_def
proof (intro allI impI)
  fix w assume w: "host_for ds w \<and> ready r w"
  then obtain x w' where m: "m w = Some (Inr x, w')" "map_of (w_fs w') p \<noteq> Some Dir" "creatable p w"
    using assms(2) by blast
  then have "same_host w w'" "\<forall>q. q \<noteq> p \<longrightarrow> map_of (w_fs w') q = map_of (w_fs w) q"
    using only_writesD [OF assms(1) m(1)] by blast+
  then show "\<exists>x w'. m w = Some (Inr x, w') \<and> same_host w w' \<and> ready r w'"
    using m w ready_write [of r w p w'] by blast
qed

lemma completes_bind: "completes ds r m \<Longrightarrow> (\<And>x. completes ds r (f x)) \<Longrightarrow> completes ds r (bind_io m f)"
  unfolding completes_def bind_io_eq_Some by (meson host_for_same_host same_host_trans)

lemma completes_ret [simp]: "completes ds r (ret x)"
  by (simp add: completes_def ret_def)

lemma completes_manifest: "completes ds r (write_manifest r m)"
  using write_new_file [OF host_for_ok] ready_creatable(1)
  by (intro completesI [OF only_writes_manifest]) (fastforce simp: write_manifest_def Let_def)

lemma completes_summary: "completes ds r (write_summary r m)"
  using write_new_file [OF host_for_ok] ready_creatable(2)
  by (intro completesI [OF only_writes_summary]) (fastforce simp: write_summary_def Let_def)

lemma segment_execute_completes:
  assumes "host_ok w" "creatable p w"
  shows "\<exists>oc w'. segment_execute steps budget p w = Some (Inr oc, w') \<and> map_of (w_fs w') p \<noteq> Some Dir"
proof -
  define w1 where "w1 = (tick w)\<lparr>w_fs := AList.update p (File []) (w_fs w)\<rparr>"
  have c: "file_create p w = Some (Inr (), w1)"
    using file_create_ok assms by (simp add: host_ok_def w1_def)
  have "same_host w w1" by (simp add: w1_def)
  then have "host_ok w1" using assms(1) host_ok_same_host by blast
  moreover have "succeeds (bind_io instant_now (\<lambda>started. run_steps p budget started steps))"
    by (intro succeeds_bind) (simp_all add: succeeds_run_steps)
  ultimately obtain oc w' where "bind_io instant_now (\<lambda>started. run_steps p budget started steps) w1 = Some (Inr oc, w')"
    unfolding succeeds_def by blast
  then have e: "segment_execute steps budget p w = Some (Inr oc, w')"
    using c by (simp add: segment_execute_def bind_io_def)
  then have "map_of (w_fs w') p \<noteq> Some Dir" using segment_execute_effect [OF e] by auto
  with e show ?thesis by blast
qed

lemma attempt_completes:
  assumes "host_ok w" "creatable p w" "probe_ends w d"
  shows "\<exists>oc w'. attempt c d p w = Some (Inr oc, w') \<and> map_of (w_fs w') p \<noteq> Some Dir"
proof (cases "sd_prerequisite d")
  case None
  then show ?thesis using segment_execute_completes [OF assms(1,2)] by (simp add: attempt_def)
next
  case (Some q)
  obtain b w1 where b: "probe (pq_probe q) w = Some (Inr b, w1)" "same_host w w1" "w_fs w1 = w_fs w"
    using probe_returns [OF assms(3) Some] by blast
  then have w1: "host_ok w1" "creatable p w1"
    using assms host_ok_same_host [OF b(2)] by (simp_all add: creatable_def)
  obtain w' where "fs_write p (scalars ''['' @ probe_note q @ scalars '']'' @ [newline]) w1 = Some (Inr (), w')"
    "map_of (w_fs w') p \<noteq> Some Dir"
    using write_new_file [OF w1, of "write_all p _"] unfolding fs_write_def by fastforce
  then show ?thesis
    using segment_execute_completes [OF w1] b(1) Some by (cases b) (auto simp: attempt_def bind_io_def ret_def)
qed

lemma append_journal_completes:
  assumes "host_ok w" "creatable (journal_path r) w"
  shows "\<exists>w'. append_journal r e w = Some (Inr (), w') \<and> map_of (w_fs w') (journal_path r) \<noteq> Some Dir"
proof -
  have f: "faultless w" using assms(1) by (simp add: host_ok_def)
  have "\<exists>w1. open_append (journal_path r) w = Some (Inr (), w1) \<and> same_host w w1"
    using f assms(2) by (auto simp: open_append_def open_file_def file_op_def faultless_def creatable_def is_dir_in_def)
  then obtain w1 where w1: "open_append (journal_path r) w = Some (Inr (), w1)" "host_ok w1"
    using assms(1) host_ok_same_host by blast
  have "succeeds (bind_io (write_all (journal_path r) (object_encode e @ [newline])) (\<lambda>_. sync_all (journal_path r)))"
    by (intro succeeds_bind) simp_all
  then obtain w' where "append_journal r e w = Some (Inr (), w')"
    using w1 by (fastforce simp: append_journal_def bind_io_def succeeds_def journal_path_def Let_def)
  then show ?thesis using append_journal_effect by blast
qed

lemma completes_produce:
  assumes "simple_id d" "d \<in> set ds"
  shows "completes ds r (produce_result c r identity d n prior)"
proof (cases "reusable c prior identity")
  case (Some p)
  then show ?thesis by (simp add: produce_result_def)
next
  case None
  show ?thesis
  proof (rule completesI [OF only_writes_produce])
    fix w assume w: "host_for ds w" "ready r w"
    then have c: "creatable (evidence_path r (sd_id d) n) w" using ready_creatable(4) assms(1) by blast
    have p: "probe_ends w d" using w(1) assms(2) by (simp add: host_for_def list_all_iff)
    obtain oc w' where "attempt c d (evidence_path r (sd_id d) n) w = Some (Inr oc, w')"
      "map_of (w_fs w') (evidence_path r (sd_id d) n) \<noteq> Some Dir"
      using attempt_completes [OF host_for_ok [OF w(1)] c p] by blast
    then show "creatable (evidence_path r (sd_id d) n) w \<and>
        (\<exists>x w'. produce_result c r identity d n prior w = Some (Inr x, w') \<and>
           map_of (w_fs w') (evidence_path r (sd_id d) n) \<noteq> Some Dir)"
      using c None by (simp add: produce_result_def bind_io_def ret_def)
  qed
qed

lemma completes_append: "completes ds r (append_journal r e)"
  using append_journal_completes [OF host_for_ok] ready_creatable(3) by (intro completesI [OF only_writes_journal]) blast

section \<open>Campaigns complete\<close>

lemma reads_keep:
  assumes "observes m" "m w = Some (x, w')"
  shows "host_for ds w' \<longleftrightarrow> host_for ds w" "ready r w' \<longleftrightarrow> ready r w" "journal_is r es w' \<longleftrightarrow> journal_is r es w"
    "same_host w w'"
  using observesD [OF assms] host_for_same_host
  by (simp_all add: ready_def journal_is_def journal_text_def)

lemma attempts_for_ok:
  assumes "host_ok w" "journal_is r es w" "attempts_in i es < 2 ^ 32"
  shows "\<exists>w'. attempts_for r i w = Some (Inr (attempts_in i es), w')"
proof -
  obtain w1 where "record_entries r w = Some (Inr es, w1)"
    using record_entries_eq assms(1,2) host_ok_def by blast
  then show ?thesis using assms(3) by (simp add: attempts_for_def bind_io_def lift_result_def attempts_in_def Let_def)
qed

lemma last_entry_for_ok:
  assumes "host_ok w" "journal_is r es w"
  shows "\<exists>w'. last_entry_for r i w = Some (Inr (last_for i es), w')"
proof -
  obtain w1 where "record_entries r w = Some (Inr es, w1)"
    using record_entries_eq assms host_ok_def by blast
  then show ?thesis by (simp add: last_entry_for_def bind_io_def ret_def)
qed

lemma run_segment_reaches:
  assumes w: "host_for ds w" "ready r w" "journal_is r es w" and n: "attempts_in (sd_id d) es + 1 < 2 ^ 32"
  obtains started w' where "run_segment c r now_timestamp identity d w =
      bind_io (produce_result c r identity d (attempts_in (sd_id d) es + 1) (last_for (sd_id d) es)) (\<lambda>res.
        bind_io (append_journal r (entry_json c res started)) (\<lambda>_. ret res)) w'"
    "host_for ds w'" "ready r w'" "same_host w w'"
proof -
  note ok = host_for_ok
  obtain w1 where w1: "attempts_for r (sd_id d) w = Some (Inr (attempts_in (sd_id d) es), w1)"
    using attempts_for_ok ok w(1,3) n by fastforce
  note k1 = reads_keep [OF observes_entries(2) w1]
  obtain started w2 where w2: "now_timestamp w1 = Some (Inr started, w2)"
    using succeeds_now k1(1) ok w(1) unfolding succeeds_def by blast
  note k2 = reads_keep [OF wall.reads_only w2]
  obtain w3 where w3: "last_entry_for r (sd_id d) w2 = Some (Inr (last_for (sd_id d) es), w3)"
    using last_entry_for_ok k1 k2 ok w by blast
  note k3 = reads_keep [OF observes_entries(3) w3]
  show ?thesis
  proof
    show "host_for ds w3" "ready r w3" using k1(1,2) k2(1,2) k3(1,2) w by simp_all
    show "same_host w w3" using same_host_trans [OF k1(4) same_host_trans [OF k2(4) k3(4)]] .
  qed (use w1 w2 w3 n in \<open>simp add: run_segment_def bind_io_def\<close>)
qed

lemma run_segment_completes:
  assumes w: "host_for ds w" "ready r w" "journal_is r es w"
    and d: "simple_id d" "d \<in> set ds" "attempts_in (sd_id d) es + 1 < 2 ^ 32"
  shows "\<exists>res w'. run_segment c r now_timestamp identity d w = Some (Inr res, w') \<and> same_host w w' \<and> ready r w'"
proof (rule run_segment_reaches [OF w d(3), of c identity])
  fix started w1
  let ?rest = "bind_io (produce_result c r identity d (attempts_in (sd_id d) es + 1) (last_for (sd_id d) es)) (\<lambda>res.
      bind_io (append_journal r (entry_json c res started)) (\<lambda>_. ret res))"
  assume r: "run_segment c r now_timestamp identity d w = ?rest w1" and w1: "host_for ds w1" "ready r w1" "same_host w w1"
  have "completes ds r ?rest"
    by (intro completes_bind completes_produce [OF d(1,2)] completes_append completes_ret)
  then show ?thesis using w1 same_host_trans [OF w1(3)] unfolding r completes_def by blast
qed

lemma run_segments_complete:
  assumes "host_for ds w" "ready r w" "journal_is r es w" "set qs \<subseteq> set ds" "list_all simple_id qs"
    and "length es + length qs < 2 ^ 32"
  shows "\<exists>rs w' es'. run_segments c r now_timestamp (identity_digest (cp_identity c)) qs w = Some (Inr rs, w') \<and>
    same_host w w' \<and> ready r w' \<and> journal_is r es' w' \<and> length es' = length es + length qs"
  using assms
proof (induction qs arbitrary: w es)
  case Nil
  then show ?case by (auto simp: ret_def)
next
  case (Cons d qs)
  have "attempts_in (sd_id d) es \<le> length es" by (simp add: attempts_in_def)
  then have d: "simple_id d" "d \<in> set ds" "attempts_in (sd_id d) es + 1 < 2 ^ 32" using Cons.prems(4-6) by simp_all
  obtain res w1 where w1: "run_segment c r now_timestamp (identity_digest (cp_identity c)) d w = Some (Inr res, w1)"
    "same_host w w1" "ready r w1"
    using run_segment_completes [OF Cons.prems(1-3) d] by blast
  have "faultless w" using Cons.prems(1) by (simp add: host_for_def host_ok_def)
  then have "journal_is r (es @ [entry_of c res]) w1"
    using wall.run_segment_runs [OF w1(1) _ Cons.prems(3) simple_plain [OF d(1)]] by blast
  from Cons.IH [OF _ w1(3) this] Cons.prems(1,4-6) host_for_same_host [OF w1(2)] obtain rs w' es' where
    "run_segments c r now_timestamp (identity_digest (cp_identity c)) qs w1 = Some (Inr rs, w')"
    "same_host w1 w'" "ready r w'" "journal_is r es' w'" "length es' = Suc (length es) + length qs"
    by auto
  then show ?case using w1(1) same_host_trans [OF w1(2)] by (auto simp: bind_io_def ret_def)
qed

lemma manifest_written:
  assumes "host_for ds w" "ready r w" "journal_is r es w"
  obtains w1 where "write_manifest r (manifest c r) w = Some (Inr (), w1)" "host_for ds w1" "ready r w1" "journal_is r es w1"
    "same_host w w1"
proof -
  obtain w1 where w1: "write_manifest r (manifest c r) w = Some (Inr (), w1)" "same_host w w1" "ready r w1"
    using completes_manifest assms(1,2) unfolding completes_def by (metis old.unit.exhaust)
  have "journal_is r es w1"
    using only_writesD [OF only_writes_manifest w1(1)] journal_text_same [of w1 r w] journal_path_distinct(1) assms(3) by simp
  then show ?thesis using that w1 host_for_same_host [OF w1(2)] assms(1) by blast
qed

lemma campaign_completes:
  assumes w: "host_for (cp_segments c) w" "ready r w" "journal_is r es w"
    and c: "list_all simple_id (cp_segments c)" "length es + length (cp_segments c) < 2 ^ 32"
  shows "\<exists>rep w'. campaign_execute show_seconds c r now_timestamp w = Some (Inr rep, w') \<and> same_host w w' \<and> ready r w'"
proof (rule manifest_written [OF w, of c])
  fix w1
  assume w1: "write_manifest r (manifest c r) w = Some (Inr (), w1)" "host_for (cp_segments c) w1" "ready r w1"
    "journal_is r es w1" "same_host w w1"
  from run_segments_complete [OF w1(2-4) order_refl c] obtain rs w2 where w2:
    "run_segments c r now_timestamp (identity_digest (cp_identity c)) (cp_segments c) w1 = Some (Inr rs, w2)"
    "same_host w1 w2" "ready r w2" by blast
  obtain w' where "write_summary r (summary show_seconds c r (finish_report c rs)) w2 = Some (Inr (), w')"
    "same_host w2 w'" "ready r w'"
    using completes_summary w1(2) w2(3) host_for_same_host [OF w2(2)] unfolding completes_def by (metis old.unit.exhaust)
  then show ?thesis using w1 w2 same_host_trans [OF w1(5) same_host_trans [OF w2(2)]]
    by (simp add: campaign_execute_def bind_io_def ret_def Let_def)
qed

section \<open>A probe that never ends\<close>

lemma produce_hangs:
  assumes "probe_hangs w d" "reusable c prior identity = None"
  shows "produce_result c r identity d n prior w = None"
  using assms
  by (auto simp: probe_hangs_def produce_result_def attempt_def bind_io_def probe_def command_output_of_def)

lemma run_segments_append:
  "run_segments c r now identity (qs @ ds) w =
     bind_io (run_segments c r now identity qs) (\<lambda>rs. bind_io (run_segments c r now identity ds) (\<lambda>rest. ret (rs @ rest))) w"
proof (induction qs arbitrary: w)
  case Nil
  then show ?case by (simp add: bind_io_def ret_def split: option.split sum.split prod.split)
next
  case (Cons d qs)
  then show ?case by (simp add: bind_io_def ret_def split: option.split sum.split prod.split)
qed

lemma campaign_hangs:
  assumes w: "host_ok w" "ready r w" "journal_is r es w"
    and c: "list_all simple_id (cp_segments c)" "length es + length (cp_segments c) < 2 ^ 32"
    and d: "cp_segments c = qs @ d # ds" "list_all (probe_ends w) qs" "probe_hangs w d" "\<not> cp_resume c"
  shows "campaign_execute show_seconds c r now_timestamp w = None"
proof -
  have "host_for qs w" using w(1) d(2) by (simp add: host_for_def)
  then show ?thesis
  proof (rule manifest_written [OF _ w(2,3), of qs c])
    fix w1
    assume w1: "write_manifest r (manifest c r) w = Some (Inr (), w1)" "host_for qs w1" "ready r w1" "journal_is r es w1"
      "same_host w w1"
    obtain rs w2 es' where w2: "run_segments c r now_timestamp (identity_digest (cp_identity c)) qs w1 = Some (Inr rs, w2)"
        "same_host w1 w2" "ready r w2" "journal_is r es' w2" "length es' = length es + length qs"
      using run_segments_complete [OF w1(2-4) order_refl, of c] c d(1) by auto
    have h2: "host_for qs w2" using host_for_same_host [OF w2(2)] w1(2) by simp
    have "attempts_in (sd_id d) es' \<le> length es'" by (simp add: attempts_in_def)
    then have n: "attempts_in (sd_id d) es' + 1 < 2 ^ 32" using c(2) d(1) w2(5) by simp
    have "run_segment c r now_timestamp (identity_digest (cp_identity c)) d w2 = None"
    proof (rule run_segment_reaches [OF h2 w2(3,4) n, of c "identity_digest (cp_identity c)"])
      fix started w3
      assume "same_host w2 w3"
      then have "probe_hangs w3 d"
        using probe_hangs_same_host same_host_trans [OF w1(5) same_host_trans [OF w2(2)]] d(3) by blast
      moreover have "reusable c (last_for (sd_id d) es') identity = None" for identity
        using d(4) by (simp add: reusable_def split: option.split)
      ultimately show "?thesis" if "run_segment c r now_timestamp (identity_digest (cp_identity c)) d w2 =
          bind_io (produce_result c r (identity_digest (cp_identity c)) d (attempts_in (sd_id d) es' + 1) (last_for (sd_id d) es'))
            (\<lambda>res. bind_io (append_journal r (entry_json c res started)) (\<lambda>_. ret res)) w3"
        unfolding that using produce_hangs by (simp add: bind_io_def)
    qed
    then show ?thesis using w1(1) w2(1)
      by (simp add: campaign_execute_def d(1) run_segments_append bind_io_def)
  qed
qed

text \<open>
  C21: when a campaign completes.  On a host whose file operations succeed and whose clocks advance,
  over a record directory in which the runner's files can be created and whose journal can be read,
  executing a campaign returns a report with one result for every required segment, whatever the
  commands of its segments do (they may fail, hang or not be there), provided the probes of the
  prerequisites end.  A probe is waited for without a budget: a campaign that is not a resumption and
  whose probes end up to a segment whose probe never does, does not return.
\<close>

theorem campaign_execute_completes:
  assumes "host_ok w" "ready r w" "journal_is r es w"
    and "list_all simple_id (cp_segments c)" "length es + length (cp_segments c) < 2 ^ 32"
  shows "(list_all (probe_ends w) (cp_segments c) \<longrightarrow>
      (\<exists>rep w'. campaign_execute show_seconds c r now_timestamp w = Some (Inr rep, w') \<and>
         map sr_id (rp_results rep) = map sd_id (cp_segments c))) \<and>
    (\<forall>qs d ds. cp_segments c = qs @ d # ds \<and> list_all (probe_ends w) qs \<and> probe_hangs w d \<and> \<not> cp_resume c \<longrightarrow>
       campaign_execute show_seconds c r now_timestamp w = None)"
proof (intro conjI impI allI)
  assume "list_all (probe_ends w) (cp_segments c)"
  with assms(1) have "host_for (cp_segments c) w" by (simp add: host_for_def)
  from campaign_completes [OF this assms(2-5)]
  obtain rep w' where e: "campaign_execute show_seconds c r now_timestamp w = Some (Inr rep, w')" by blast
  have "faultless w" "list_all plain_id (cp_segments c)"
    using assms simple_plain by (auto simp: host_ok_def list_all_iff)
  then show "\<exists>rep w'. campaign_execute show_seconds c r now_timestamp w = Some (Inr rep, w') \<and>
      map sr_id (rp_results rep) = map sd_id (cp_segments c)"
    using e wall.campaign_execute_refines [OF e _ assms(3)] campaign_runs_ids by blast
qed (use campaign_hangs [OF assms] in blast)

section \<open>A sample campaign\<close>

text \<open>A record directory and a campaign of one segment without steps, over a modified tree.\<close>

definition sample_record :: run_record where
  "sample_record = \<lparr>rr_root = [scalars ''r''], rr_identifier = scalars ''r''\<rparr>"

definition sample_world :: world where
  "sample_world = calm_host [([scalars ''r''], Dir), ([scalars ''r'', SEGMENTS_DIRECTORY], Dir)]"

definition sample_campaign :: campaign where
  "sample_campaign =
     \<lparr>cp_tier = Dev, cp_topic = [], cp_subject_revision = [],
      cp_identity = \<lparr>ei_subject_revision = [], ei_campaign_definition = [], ei_toolchain = [], ei_target = [],
        ei_features = []\<rparr>,
      cp_segments = [segment ''s'' ''a segment'' [Dev] None []], cp_budget = 10,
      cp_environment = object_new, cp_created = [], cp_resume = False, cp_tree_state = Modified [scalars ''M f'']\<rparr>"

lemma sample_world_ok: "host_ok sample_world"
proof -
  have "clock_advances sample_world" unfolding clock_advances_def sample_world_def calm_host_def by auto
  then show ?thesis by (simp add: host_ok_def faultless_def sample_world_def calm_host_def)
qed

lemma sample_ready: "ready sample_record sample_world"
  by (simp add: ready_def sample_record_def sample_world_def calm_host_def is_dir_in_def MANIFEST_FILE_def
      JOURNAL_FILE_def SUMMARY_FILE_def SEGMENTS_DIRECTORY_def scalars_inject)

lemma sample_no_journal: "map_of (w_fs sample_world) (journal_path sample_record) = None"
  unfolding journal_path_def record_paths
  by (simp add: sample_record_def sample_world_def calm_host_def JOURNAL_FILE_def SEGMENTS_DIRECTORY_def scalars_inject)

lemma sample_journal: "journal_is sample_record [] sample_world"
  by (simp add: journal_is_def journal_text_def sample_no_journal ends_line_def parse_journal_def lines_def)

lemma sample_segments:
  "list_all simple_id (cp_segments sample_campaign)" "length (cp_segments sample_campaign) = 1"
  "list_all plain_id (cp_segments sample_campaign)" "cp_tree_state sample_campaign = Modified [scalars ''M f'']"
  by (simp_all add: sample_campaign_def segment_def simple_id_def plain_id_def scalars_def)

lemma sample_host: "host_for (cp_segments sample_campaign) sample_world"
  using sample_world_ok by (simp add: host_for_def sample_campaign_def segment_def probe_ends_def)

text \<open>The same campaign with a prerequisite, and a host on which its probe never ends.\<close>

definition sample_probed :: campaign where
  "sample_probed = sample_campaign\<lparr>cp_segments :=
     [segment ''s'' ''a segment'' [Dev] (requires (step_new ''p'' []) ''install p'') []]\<rparr>"

definition hanging_world :: world where
  "hanging_world = sample_world\<lparr>w_output := (\<lambda>_ _. None)\<rparr>"

lemma hanging_world_ok: "host_ok hanging_world" "ready sample_record hanging_world" "journal_is sample_record [] hanging_world"
  using sample_world_ok sample_ready sample_journal
  by (simp_all add: hanging_world_def host_ok_def faultless_def clock_advances_def ready_def journal_is_def journal_text_def)

theorem campaign_execute_completes_witness:
  "host_ok sample_world \<and> ready sample_record sample_world \<and> journal_is sample_record [] sample_world \<and>
   (\<exists>rep w'. campaign_execute (\<lambda>_. []) sample_probed sample_record now_timestamp sample_world = Some (Inr rep, w') \<and>
      map sr_id (rp_results rep) = [scalars ''s'']) \<and>
   campaign_execute (\<lambda>_. []) sample_probed sample_record now_timestamp hanging_world = None"
proof -
  have c: "list_all simple_id (cp_segments sample_probed)" "length (cp_segments sample_probed) = 1"
      "map sd_id (cp_segments sample_probed) = [scalars ''s'']" "\<not> cp_resume sample_probed"
    by (simp_all add: sample_probed_def sample_campaign_def segment_def simple_id_def scalars_def)
  have "list_all (probe_ends sample_world) (cp_segments sample_probed)"
    by (simp add: sample_probed_def segment_def requires_def probe_ends_def sample_world_def calm_host_def)
  then have "\<exists>rep w'. campaign_execute (\<lambda>_. []) sample_probed sample_record now_timestamp sample_world = Some (Inr rep, w') \<and>
      map sr_id (rp_results rep) = [scalars ''s'']"
    using campaign_execute_completes [OF sample_world_ok sample_ready sample_journal c(1), of "\<lambda>_. []"] c(2,3) by simp
  moreover obtain d where "cp_segments sample_probed = [] @ d # []" "probe_hangs hanging_world d"
    by (simp add: sample_probed_def segment_def requires_def probe_hangs_def hanging_world_def)
  then have "campaign_execute (\<lambda>_. []) sample_probed sample_record now_timestamp hanging_world = None"
    using campaign_execute_completes [OF hanging_world_ok c(1), of "\<lambda>_. []"] c(2,4) by fastforce
  ultimately show ?thesis using sample_world_ok sample_ready sample_journal by simp
qed

lemma sample_runs:
  obtains rep w' where
    "campaign_execute (\<lambda>_. []) sample_campaign sample_record now_timestamp sample_world = Some (Inr rep, w')"
    "same_host sample_world w'" "ready sample_record w'"
  using campaign_completes [OF sample_host sample_ready sample_journal sample_segments(1), of "\<lambda>_. []"]
    sample_segments(2) by auto

lemma sample_faultless: "faultless sample_world"
  using sample_world_ok by (simp add: host_ok_def)

theorem campaign_follows_specification_witness:
  "\<exists>rep w' h. campaign_execute (\<lambda>_. []) sample_campaign sample_record now_timestamp sample_world = Some (Inr rep, w') \<and>
     campaign_runs sample_campaign [] (cp_segments sample_campaign) (rp_results rep) h \<and>
     journal_is sample_record (map (entry_of sample_campaign) (rp_results rep)) w'"
proof (rule sample_runs)
  fix rep w'
  assume e: "campaign_execute (\<lambda>_. []) sample_campaign sample_record now_timestamp sample_world = Some (Inr rep, w')"
  from campaign_follows_specification [OF e sample_faultless sample_journal sample_segments(3)] e show ?thesis by auto
qed

theorem campaign_journal_grows_witness:
  "\<exists>rep w' recorded. campaign_execute (\<lambda>_. []) sample_campaign sample_record now_timestamp sample_world = Some (Inr rep, w') \<and>
     journal_text sample_record w' = concat (map (entry_line sample_campaign) recorded) \<and>
     map fst recorded = rp_results rep"
proof (rule sample_runs)
  fix rep w'
  assume e: "campaign_execute (\<lambda>_. []) sample_campaign sample_record now_timestamp sample_world = Some (Inr rep, w')"
  have "journal_text sample_record sample_world = []" by (simp add: journal_text_def sample_no_journal)
  with campaign_journal_grows [OF e sample_segments(3)] e show ?thesis by fastforce
qed

lemma sample_holds:
  assumes "campaign_runs sample_campaign es (cp_segments sample_campaign) rs h"
  shows "list_all (\<lambda>x. holds (sr_status x)) rs"
  using assms
  by (auto simp: sample_campaign_def segment_def standing_Some reuse_def attempted_result_def holds_def
      elim!: campaign_runs_ConsE campaign_runs_NilE segment_runs.cases attempt_runs_NilE)

theorem modified_tree_evidence_seals_witness:
  "\<exists>rep1 rep2 w1 w2.
     campaign_execute (\<lambda>_. []) sample_campaign sample_record now_timestamp sample_world = Some (Inr rep1, w1) \<and>
     campaign_execute (\<lambda>_. []) (sample_campaign\<lparr>cp_resume := True, cp_tree_state := Clean\<rparr>) sample_record
       now_timestamp w1 = Some (Inr rep2, w2) \<and>
     rp_state rep1 = Partial \<and> rp_state rep2 = Sealed \<and> w_history w2 = w_history w1"
proof (rule sample_runs)
  fix rep1 w1
  assume e1: "campaign_execute (\<lambda>_. []) sample_campaign sample_record now_timestamp sample_world = Some (Inr rep1, w1)"
    and w1: "same_host sample_world w1" "ready sample_record w1"
  note r = wall.campaign_execute_refines [OF e1 sample_faultless sample_journal sample_segments(3)]
  then have h: "every_segment_holds rep1" using sample_holds by (auto simp: every_segment_holds_def)
  have j: "journal_is sample_record (map (entry_of sample_campaign) (rp_results rep1)) w1"
    "length (rp_results rep1) = 1"
    using r campaign_runs_ids sample_segments(2) by (auto dest!: arg_cong [where f = length] campaign_runs_ids)
  define c2 where "c2 = sample_campaign\<lparr>cp_resume := True, cp_tree_state := Clean\<rparr>"
  have c2: "list_all simple_id (cp_segments c2)" "length (cp_segments c2) = 1" "host_for (cp_segments c2) w1"
    using sample_segments sample_host host_for_same_host [OF w1(1)] by (simp_all add: c2_def)
  obtain rep2 w2 where e2: "campaign_execute (\<lambda>_. []) c2 sample_record now_timestamp w1 = Some (Inr rep2, w2)"
    using campaign_completes [OF c2(3) w1(2) j(1) c2(1), of "\<lambda>_. []"] c2(2) j(2) by auto
  show ?thesis
    using modified_tree_evidence_seals [OF e1 sample_segments(4) h e2 [unfolded c2_def] sample_faultless
        sample_journal sample_segments(3)] e1 e2 [unfolded c2_def] by blast
qed

end
