(* ===== verification/Runner_Main.thy ===== *)
theory Runner_Main
  imports Runner_Completion
begin

text \<open>
  The command line of the validation runner, \<open>tools/validation-runner/src/main.rs\<close>: its arguments,
  the record a run writes into, the whole run, and what it prints.  The names of the operating
  system and of the architecture are those the runner was compiled for.
\<close>

section \<open>Arguments\<close>

definition DEFAULT_TOPIC :: scalar_string where "DEFAULT_TOPIC = scalars ''repository''"

definition USAGE :: scalar_string where
  "USAGE = scalars ''usage: validation-runner run --tier <dev|gate> [--topic <topic>] [--resume]''"

record arguments =
  arg_tier :: tier
  arg_topic :: scalar_string
  arg_resume :: bool

fun parse_options ::
  "tier option \<Rightarrow> scalar_string \<Rightarrow> bool \<Rightarrow> scalar_string list \<Rightarrow> runner_error + tier option \<times> scalar_string \<times> bool" where
  "parse_options t topic resume [] = Inr (t, topic, resume)"
| "parse_options t topic resume [a] =
     (if a = scalars ''--tier'' then failed (scalars ''`--tier` needs a value. '' @ USAGE)
      else if a = scalars ''--topic'' then failed (scalars ''`--topic` needs a value. '' @ USAGE)
      else if a = scalars ''--resume'' then Inr (t, topic, True)
      else failed (scalars ''`'' @ a @ scalars ''` is not an option. '' @ USAGE))"
| "parse_options t topic resume (a # v # rest) =
     (if a = scalars ''--tier'' then and_then (tier_parse v) (\<lambda>t'. parse_options (Some t') topic resume rest)
      else if a = scalars ''--topic'' then parse_options t v resume rest
      else if a = scalars ''--resume'' then parse_options t topic True (v # rest)
      else failed (scalars ''`'' @ a @ scalars ''` is not an option. '' @ USAGE))"

definition parse_arguments :: "scalar_string list \<Rightarrow> runner_error + arguments" where
  "parse_arguments args =
     (case args of
        [] \<Rightarrow> failed USAGE
      | cmd # rest \<Rightarrow>
          if cmd \<noteq> scalars ''run'' then failed (scalars ''`'' @ cmd @ scalars ''` is not a command. '' @ USAGE)
          else and_then (parse_options None DEFAULT_TOPIC False rest) (\<lambda>(t, topic, resume).
            (case t of
               None \<Rightarrow> failed (scalars ''`--tier` is required. '' @ USAGE)
             | Some tier \<Rightarrow> Inr \<lparr>arg_tier = tier, arg_topic = topic, arg_resume = resume\<rparr>)))"

section \<open>The record of a run\<close>

definition create_record :: "arguments \<Rightarrow> path \<Rightarrow> utc \<Rightarrow> run_record io" where
  "create_record a records_root now =
     bind_io (lift_result (date now)) (\<lambda>d. record_create records_root (tier_as_str (arg_tier a)) d (arg_topic a))"

definition NOTHING_TO_RESUME :: scalar_string where
  "NOTHING_TO_RESUME = scalars ''No campaign to resume. Recording a new one.''"

definition OTHER_IDENTITY :: scalar_string where
  "OTHER_IDENTITY =
     scalars ''The most recent campaign holds results under another evidence identity. Recording a new one.''"

definition select_record :: "arguments \<Rightarrow> path \<Rightarrow> scalar_string \<Rightarrow> utc \<Rightarrow> (run_record \<times> bool) io" where
  "select_record a records_root identity now =
     (if \<not> arg_resume a then bind_io (create_record a records_root now) (\<lambda>r. ret (r, False))
      else
      bind_io (record_latest records_root (tier_as_str (arg_tier a))) (\<lambda>existing.
        (case existing of
           None \<Rightarrow>
             bind_io (println NOTHING_TO_RESUME) (\<lambda>_.
             bind_io (create_record a records_root now) (\<lambda>r. ret (r, False)))
         | Some e \<Rightarrow>
             bind_io (recorded_identity e) (\<lambda>recorded.
               (case recorded of
                  Some i \<Rightarrow>
                    if i \<noteq> identity then
                      bind_io (println OTHER_IDENTITY) (\<lambda>_.
                      bind_io (create_record a records_root now) (\<lambda>r. ret (r, False)))
                    else ret (e, True)
                | None \<Rightarrow> ret (e, True))))))"

definition environment :: "scalar_string \<Rightarrow> scalar_string \<Rightarrow> json_object io" where
  "environment os arch =
     bind_io (capture ''rustc'' [''--version'']) (\<lambda>rustc.
     bind_io (capture ''cargo'' [''--version'']) (\<lambda>cargo.
       ret (object_string (scalars ''cargo'') cargo
         (object_string (scalars ''rustc'') rustc
         (object_string (scalars ''arch'') arch
         (object_string (scalars ''os'') os object_new))))))"

definition tree_state_of :: "scalar_string list \<Rightarrow> tree_state" where
  "tree_state_of changes = (if changes = [] then Clean else Modified changes)"

section \<open>What is printed\<close>

definition display_record :: "run_record \<Rightarrow> path \<Rightarrow> scalar_string" where
  "display_record r repository_root =
     join_with (scalars ''/'')
       (if take (length repository_root) (rr_root r) = repository_root
        then drop (length repository_root) (rr_root r) else [] # rr_root r)"

definition report_lines ::
  "(nat \<Rightarrow> scalar_string) \<Rightarrow> campaign \<Rightarrow> run_record \<Rightarrow> report \<Rightarrow> nat \<Rightarrow> path \<Rightarrow> scalar_string list" where
  "report_lines show_seconds c r rep elapsed repository_root =
     (let passed = length (filter (\<lambda>x. holds (sr_status x)) (rp_results rep));
          blockers = map (\<lambda>x. sr_id x @ scalars '' ('' @ status_as_str (sr_status x) @ scalars '')'')
                       (filter (\<lambda>x. \<not> holds (sr_status x)) (rp_results rep))
      in [scalars ''Campaign: '' @ rr_identifier r, scalars ''Type: '' @ CAMPAIGN_TYPE,
          scalars ''Tier: '' @ tier_as_str (cp_tier c), scalars ''Revision: '' @ cp_subject_revision c,
          scalars ''Segments: '' @ display_nat passed @ scalars ''/'' @ display_nat (length (rp_results rep)) @
            scalars '' valid, '' @ display_nat (reused rep) @ scalars '' reused'',
          scalars ''Duration: '' @ show_seconds elapsed @ scalars ''s'',
          scalars ''Status: '' @ state_as_str (rp_state rep),
          scalars ''Blockers: '' @ (if blockers = [] then scalars ''none'' else join_with (scalars '', '') blockers),
          scalars ''Record: '' @ display_record r repository_root] @
         map (\<lambda>m. scalars ''  does not seal: '' @ m) (rp_reasons rep) @
         concat (map (\<lambda>x. if sr_status x = Skipped
                          then (case sr_note x of Some t \<Rightarrow> [scalars ''  '' @ sr_id x @ scalars '': '' @ t] | None \<Rightarrow> [])
                          else []) (rp_results rep)))"

primrec print_lines :: "scalar_string list \<Rightarrow> unit io" where
  "print_lines [] = ret ()"
| "print_lines (l # ls) = bind_io (println l) (\<lambda>_. print_lines ls)"

definition print_report ::
  "(nat \<Rightarrow> scalar_string) \<Rightarrow> campaign \<Rightarrow> run_record \<Rightarrow> report \<Rightarrow> nat \<Rightarrow> path \<Rightarrow> unit io" where
  "print_report show_seconds c r rep elapsed repository_root =
     print_lines (report_lines show_seconds c r rep elapsed repository_root)"

section \<open>The run\<close>

definition current_dir :: "unit io" where
  "current_dir = file_op (\<lambda>fs. Inr ((), fs))"

record run_end =
  end_success :: bool
  end_campaign :: campaign
  end_record :: run_record
  end_report :: report

definition runner_execute ::
  "(nat \<Rightarrow> scalar_string) \<Rightarrow> scalar_string \<Rightarrow> scalar_string \<Rightarrow> scalar_string list \<Rightarrow> run_end io" where
  "runner_execute show_seconds os arch args =
     bind_io (lift_result (parse_arguments args)) (\<lambda>a.
     bind_io current_dir (\<lambda>_.
     bind_io repo_root (\<lambda>repository_root.
     bind_io subject_revision (\<lambda>revision.
       let segments = required (arg_tier a) in
     bind_io (identity_resolve revision (definition_digest segments)) (\<lambda>identity.
     bind_io now_utc (\<lambda>now.
     bind_io (select_record a (path_join repository_root RECORDS_DIRECTORY) (identity_digest identity) now) (\<lambda>(r, resuming).
     bind_io working_tree_changes (\<lambda>changes.
     bind_io (environment os arch) (\<lambda>env.
     bind_io (lift_result (timestamp now)) (\<lambda>created.
       let c = \<lparr>cp_tier = arg_tier a, cp_topic = arg_topic a, cp_subject_revision = revision, cp_identity = identity,
                cp_segments = segments, cp_budget = SEGMENT_BUDGET, cp_environment = env, cp_created = created,
                cp_resume = resuming, cp_tree_state = tree_state_of changes\<rparr> in
     bind_io instant_now (\<lambda>started.
     bind_io (campaign_execute show_seconds c r now_timestamp) (\<lambda>rep.
     bind_io (elapsed_since started) (\<lambda>elapsed.
     bind_io (print_report show_seconds c r rep elapsed repository_root) (\<lambda>_.
       ret \<lparr>end_success = closes (arg_tier a) rep, end_campaign = c, end_record = r, end_report = rep\<rparr>))))))))))))))"

text \<open>How the process ends: its success, the lines on its standard output and those on its standard error.\<close>

definition runner_main ::
  "(nat \<Rightarrow> scalar_string) \<Rightarrow> scalar_string \<Rightarrow> scalar_string \<Rightarrow> scalar_string list \<Rightarrow> world \<Rightarrow>
   (bool \<times> scalar_string list \<times> scalar_string list) option" where
  "runner_main show_seconds os arch args w =
     (case runner_execute show_seconds os arch args w of
        None \<Rightarrow> None
      | Some (Inr e, w') \<Rightarrow> Some (end_success e, printed (w_history w'), [])
      | Some (Inl e, w') \<Rightarrow> Some (False, printed (w_history w'), [scalars ''validation-runner: '' @ runner_error_display e]))"

section \<open>What is continued and what is printed\<close>

text \<open>
  When a run continues an earlier record: exactly when that was asked for, there is one, and it holds
  no result under another evidence identity; otherwise the record is new.
\<close>

lemma select_record_choice:
  assumes "select_record a root identity now w = Some (Inr (r, resuming), w')"
  shows "if resuming
    then arg_resume a \<and> (\<exists>w1 i. record_latest root (tier_as_str (arg_tier a)) w = Some (Inr (Some r), w1) \<and>
      recorded_identity r w1 = Some (Inr i, w') \<and> (\<forall>j. i = Some j \<longrightarrow> j = identity))
    else \<exists>w1. create_record a root now w1 = Some (Inr r, w')"
  using assms
  by (auto simp: select_record_def bind_io_eq_Some ret_def split: if_splits option.splits)

lemma print_lines_eq: "print_lines ls w = Some (Inr (), saw (map Printed ls) w)"
  by (induction ls arbitrary: w) (simp_all add: bind_io_def println_def ret_def saw_def)

text \<open>A run that fails says so on its standard error, and a run that reports ends with its report.\<close>

lemma runner_main_report:
  assumes "runner_main show_seconds os arch args w = Some (ok, out, err)"
  shows "if err = [] then \<exists>(e :: run_end) r elapsed root before. ok = end_success e \<and>
      out = before @ report_lines show_seconds (end_campaign e) r (end_report e) elapsed root
    else \<not> ok \<and> (\<exists>e. err = [scalars ''validation-runner: '' @ runner_error_display e])"
proof -
  obtain x w' where x: "runner_execute show_seconds os arch args w = Some (x, w')" "out = printed (w_history w')"
    using assms by (auto simp: runner_main_def split: option.splits prod.splits sum.splits)
  show ?thesis
  proof (cases x)
    case (Inr e)
    then obtain r elapsed root w1 where
      "print_report show_seconds (end_campaign e) r (end_report e) elapsed root w1 = Some (Inr (), w')"
      using x(1) by (auto simp: runner_execute_def bind_io_eq_Some ret_def Let_def split: prod.splits)
    then have "w_history w' = w_history w1 @ map Printed (report_lines show_seconds (end_campaign e) r (end_report e) elapsed root)"
      by (auto simp: print_report_def print_lines_eq saw_def)
    then have "out = printed (w_history w1) @ report_lines show_seconds (end_campaign e) r (end_report e) elapsed root"
      using x(2) by (simp add: printed_def comp_def)
    moreover have "ok = end_success e" and err: "err = []" using assms x(1) Inr by (simp_all add: runner_main_def)
    ultimately have "\<exists>(e :: run_end) r elapsed root before. ok = end_success e \<and>
        out = before @ report_lines show_seconds (end_campaign e) r (end_report e) elapsed root" by blast
    with err show ?thesis by simp
  qed (use assms x(1) in \<open>auto simp: runner_main_def\<close>)
qed

section \<open>What a successful run shows\<close>

text \<open>
  The success of a gate run is about the whole campaign: it ran the segments the gate requires at a
  full commit identity, over a clean tree, and every one of them holds.
\<close>

lemma gate_success:
  assumes run: "runner_execute show_seconds os arch args w = Some (Inr e, w')"
    and a: "parse_arguments args = Inr a" "arg_tier a = Gate" and s: "end_success e"
  shows "cp_segments (end_campaign e) = required Gate \<and> cp_tree_state (end_campaign e) = Clean \<and>
    map sr_id (rp_results (end_report e)) = map sd_id (required Gate) \<and>
    list_all (\<lambda>x. holds (sr_status x)) (rp_results (end_report e)) \<and>
    length (cp_subject_revision (end_campaign e)) = 40 \<and> list_all is_ascii_hexdigit (cp_subject_revision (end_campaign e))"
proof -
  obtain w1 w2 w3 w4 r where
    rev: "subject_revision w1 = Some (Inr (cp_subject_revision (end_campaign e)), w2)" and
    ex: "campaign_execute show_seconds (end_campaign e) r now_timestamp w3 = Some (Inr (end_report e), w4)" and
    c: "cp_segments (end_campaign e) = required Gate" "closes Gate (end_report e)"
    using run s a by (auto simp: runner_execute_def bind_io_eq_Some lift_result_def ret_def Let_def split: prod.splits)
  note rep = campaign_execute_report [OF ex]
  have "rp_state (finish_report (end_campaign e) (rp_results (end_report e))) = Sealed"
    using c(2) rep by (simp add: closes_def)
  then have "cp_tree_state (end_campaign e) = Clean" "list_all (\<lambda>x. holds (sr_status x)) (rp_results (end_report e))"
    using finish_report_state [of "rp_results (end_report e)" "end_campaign e"] rep
    by (auto simp: list_ex_iff list_all_iff split: if_splits)
  then show ?thesis using rep c(1) subject_revision_commit [OF rev] by simp
qed

text \<open>The arguments the tool documents, and those it refuses.\<close>

lemma parse_arguments_run:
  "parse_arguments [scalars ''run'', scalars ''--tier'', scalars ''gate''] =
     Inr \<lparr>arg_tier = Gate, arg_topic = DEFAULT_TOPIC, arg_resume = False\<rparr>"
  "parse_arguments [scalars ''run'', scalars ''--tier'', scalars ''gate'', scalars ''--resume''] =
     Inr \<lparr>arg_tier = Gate, arg_topic = DEFAULT_TOPIC, arg_resume = True\<rparr>"
  "parse_arguments [scalars ''run''] = failed (scalars ''`--tier` is required. '' @ USAGE)"
  by (simp_all add: parse_arguments_def and_then_def tier_parse_def scalars_inject)

end
