(* ===== verification/Spec2Isabelle.thy ===== *)
theory Spec2Isabelle
  imports Sessions_Edges Test_Dispatcher_Laws Runner_Main
begin

text \<open>
  A verification development for \<open>rp1db\<close>, an asynchronous Rust client for a binary
  request/response protocol (sources under \<open>src/src/\<close>), and for the validation runner that records
  evidence about it (sources under \<open>src/tools/validation-runner/src/\<close>).

  \<^bold>\<open>The program.\<close>  A caller opens a \<open>Connection\<close> from a \<open>ConnectionConfig\<close>.  Establishing it sends one
  handshake frame over a transport and reads the response; afterwards a driver task owns the
  transport.  A command (\<open>PING\<close>, \<open>GET\<close>, \<open>SET\<close>, \<open>DEL\<close>, \<open>EXISTS\<close>) encodes a request frame under a fresh
  identifier and hands it to the driver together with a one-shot channel; the driver writes it,
  reads the peer's stream in chunks, cuts it into frames and sends each terminal frame to the
  channel of the request it names, in whatever order the answers arrive.  Closing stops admission
  and makes the driver fail every waiting caller and shut the transport down.

  The validation runner is a command-line tool.  It resolves the revision and the environment it
  runs in, digests them into an evidence identity, opens a new record directory or resumes the last
  one, and works through the segments a tier requires.  A segment is a list of commands run under a
  wall-clock budget, with their output as evidence; every result is appended to the journal of the
  record before the next segment starts, and a resumed campaign reuses the results that still hold.
  At the end the record is sealed, partial or failed.

  \<^bold>\<open>The theories\<close>, in the order they build on each other:

  \<^item> \<open>Prelude\<close>: machine integers, \<open>Result\<close> values, checked arithmetic, slice accessors,
    little-endian encodings, and the collections of rewrite rules the other theories use.
  \<^item> \<open>Wire\<close> (\<open>protocol.rs\<close>): constants, connection states, limits, roles, kinds, result codes,
    error classes and failures; wire values and constructors correspond one to one.
  \<^item> \<open>Regions\<close> (\<open>protocol.rs\<close>): the metadata and capability regions.  Both parsers satisfy the
    locale \<open>entry_region\<close>, whose lemmas say that parsing inverts the wire layout exactly.
  \<^item> \<open>Handshake\<close> (\<open>protocol.rs\<close>): \<open>HandshakeRequest\<close>, \<open>HandshakeResponse\<close>, the version intersection;
    each decoder accepts exactly the encodings of well-formed payloads.
  \<^item> \<open>Frames\<close> and \<open>Frame_Codec\<close> (\<open>protocol.rs\<close>): \<open>admit\<close>, \<open>decode\<close>, \<open>encode_with_max\<close> and what they
    call.  \<open>decode_eq\<close> reduces the decoder to a refusal the header decides and a verdict on a
    complete frame; from it follow incrementality, admission safety, the classification of
    failures, and that encoder and decoder are inverse in both directions.
  \<^item> \<open>Commands\<close> (\<open>command.rs\<close>): request payloads and the interpretation of terminal frames, exact
    on every frame a client admits.
  \<^item> \<open>Dispatch\<close> (\<open>connection/dispatch.rs\<close>): the identifier allocator, at its 64-bit width, and the
    registry of live identifiers, an interpretation of the locale \<open>id_registry\<close>.
  \<^item> \<open>Transport\<close> (\<open>transport/mod.rs\<close>, \<open>write_all\<close>): the stream boundary.  The Tokio TCP stream is the
    parameter \<open>stream_ops\<close>, with what its operations answer and in which states they resolve at all;
    what the crate relies on is the locale \<open>byte_stream\<close> (a write may take nothing, a read may fail),
    which the in-memory transport of the sources interprets, and which carries over to a
    connection's transport.
  \<^item> \<open>Lifecycle\<close> (\<open>connection/mod.rs\<close>, \<open>mark_state\<close>): the lifecycle states, ordered by progress, and
    the operations that move them.
  \<^item> \<open>Driver\<close>, \<open>Driver_Laws\<close> and \<open>Driver_Trace\<close> (\<open>connection/driver.rs\<close>): the dispatch loop
    \<open>drain_frames\<close>, \<open>fail_all\<close>, and \<open>run_driver\<close> as one function per select arm.  A trace
    (\<open>driver_trace\<close>) is any sequence of completed arms; the invariant of a session is proved for
    every arm and lifted to traces by rule induction.  It yields that a caller is only ever sent
    an answer to its own request, exactly once, that fragmentation is immaterial, and which state each
    exit leaves.
    \<open>Driver_Delivery\<close> adds that answers in any order reach their callers.
  \<^item> \<open>Test_Dispatcher\<close> and \<open>Test_Dispatcher_Laws\<close> (the second half of \<open>connection/dispatch.rs\<close>): the
    simpler dispatcher the crate's multiplexing scenarios run, with its callers, its task and its
    handle.  Every call is resolved once under every interleaving, and its dispatch loop agrees with
    the driver's, so what the scenarios show of it carries over.
  \<^item> \<open>Config\<close> (\<open>connection/mod.rs\<close>): the configuration and its validation, the establishment and
    command errors.
  \<^item> \<open>Establish\<close> (\<open>connection/mod.rs\<close>): \<open>connect\<close>, \<open>establish\<close> and the handshake loops.  An
    operation of the stream that never resolves makes the handshake not return, the value \<open>None\<close>; that
    it returns otherwise is proved from the byte-stream contract.
  \<^item> \<open>Connection\<close> and \<open>Connection_Laws\<close> (\<open>connection/mod.rs\<close>): the commands and closing.  What an await
    resolves to is an argument (\<open>waits\<close>), and closing is split at its locks and awaits, so every
    interleaving with the driver and other handles is covered.  The laws join the layers: a
    submitted request is one a server admits, a delivered frame is one its caller can read, and a
    reply the server encodes is the result the caller gets.
  \<^item> \<open>Event_Systems\<close>: the locale \<open>event_system\<close> of partial step functions and their runs, with the
    induction over runs; sessions and the test dispatcher interpret it.
  \<^item> \<open>Sessions\<close>, \<open>Sessions_Laws\<close> and \<open>Sessions_Bounds\<close> (\<open>connection/mod.rs\<close>, \<open>connection/driver.rs\<close>): a
    whole session, with any number of calls and closes through clones of the handle, the driver task,
    its submit channel and the semaphore.  A call advances from one await to the next, a close from
    one critical section to the next, and either may be dropped while it waits; \<open>session_run\<close> is any
    interleaving.  Invariants of every step: \<open>permits_ok\<close>, \<open>links_ok\<close>, \<open>flight_ok\<close> and \<open>ids_ok\<close>.
  \<^item> \<open>Sessions_Runs\<close>: a call returns the answer to its own request, admission is bounded, no
    submission is refused, and no call outlives its session.
  \<^item> \<open>Sessions_Calls\<close>: a session refines the call on its own.  What a call returns is what \<open>execute\<close>
    returns for its arguments, on the shared state and with the outcomes of its awaits at the moments
    of the run at which it was started, admitted and ended.
  \<^item> \<open>Sessions_Shutdown\<close>: sessions stay well formed, the driver never outlives the handles, and an
    answer that arrives is returned.
  \<^item> \<open>Sessions_Edges\<close>: what any reachable session makes of an error frame of a connection-fatal class, of
    the end of the stream, of a transport whose shutdown fails, and of a close that overlaps with its
    end.
  \<^item> \<open>Runner_Base\<close> (\<open>error.rs\<close>) and \<open>Runner_Time\<close> (\<open>time.rs\<close>): errors, formatting, and the conversion of a
    clock reading into a date by checked 64-bit arithmetic.  The specification is the calendar
    itself, one day after another; the conversion agrees with it on every reading.
  \<^item> \<open>Runner_Json\<close> (\<open>json.rs\<close>): the object builder, the string literals and the reader of flat objects,
    which inverts the builder on every string.
  \<^item> \<open>Runner_Host\<close>: the files, clocks and commands of the host, and the sequencing of operations that may
    fail, with the laws of what an operation leaves unchanged.
  \<^item> \<open>Runner_Segment\<close> (\<open>segment.rs\<close>): one attempt of a segment.  The relation \<open>attempt_runs\<close> specifies which
    commands run and what the evidence says; \<open>segment_execute\<close> implements it and returns.
  \<^item> \<open>Runner_Identity\<close> (\<open>process.rs\<close>, \<open>repo.rs\<close>, \<open>identity.rs\<close>): captured commands, the commit identity, the
    changes of the working tree, and the evidence identity with its 64-bit digest.
  \<^item> \<open>Runner_Record\<close> and \<open>Runner_Record_Laws\<close> (\<open>record.rs\<close>): creating, finding and opening records, the
    journal and its reader, the manifest and the summary; a new record has a directory of its own.
  \<^item> \<open>Runner_Campaign\<close>, \<open>Runner_Campaign_Laws\<close> and \<open>Runner_Completion\<close> (\<open>campaign.rs\<close>): the segment table,
    sealing, reuse and execution.  \<open>campaign_runs\<close> specifies which segments are reused, skipped or
    attempted; execution refines it for every clock that only observes (locale \<open>record_clock\<close>), keeps
    the journal append-only through every fault, and completes on a host that works and whose probes end.
  \<^item> \<open>Runner_Main\<close> (\<open>main.rs\<close>): arguments, the choice of the record, the whole run and what it prints; what
    a successful gate run shows.

  \<^bold>\<open>Modelling choices.\<close>  Integers keep their width; \<open>usize\<close> is a natural number with the 64-bit
  bound written out in the checked operations.  Errors are values of a sum type.  Hash sets and hash
  maps are lists without repeated keys; their iteration order is immaterial because the decoder
  reads the live identifiers as a set (\<open>decode_ids_set\<close>) and the waiting callers are compared as a
  multiset.  A one-shot channel is a number and what is sent to it a log, so exactly-once is a
  statement about the log.  Every loop is total by a measure except the handshake's read loop and the
  loop that polls a running command, which are partial functions; that they return is proved, from
  the byte-stream contract and from a clock that advances.  No fuel is used.  Awaits and waits without
  a deadline may never end: the operations of the TCP stream during the handshake, and the commands
  the runner waits for without a budget (probes and captured commands).  Not ending is the value
  \<open>None\<close>, and the theorems that something returns say which of them have to end.  An arm of the driver
  is a step of a trace or run only once its operation has resolved.

  An operation of the runner is a function of a world: its files, the events its commands caused, and
  a count of the operations made so far.  Whether the next operation fails and after how many
  characters, what the clocks read, and what a command prints and how it ends are arbitrary
  functions of that count, so a theorem about every world covers every placement of faults and
  every behaviour of the commands.  Files hold Unicode text, \<open>..\<close> is an ordinary name of a path, and
  the commands of a campaign reach the files of a record only through the log they are given.
  Durations are nanoseconds; the text of a duration in seconds is the parameter \<open>show_seconds\<close>.

  \<^bold>\<open>What the theorems expose.\<close>  A connection-fatal error frame that names a live request ends only that
  request; a failed shutdown of the transport of a driver is reported but the state stays closed; a
  close that overlaps with a fatal end of the session overwrites that end and leaves the session
  closing until somebody closes it again; establishing a connection to a silent peer does not return;
  requests in flight when a fatal failure
  ends the session are not reported as ambiguous; and the end of the stream goes unnoticed while no
  request is in flight.  Calls that are dropped give their permit back while their requests stay in
  flight, so the configured bound does not hold for them; and a second close returns success while
  the first still waits for the driver.  Of the runner: results taken over a modified working tree are reused once
  the tree is clean, and then seal a record without a command having run; an entry appended
  after a journal line that lacks its newline is lost without an error; and the probe of a prerequisite
  has no budget, so one that hangs keeps the campaign from returning.  Of the test dispatcher: the
  identifier of a submission its task never received stays live, and a failure scoped to one request
  ends its whole session.

  \<^bold>\<open>Bounds.\<close>  The theorems on identifiers of a session speak of its first 2^64 - 3 steps: each step
  allocates at most one identifier, the handshake takes the first, and 0 is reserved, so none comes
  round before.  Runs themselves are finite lists of events and need no fuel.

  \<^bold>\<open>Not modelled.\<close>  Task spawning and the order in which the runtime serves waiting callers and ready
  arms, which a run leaves open; an arm of the driver is one step of a session, so a caller does not
  see the driver between a write and the next wait; test-only code beyond the in-memory transport and
  the test dispatcher: the unit tests, \<open>testing.rs\<close> and the constructor \<open>from_unix_seconds\<close>; callers
  of the test dispatcher cancelled while they wait for room; and the formatting of floating-point
  numbers.
\<close>

end
